(* ===== verification/Prelude.thy ===== *)
theory Prelude
  imports Main "HOL-Library.Word"
begin

text \<open>
  What every component shares: the machine types, the characters the code compares with, the few
  members of \<^verbatim>\<open>std::string\<close> and of the C library that several components call, and the
  generic lemmas about them.  A \<^verbatim>\<open>std::string\<close> is a sequence of bytes, and Isabelle's
  \<open>char\<close> is exactly a byte, so strings are \<open>char list\<close>s and \<open>length\<close> is \<^verbatim>\<open>size()\<close>.
\<close>

section \<open>Machine types and characters\<close>

type_synonym cell = "32 word"
type_synonym handle = int

abbreviation NUL :: char where "NUL \<equiv> CHR 0x00"
abbreviation TAB :: char where "TAB \<equiv> CHR 0x09"
abbreviation NL :: char where "NL \<equiv> CHR 0x0A"
abbreviation CR :: char where "CR \<equiv> CHR 0x0D"
abbreviation SPC :: char where "SPC \<equiv> CHR 0x20"
abbreviation DQ :: char where "DQ \<equiv> CHR 0x22"
abbreviation SQ :: char where "SQ \<equiv> CHR 0x27"
abbreviation BSL :: char where "BSL \<equiv> CHR 0x5C"
abbreviation BTICK :: char where "BTICK \<equiv> CHR 0x60"
abbreviation SEMI :: char where "SEMI \<equiv> CHR 0x3B"

section \<open>Named collections\<close>

named_theorems lex_simps "rewriting of the lexer on the shapes the SQL builders produce"
named_theorems registry_simps "lookup after an update of a handle registry"

section \<open>Looking ahead one character\<close>

text \<open>\<^verbatim>\<open>(i + 1 < sql.size()) ? sql[i + 1] : '\0'\<close>, on the rest of the string after index \<open>i\<close>.\<close>

definition peek :: "string \<Rightarrow> char" where
  "peek cs = (case cs of [] \<Rightarrow> NUL | c # _ \<Rightarrow> c)"

lemma peek_simps [simp]: "peek [] = NUL" "peek (c # cs) = c"
  by (simp_all add: peek_def)

lemma peek_append: "peek (a @ b) = (if a = [] then peek b else peek a)"
  by (cases a) auto

section \<open>C library character classes and numbers\<close>

text \<open>\<^verbatim>\<open>isspace\<close> in the C locale.\<close>

definition c_isspace :: "char \<Rightarrow> bool" where
  "c_isspace c \<longleftrightarrow> c \<in> {CHR 0x20, CHR 0x09, CHR 0x0A, CHR 0x0B, CHR 0x0C, CHR 0x0D}"

definition c_isdigit :: "char \<Rightarrow> bool" where
  "c_isdigit c \<longleftrightarrow> 48 \<le> (of_char c :: nat) \<and> (of_char c :: nat) \<le> 57"

definition digit_char :: "nat \<Rightarrow> char" where
  "digit_char d = char_of (48 + d)"

definition digit_val :: "char \<Rightarrow> nat" where
  "digit_val c = of_char c - 48"

lemma c_isdigit_digit_char: "d < 10 \<Longrightarrow> c_isdigit (digit_char d)"
  by (simp add: c_isdigit_def digit_char_def)

lemma digit_val_digit_char: "d < 10 \<Longrightarrow> digit_val (digit_char d) = d"
  by (simp add: digit_val_def digit_char_def)

text \<open>Decimal digits of a natural number, most significant first, as \<^verbatim>\<open>std::to_string\<close> prints them.\<close>

fun show_nat :: "nat \<Rightarrow> string" where
  "show_nat n = (if n < 10 then [digit_char n] else show_nat (n div 10) @ [digit_char (n mod 10)])"

declare show_nat.simps [simp del]

lemma show_nat_digits: "c \<in> set (show_nat n) \<Longrightarrow> c_isdigit c"
proof (induction n rule: show_nat.induct)
  case (1 n)
  then show ?case
    by (cases "n < 10") (auto simp: show_nat.simps [of n] c_isdigit_digit_char)
qed

lemma show_nat_nonempty [simp]: "show_nat n \<noteq> []"
  by (subst show_nat.simps) simp

text \<open>\<^verbatim>\<open>std::to_string(int)\<close> and \<^verbatim>\<open>snprintf("%d")\<close>.\<close>

definition show_int :: "int \<Rightarrow> string" where
  "show_int i = (if i < 0 then CHR ''-'' # show_nat (nat (- i)) else show_nat (nat i))"

lemma show_int_nonempty [simp]: "show_int i \<noteq> []"
  by (simp add: show_int_def)

text \<open>The digit loop of \<^verbatim>\<open>strtol(s, nullptr, 10)\<close>: the value of the longest run of digits.\<close>

fun read_digits :: "nat \<Rightarrow> string \<Rightarrow> nat" where
  "read_digits acc [] = acc"
| "read_digits acc (c # cs) = (if c_isdigit c then read_digits (10 * acc + digit_val c) cs else acc)"

text \<open>\<^verbatim>\<open>c_str()\<close> cuts a string at its first NUL.\<close>

definition c_str :: "string \<Rightarrow> string" where
  "c_str s = takeWhile (\<lambda>c. c \<noteq> NUL) s"

text \<open>
  The number \<^verbatim>\<open>strtol\<close> reads before it saturates: leading white space, one optional sign, the
  digits; 0 when there is none.
\<close>

definition strtol_value :: "string \<Rightarrow> int" where
  "strtol_value s = (case dropWhile c_isspace (c_str s) of
       [] \<Rightarrow> 0
     | c # cs \<Rightarrow> if c = CHR ''-'' then - int (read_digits 0 cs)
                else if c = CHR ''+'' then int (read_digits 0 cs)
                else int (read_digits 0 (c # cs)))"

text \<open>\<^verbatim>\<open>strtol\<close> with a \<^verbatim>\<open>long\<close> of \<open>w\<close> bits (32 on the i386 builds, 64 on arm64): out-of-range values saturate.\<close>

definition strtol :: "nat \<Rightarrow> string \<Rightarrow> int" where
  "strtol w s = max (- (2 ^ (w - 1))) (min (2 ^ (w - 1) - 1) (strtol_value s))"

lemma read_digits_append:
  "\<forall>c \<in> set xs. c_isdigit c \<Longrightarrow> read_digits acc (xs @ ys) = read_digits (read_digits acc xs) ys"
  by (induction xs arbitrary: acc) auto

lemma read_digits_show_nat: "read_digits 0 (show_nat n) = n"
proof (induction n rule: show_nat.induct)
  case (1 n)
  show ?case
  proof (cases "n < 10")
    case True
    then show ?thesis
      by (simp add: show_nat.simps [of n] c_isdigit_digit_char digit_val_digit_char)
  next
    case False
    with 1 have "read_digits 0 (show_nat (n div 10)) = n div 10" by simp
    with False show ?thesis
      by (subst show_nat.simps)
        (simp add: read_digits_append show_nat_digits c_isdigit_digit_char digit_val_digit_char)
  qed
qed

lemma c_str_id: "NUL \<notin> set s \<Longrightarrow> c_str s = s"
  by (simp add: c_str_def takeWhile_eq_all_conv) blast

lemma digit_not: "c_isdigit c \<Longrightarrow> c \<noteq> NUL \<and> c \<noteq> CHR ''-'' \<and> c \<noteq> CHR ''+'' \<and> \<not> c_isspace c"
  by (auto simp: c_isdigit_def c_isspace_def)

lemma strtol_value_show_nat: "strtol_value (show_nat n) = int n"
proof -
  have "NUL \<notin> set (show_nat n)"
    using show_nat_digits digit_not by blast
  moreover obtain c cs where c: "show_nat n = c # cs"
    by (cases "show_nat n") auto
  moreover have "c_isdigit c"
    using c show_nat_digits [of c n] by simp
  ultimately show ?thesis
    using read_digits_show_nat [of n] digit_not [of c]
    by (simp add: strtol_value_def c_str_id)
qed

lemma strtol_value_show_int: "strtol_value (show_int i) = i"
proof (cases "i < 0")
  case True
  have "NUL \<notin> set (show_nat (nat (- i)))"
    using show_nat_digits digit_not by blast
  with True show ?thesis
    by (simp add: show_int_def strtol_value_def c_str_id c_isspace_def read_digits_show_nat)
next
  case False
  then show ?thesis by (simp add: show_int_def strtol_value_show_nat)
qed

section \<open>Narrowing to \<^verbatim>\<open>int\<close>\<close>

text \<open>\<^verbatim>\<open>static_cast<int>\<close>: the low 32 bits, read as two's complement.\<close>

definition wrap32 :: "int \<Rightarrow> int" where
  "wrap32 i = sint (word_of_int i :: 32 word)"

lemma wrap32_eq: "wrap32 i = (i + 2 ^ 31) mod 2 ^ 32 - 2 ^ 31"
  by (simp add: wrap32_def int_word_sint)

lemma wrap32_le: "0 \<le> i \<Longrightarrow> wrap32 i \<le> i"
  using zmod_le_nonneg_dividend [of "i + 2 ^ 31" "2 ^ 32"] by (simp add: wrap32_eq)

lemma wrap32_id: "- (2 ^ 31) \<le> i \<Longrightarrow> i < 2 ^ 31 \<Longrightarrow> wrap32 i = i"
  by (simp add: wrap32_eq)

lemma wrap32_bounds: "- (2 ^ 31) \<le> wrap32 i \<and> wrap32 i < 2 ^ 31"
  using pos_mod_bound [of "2 ^ 32" "i + 2 ^ 31"] pos_mod_sign [of "2 ^ 32" "i + 2 ^ 31"]
  by (simp add: wrap32_eq)

end
