(* ===== verification/Result.thy ===== *)
theory Result
  imports Prelude
begin

text \<open>
  The buffered result sets of \<^verbatim>\<open>src/Result.hpp\<close>, the cell readers of \<^verbatim>\<open>src/natives.cpp\<close> that serve
  the \<^verbatim>\<open>mysql_rs_*\<close> natives from them, and the shape every result set the workers build has: each row
  holds exactly one value per column, which is what makes the unchecked \<^verbatim>\<open>rows[row][column]\<close> safe.
\<close>

section \<open>Data\<close>

record ResultField =
  rf_name :: string
  rf_type :: int

record ResultValue =
  rv_value :: string
  rv_isNull :: bool

record ResultSet =
  rs_fields :: "ResultField list"
  rs_rows :: "ResultValue list list"
  rs_affectedRows :: "64 word"
  rs_insertId :: "64 word"
  rs_warningCount :: "32 word"

record QueryResult =
  qr_sets :: "ResultSet list"
  qr_execTimeMicros :: int
  qr_queryString :: string

definition rowCount :: "ResultSet \<Rightarrow> int" where
  "rowCount s = wrap32 (int (length (rs_rows s)))"

definition fieldCount :: "ResultSet \<Rightarrow> int" where
  "fieldCount s = wrap32 (int (length (rs_fields s)))"

definition resultCount :: "QueryResult \<Rightarrow> int" where
  "resultCount r = wrap32 (int (length (qr_sets r)))"

text \<open>\<^verbatim>\<open>fieldIndex\<close>: the loop over the columns from index \<open>i\<close>.\<close>

fun fieldIndex_from :: "nat \<Rightarrow> ResultField list \<Rightarrow> string \<Rightarrow> int" where
  "fieldIndex_from i [] name = -1"
| "fieldIndex_from i (f # fs) name =
     (if rf_name f = name then wrap32 (int i) else fieldIndex_from (Suc i) fs name)"

definition fieldIndex :: "ResultSet \<Rightarrow> string \<Rightarrow> int" where
  "fieldIndex s name = fieldIndex_from 0 (rs_fields s) name"

section \<open>Cell access\<close>

text \<open>
  What an unchecked \<^verbatim>\<open>v[i]\<close> on a \<^verbatim>\<open>std::vector\<close> does: a value inside the vector, undefined behaviour
  outside.  \<open>Null\<close> is the null pointer the code returns on purpose.
\<close>

datatype 'a access = Found 'a | Null | Undefined_Behaviour

definition at_unchecked :: "'a list \<Rightarrow> int \<Rightarrow> 'a access" where
  "at_unchecked xs i = (if 0 \<le> i \<and> i < int (length xs) then Found (xs ! nat i) else Undefined_Behaviour)"

fun access_bind :: "'a access \<Rightarrow> ('a \<Rightarrow> 'b access) \<Rightarrow> 'b access" where
  "access_bind (Found x) f = f x"
| "access_bind Null f = Null"
| "access_bind Undefined_Behaviour f = Undefined_Behaviour"

lemma access_case_Found:
  "((case x of Found a \<Rightarrow> f a | Null \<Rightarrow> Undefined_Behaviour | Undefined_Behaviour \<Rightarrow> Undefined_Behaviour) = Found y) \<longleftrightarrow>
     (\<exists>a. x = Found a \<and> f a = Found y)"
  by (cases x) auto

text \<open>\<^verbatim>\<open>cellAt\<close> and \<^verbatim>\<open>cellByName\<close>, on the active set (\<open>None\<close> is the null pointer).\<close>

definition cellAt :: "ResultSet option \<Rightarrow> int \<Rightarrow> int \<Rightarrow> ResultValue access" where
  "cellAt active row column = (case active of None \<Rightarrow> Null | Some s \<Rightarrow>
     if row < 0 \<or> rowCount s \<le> row \<or> column < 0 \<or> fieldCount s \<le> column then Null
     else access_bind (at_unchecked (rs_rows s) row) (\<lambda>r. at_unchecked r column))"

definition cellByName :: "ResultSet option \<Rightarrow> int \<Rightarrow> string \<Rightarrow> ResultValue access" where
  "cellByName active row column = (case active of None \<Rightarrow> Null | Some s \<Rightarrow>
     let col = fieldIndex s column in if col < 0 then Null else cellAt active row col)"

definition fieldName :: "ResultSet option \<Rightarrow> int \<Rightarrow> ResultField access" where
  "fieldName active i = (case active of None \<Rightarrow> Null | Some s \<Rightarrow>
     if i < 0 \<or> fieldCount s \<le> i then Null else at_unchecked (rs_fields s) i)"

section \<open>Native getters over a cell\<close>

text \<open>
  Each getter stores into its output parameter and returns whether there was a cell; both are
  undefined where the access is.  \<^verbatim>\<open>atoi\<close> is \<open>strtol\<close> with the platform's \<^verbatim>\<open>long\<close> of \<open>w\<close> bits,
  converted to a cell; \<^verbatim>\<open>atof\<close> (text to binary floating point, narrowed to \<^verbatim>\<open>float\<close>) is the
  argument \<open>atof\<close>, which gives the cell's bits.
\<close>

definition atoi :: "nat \<Rightarrow> string \<Rightarrow> cell" where
  "atoi w s = word_of_int (strtol w s)"

definition get_with :: "'a \<Rightarrow> (string \<Rightarrow> 'a) \<Rightarrow> ResultValue access \<Rightarrow> ('a \<times> bool) access" where
  "get_with dflt f v = (case v of
     Found x \<Rightarrow> Found (if rv_isNull x then dflt else f (rv_value x), True)
   | Null \<Rightarrow> Found (dflt, False)
   | Undefined_Behaviour \<Rightarrow> Undefined_Behaviour)"

definition rs_get_string :: "ResultValue access \<Rightarrow> (string \<times> bool) access" where
  "rs_get_string v = get_with [] (\<lambda>s. s) v"

definition rs_get_int :: "nat \<Rightarrow> ResultValue access \<Rightarrow> (cell \<times> bool) access" where
  "rs_get_int w v = get_with 0 (atoi w) v"

definition rs_get_float :: "(string \<Rightarrow> cell) \<Rightarrow> ResultValue access \<Rightarrow> (cell \<times> bool) access" where
  "rs_get_float atof v = get_with 0 atof v"

definition rs_get_bool :: "nat \<Rightarrow> ResultValue access \<Rightarrow> (bool \<times> bool) access" where
  "rs_get_bool w v = get_with False (\<lambda>s. atoi w s \<noteq> 0) v"

definition rs_is_null :: "ResultValue access \<Rightarrow> (bool \<times> bool) access" where
  "rs_is_null v = (case v of Found x \<Rightarrow> Found (rv_isNull x, True) | Null \<Rightarrow> Found (True, False)
   | Undefined_Behaviour \<Rightarrow> Undefined_Behaviour)"

section \<open>The shape of a result set\<close>

definition rectangular :: "ResultSet \<Rightarrow> bool" where
  "rectangular s \<longleftrightarrow> (\<forall>r \<in> set (rs_rows s). length r = length (rs_fields s))"

definition rectangular_result :: "QueryResult \<Rightarrow> bool" where
  "rectangular_result r \<longleftrightarrow> (\<forall>s \<in> set (qr_sets r). rectangular s)"

section \<open>Lemmas\<close>

lemma at_unchecked_in: "0 \<le> i \<Longrightarrow> i < wrap32 (int (length xs)) \<Longrightarrow> at_unchecked xs i = Found (xs ! nat i)"
  using wrap32_le [of "int (length xs)"] by (simp add: at_unchecked_def)

lemma fieldIndex_from_eq:
  "i + length fs < 2 ^ 31 \<Longrightarrow> fieldIndex_from i fs name =
     (if name \<in> rf_name ` set fs then int (i + length (takeWhile (\<lambda>f. rf_name f \<noteq> name) fs)) else -1)"
proof (induction i fs name rule: fieldIndex_from.induct)
  case (1 i name)
  then show ?case by simp
next
  case (2 i f fs name)
  then show ?case by (auto simp: wrap32_id)
qed

lemma cellAt_cases:
  assumes "rectangular s"
  shows "cellAt (Some s) row column = Null \<or>
    (\<exists>r c. row = int r \<and> column = int c \<and> r < length (rs_rows s) \<and> c < length (rs_rows s ! r) \<and>
       cellAt (Some s) row column = Found (rs_rows s ! r ! c))"
proof (cases "row < 0 \<or> rowCount s \<le> row \<or> column < 0 \<or> fieldCount s \<le> column")
  case True
  then show ?thesis by (simp add: cellAt_def)
next
  case False
  let ?r = "nat row" and ?c = "nat column"
  have bounds: "rowCount s \<le> int (length (rs_rows s))" "fieldCount s \<le> int (length (rs_fields s))"
    by (simp_all add: rowCount_def fieldCount_def wrap32_le)
  with False have r: "?r < length (rs_rows s)" by linarith
  with assms have len: "length (rs_rows s ! ?r) = length (rs_fields s)"
    by (simp add: rectangular_def)
  from False bounds have c: "?c < length (rs_fields s)" by linarith
  have "cellAt (Some s) row column = Found (rs_rows s ! ?r ! ?c)"
    using False bounds r c len by (simp add: cellAt_def at_unchecked_def nat_less_iff)
  then show ?thesis
    using False r c len by (intro disjI2 exI [of _ ?r] exI [of _ ?c]) simp
qed

definition active_ok :: "ResultSet option \<Rightarrow> bool" where
  "active_ok active \<longleftrightarrow> (case active of None \<Rightarrow> True | Some s \<Rightarrow> rectangular s)"

lemma active_ok_simps [simp]: "active_ok None" "active_ok (Some s) = rectangular s"
  by (simp_all add: active_ok_def)

lemma cellAt_total: "active_ok active \<Longrightarrow> cellAt active row column \<noteq> Undefined_Behaviour"
  using cellAt_cases [of "the active" row column] by (cases active) (auto simp: cellAt_def [of None])

lemma cellByName_total: "active_ok active \<Longrightarrow> cellByName active row name \<noteq> Undefined_Behaviour"
  using cellAt_total by (cases active) (simp_all add: cellByName_def Let_def)

section \<open>Properties\<close>

text \<open>
  On a rectangular active set no cell access is undefined, whatever row, column or column name a script
  passes: \<^verbatim>\<open>cellAt\<close> and \<^verbatim>\<open>cellByName\<close> answer a cell of the set or the null pointer, also where a
  count does not fit an \<^verbatim>\<open>int\<close>.
\<close>

theorem cell_access_safe:
  assumes "active_ok active"
  shows "cellAt active row column \<noteq> Undefined_Behaviour \<and> cellByName active row name \<noteq> Undefined_Behaviour"
  using assms by (simp add: cellAt_total cellByName_total)

theorem cell_access_safe_witness:
  "cellAt (Some \<lparr>rs_fields = [\<lparr>rf_name = ''id'', rf_type = 3\<rparr>], rs_rows = [[\<lparr>rv_value = ''7'', rv_isNull = False\<rparr>]],
     rs_affectedRows = 0, rs_insertId = 0, rs_warningCount = 0\<rparr>) 5 0 \<noteq> Undefined_Behaviour"
  by (rule cell_access_safe [THEN conjunct1]) (simp add: rectangular_def)

text \<open>
  A lookup by column name answers the number of columns before the first one of that name, and -1 where
  no column has it (for fewer than two billion columns).
\<close>

theorem fieldIndex_first:
  assumes "length (rs_fields s) < 2 ^ 31"
  shows "fieldIndex s name =
    (if name \<in> rf_name ` set (rs_fields s)
     then int (length (takeWhile (\<lambda>f. rf_name f \<noteq> name) (rs_fields s))) else -1)"
  using fieldIndex_from_eq [of 0 "rs_fields s" name] assms by (simp add: fieldIndex_def)

theorem fieldIndex_first_witness:
  "fieldIndex \<lparr>rs_fields = [\<lparr>rf_name = ''a'', rf_type = 3\<rparr>, \<lparr>rf_name = ''b'', rf_type = 3\<rparr>, \<lparr>rf_name = ''b'', rf_type = 4\<rparr>],
     rs_rows = [], rs_affectedRows = 0, rs_insertId = 0, rs_warningCount = 0\<rparr> ''b'' = 1"
  by (subst fieldIndex_first) simp_all

end
