(* ===== verification/SqlLexer.thy ===== *)
theory SqlLexer
  imports Prelude
begin

text \<open>
  The three hand-written SQL scanners of the program: \<^verbatim>\<open>MySQLComponent::isMultiStatement\<close> (the
  injection guard of \<^verbatim>\<open>src/MySQLComponent.cpp\<close>), \<^verbatim>\<open>CountPlaceholders\<close>
  (\<^verbatim>\<open>src/Statement.cpp\<close>) and the identifier quoting of \<^verbatim>\<open>src/Model.cpp\<close>.  Both scanners are
  compared with one reference lexer, \<open>code_chars\<close>, which keeps the characters that are SQL code.
\<close>

section \<open>The scanners, as written\<close>

datatype lex_state = Normal | SQuote | DQuote | BQuote | LineComment | BlockComment

text \<open>
  The loop body of \<^verbatim>\<open>isMultiStatement\<close>: one equation per \<^verbatim>\<open>case\<close>; \<open>drop 1\<close> is the extra \<^verbatim>\<open>++i\<close>,
  and returning \<open>True\<close> is the early return.
\<close>

fun ims_loop :: "lex_state \<Rightarrow> bool \<Rightarrow> string \<Rightarrow> bool" where
  "ims_loop state sawSeparator [] = False"
| "ims_loop Normal sawSeparator (c # cs) =
     (if c = SQ then ims_loop SQuote sawSeparator cs
      else if c = DQ then ims_loop DQuote sawSeparator cs
      else if c = BTICK then ims_loop BQuote sawSeparator cs
      else if c = CHR ''-'' \<and> peek cs = CHR ''-'' then ims_loop LineComment sawSeparator (drop 1 cs)
      else if c = CHR ''#'' then ims_loop LineComment sawSeparator cs
      else if c = CHR ''/'' \<and> peek cs = CHR ''*'' then ims_loop BlockComment sawSeparator (drop 1 cs)
      else if c = SEMI then ims_loop Normal True cs
      else if sawSeparator \<and> \<not> c_isspace c then True
      else ims_loop Normal sawSeparator cs)"
| "ims_loop SQuote sawSeparator (c # cs) =
     (if c = BSL then ims_loop SQuote sawSeparator (drop 1 cs)
      else if c = SQ then ims_loop Normal sawSeparator cs
      else ims_loop SQuote sawSeparator cs)"
| "ims_loop DQuote sawSeparator (c # cs) =
     (if c = BSL then ims_loop DQuote sawSeparator (drop 1 cs)
      else if c = DQ then ims_loop Normal sawSeparator cs
      else ims_loop DQuote sawSeparator cs)"
| "ims_loop BQuote sawSeparator (c # cs) =
     (if c = BTICK then ims_loop Normal sawSeparator cs else ims_loop BQuote sawSeparator cs)"
| "ims_loop LineComment sawSeparator (c # cs) =
     (if c = NL then ims_loop Normal sawSeparator cs else ims_loop LineComment sawSeparator cs)"
| "ims_loop BlockComment sawSeparator (c # cs) =
     (if c = CHR ''*'' \<and> peek cs = CHR ''/'' then ims_loop Normal sawSeparator (drop 1 cs)
      else ims_loop BlockComment sawSeparator cs)"

definition isMultiStatement :: "string \<Rightarrow> bool" where
  "isMultiStatement sql = ims_loop Normal False sql"

text \<open>
  \<^verbatim>\<open>CountPlaceholders\<close> keeps its state in three variables: the open quote character (\<open>NUL\<close> for
  none) and two flags, tested in the order of the source.
\<close>

fun cp_loop :: "nat \<Rightarrow> char \<Rightarrow> bool \<Rightarrow> bool \<Rightarrow> string \<Rightarrow> nat" where
  "cp_loop count quote lineComment blockComment [] = count"
| "cp_loop count quote lineComment blockComment (c # cs) =
     (if lineComment then cp_loop count quote (c \<noteq> NL) blockComment cs
      else if blockComment then
        (if c = CHR ''*'' \<and> peek cs = CHR ''/'' then cp_loop count quote lineComment False (drop 1 cs)
         else cp_loop count quote lineComment blockComment cs)
      else if quote \<noteq> NUL then
        (if c = BSL \<and> quote \<noteq> BTICK then cp_loop count quote lineComment blockComment (drop 1 cs)
         else if c = quote then cp_loop count NUL lineComment blockComment cs
         else cp_loop count quote lineComment blockComment cs)
      else if c = CHR ''-'' \<and> peek cs = CHR ''-'' then cp_loop count quote True blockComment (drop 1 cs)
      else if c = CHR ''#'' then cp_loop count quote True blockComment cs
      else if c = CHR ''/'' \<and> peek cs = CHR ''*'' then cp_loop count quote lineComment True (drop 1 cs)
      else if c = SQ \<or> c = DQ \<or> c = BTICK then cp_loop count c lineComment blockComment cs
      else if c = CHR ''?'' then cp_loop (count + 1) quote lineComment blockComment cs
      else cp_loop count quote lineComment blockComment cs)"

definition CountPlaceholders :: "string \<Rightarrow> nat" where
  "CountPlaceholders sql = cp_loop 0 NUL False False sql"

text \<open>\<^verbatim>\<open>ident\<close>: backtick-quote an identifier, doubling embedded backticks.\<close>

fun double_ticks :: "string \<Rightarrow> string" where
  "double_ticks [] = []"
| "double_ticks (c # cs) = (if c = BTICK then BTICK # BTICK # double_ticks cs else c # double_ticks cs)"

definition ident :: "string \<Rightarrow> string" where
  "ident s = [BTICK] @ double_ticks s @ [BTICK]"

section \<open>The reference lexer\<close>

text \<open>
  One step from a state on a character and its lookahead: the next state, whether the lookahead is
  consumed with it, and whether the character is SQL code (neither a quote, nor quoted, nor part
  of a comment).
\<close>

fun lex_step :: "lex_state \<Rightarrow> char \<Rightarrow> char \<Rightarrow> lex_state \<times> bool \<times> bool" where
  "lex_step Normal c n =
     (if c = SQ then (SQuote, False, False)
      else if c = DQ then (DQuote, False, False)
      else if c = BTICK then (BQuote, False, False)
      else if c = CHR ''-'' \<and> n = CHR ''-'' then (LineComment, True, False)
      else if c = CHR ''#'' then (LineComment, False, False)
      else if c = CHR ''/'' \<and> n = CHR ''*'' then (BlockComment, True, False)
      else (Normal, False, True))"
| "lex_step SQuote c n = (if c = BSL then (SQuote, True, False)
      else (if c = SQ then Normal else SQuote, False, False))"
| "lex_step DQuote c n = (if c = BSL then (DQuote, True, False)
      else (if c = DQ then Normal else DQuote, False, False))"
| "lex_step BQuote c n = (if c = BTICK then Normal else BQuote, False, False)"
| "lex_step LineComment c n = (if c = NL then Normal else LineComment, False, False)"
| "lex_step BlockComment c n =
     (if c = CHR ''*'' \<and> n = CHR ''/'' then (Normal, True, False) else (BlockComment, False, False))"

text \<open>The code characters of a text read from a state, and the state at its end.\<close>

fun code_chars :: "lex_state \<Rightarrow> string \<Rightarrow> string" where
  "code_chars st [] = []"
| "code_chars st (c # cs) =
     (case lex_step st c (peek cs) of (st', skip, code) \<Rightarrow>
       (if code then [c] else []) @ code_chars st' (if skip then drop 1 cs else cs))"

fun lex_end :: "lex_state \<Rightarrow> string \<Rightarrow> lex_state" where
  "lex_end st [] = st"
| "lex_end st (c # cs) =
     (case lex_step st c (peek cs) of (st', skip, _) \<Rightarrow>
       lex_end st' (if skip then drop 1 cs else cs))"

text \<open>A second statement: code that is no separator and no white space, after a separator.\<close>

fun second_statement :: "bool \<Rightarrow> string \<Rightarrow> bool" where
  "second_statement saw [] = False"
| "second_statement saw (c # cs) =
     (if c = SEMI then second_statement True cs
      else saw \<and> \<not> c_isspace c \<or> second_statement saw cs)"

lemma second_statement_iff:
  "second_statement saw cs \<longleftrightarrow>
     (saw \<and> (\<exists>c \<in> set cs. c \<noteq> SEMI \<and> \<not> c_isspace c)) \<or>
     (\<exists>pre post. cs = pre @ SEMI # post \<and> (\<exists>c \<in> set post. c \<noteq> SEMI \<and> \<not> c_isspace c))"
proof (induction cs arbitrary: saw)
  case Nil
  then show ?case by simp
next
  case (Cons c cs)
  have split: "(\<exists>pre post. c # cs = pre @ SEMI # post \<and> (\<exists>d \<in> set post. d \<noteq> SEMI \<and> \<not> c_isspace d)) \<longleftrightarrow>
      (c = SEMI \<and> (\<exists>d \<in> set cs. d \<noteq> SEMI \<and> \<not> c_isspace d)) \<or>
      (\<exists>pre post. cs = pre @ SEMI # post \<and> (\<exists>d \<in> set post. d \<noteq> SEMI \<and> \<not> c_isspace d))"
    (is "?L \<longleftrightarrow> ?R")
  proof
    assume ?L
    then show ?R by (auto simp: Cons_eq_append_conv)
  next
    assume ?R
    then show ?L
      by (metis append.left_neutral append_Cons)
  qed
  show ?case
    unfolding split by (auto simp: Cons.IH)
qed

section \<open>Both scanners against the reference\<close>


lemma ims_loop_ref: "ims_loop st saw sql = second_statement saw (code_chars st sql)"
proof (induction st saw sql rule: ims_loop.induct)
  case (2 saw c cs)
  then show ?case by (simp split: if_split) blast
qed (simp_all)

text \<open>The lexer state that the three variables of \<^verbatim>\<open>CountPlaceholders\<close> stand for.\<close>

fun cp_state :: "char \<Rightarrow> bool \<Rightarrow> bool \<Rightarrow> lex_state" where
  "cp_state quote lineComment blockComment =
     (if lineComment then LineComment else if blockComment then BlockComment
      else if quote = SQ then SQuote else if quote = DQ then DQuote
      else if quote = BTICK then BQuote else Normal)"
definition cp_ok :: "char \<Rightarrow> bool \<Rightarrow> bool \<Rightarrow> bool" where
  "cp_ok quote lineComment blockComment \<longleftrightarrow> quote \<in> {NUL, SQ, DQ, BTICK} \<and>
     (lineComment \<longrightarrow> quote = NUL \<and> \<not> blockComment) \<and> (blockComment \<longrightarrow> quote = NUL)"

lemma cp_loop_ref:
  "cp_ok quote lineComment blockComment \<Longrightarrow>
   cp_loop count quote lineComment blockComment sql =
     count + count_list (code_chars (cp_state quote lineComment blockComment) sql) (CHR ''?'')"
proof (induction count quote lineComment blockComment sql rule: cp_loop.induct)
  case (1 count quote lineComment blockComment)
  then show ?case by simp
next
  case (2 count quote lineComment blockComment c cs)
  consider "lineComment" "\<not> blockComment" "quote = NUL"
    | "\<not> lineComment" "blockComment" "quote = NUL"
    | "\<not> lineComment" "\<not> blockComment" "quote = NUL"
    | "\<not> lineComment" "\<not> blockComment" "quote = SQ"
    | "\<not> lineComment" "\<not> blockComment" "quote = DQ"
    | "\<not> lineComment" "\<not> blockComment" "quote = BTICK"
    using "2.prems" by (auto simp: cp_ok_def)
  then show ?case
    by cases (use "2.IH" in \<open>simp_all add: cp_ok_def split: if_split\<close>)
qed

lemma CountPlaceholders_ref: "CountPlaceholders sql = count_list (code_chars Normal sql) (CHR ''?'')"
  by (simp add: CountPlaceholders_def cp_loop_ref cp_ok_def)

section \<open>Reading a text in pieces\<close>

text \<open>
  A piece may be cut off where its last character starts no two-character token; then lexing the
  whole is lexing the pieces.
\<close>

definition safe_end :: "string \<Rightarrow> bool" where
  "safe_end s \<longleftrightarrow> s = [] \<or> last s \<notin> {CHR ''-'', CHR ''/'', CHR ''*'', BSL}"

lemma lex_step_no_skip:
  "c \<notin> {CHR ''-'', CHR ''/'', CHR ''*'', BSL} \<Longrightarrow> lex_step st c n = lex_step st c m \<and> \<not> fst (snd (lex_step st c n))"
  by (cases st) auto

lemma safe_end_tail: "safe_end (c # cs) \<Longrightarrow> safe_end cs \<and> safe_end (drop 1 cs)"
  by (cases cs) (auto simp: safe_end_def)

lemma lex_append:
  "safe_end a \<Longrightarrow> code_chars st (a @ b) = code_chars st a @ code_chars (lex_end st a) b \<and>
                lex_end st (a @ b) = lex_end (lex_end st a) b"
proof (induction st a rule: code_chars.induct)
  case (1 st)
  then show ?case by simp
next
  case (2 st c cs)
  obtain st' skip code where s: "lex_step st c (peek cs) = (st', skip, code)"
    by (cases "lex_step st c (peek cs)")
  have t: "lex_step st c (peek (cs @ b)) = (st', skip, code) \<and> (cs = [] \<longrightarrow> \<not> skip)"
  proof (cases "cs = []")
    case True
    with 2 have "c \<notin> {CHR ''-'', CHR ''/'', CHR ''*'', BSL}" by (simp add: safe_end_def)
    from lex_step_no_skip [OF this, of st "peek b" NUL] lex_step_no_skip [OF this, of st NUL NUL] s True
    show ?thesis by simp
  next
    case False
    with s show ?thesis by (simp add: peek_append)
  qed
  then have d: "skip \<Longrightarrow> drop 1 (cs @ b) = drop 1 cs @ b"
    by (cases cs) auto
  have "safe_end (if skip then drop 1 cs else cs)"
    using safe_end_tail [OF "2.prems"] by simp
  from "2.IH" [OF s [symmetric] refl this] s t d show ?case
    by (cases skip) simp_all
qed

lemmas code_chars_append = lex_append [THEN conjunct1]
lemmas lex_end_append = lex_append [THEN conjunct2]

text \<open>
  A fragment: read from \<open>Normal\<close> it ends in \<open>Normal\<close>, can be cut off there, and holds no statement
  separator.  Fragments are closed under concatenation; this is what makes the SQL builders safe.
\<close>

definition fragment :: "string \<Rightarrow> bool" where
  "fragment s \<longleftrightarrow> safe_end s \<and> lex_end Normal s = Normal \<and> SEMI \<notin> set (code_chars Normal s)"

lemma safe_end_append: "safe_end a \<Longrightarrow> safe_end b \<Longrightarrow> safe_end (a @ b)"
  by (cases "b = []") (auto simp: safe_end_def last_append)

lemma fragment_Nil [simp, intro]: "fragment []"
  by (simp add: fragment_def safe_end_def)

lemma fragment_append [intro]: "fragment a \<Longrightarrow> fragment b \<Longrightarrow> fragment (a @ b)"
  by (auto simp: fragment_def safe_end_append code_chars_append lex_end_append)

lemma second_statement_no_semi: "SEMI \<notin> set cs \<Longrightarrow> \<not> second_statement False cs"
  by (induction cs) auto

lemma fragment_single: "fragment s \<Longrightarrow> \<not> isMultiStatement s"
  by (simp add: fragment_def isMultiStatement_def ims_loop_ref second_statement_no_semi)

text \<open>Characters that are code whatever follows them.\<close>

definition plain :: "char \<Rightarrow> bool" where
  "plain c \<longleftrightarrow> c \<notin> {SQ, DQ, BTICK, CHR ''-'', CHR ''#'', CHR ''/''}"

lemma lex_plain:
  "\<forall>c \<in> set s. plain c \<Longrightarrow> code_chars Normal s = s \<and> lex_end Normal s = Normal"
  by (induction s) (auto simp: plain_def)

lemma fragment_plain: "\<forall>c \<in> set s. plain c \<and> c \<notin> {SEMI, CHR ''*'', BSL} \<Longrightarrow> fragment s"
  using lex_plain [of s] by (cases s rule: rev_cases) (auto simp: fragment_def safe_end_def plain_def)

lemma fragment_plain_Cons [lex_simps]:
  "plain c \<Longrightarrow> c \<notin> {SEMI, CHR ''*'', BSL} \<Longrightarrow> fragment (c # s) = fragment s"
  by (cases "s = []") (auto simp: fragment_def safe_end_def plain_def)

lemma isspace_plain: "c_isspace c \<Longrightarrow> plain c"
  by (auto simp: c_isspace_def plain_def)

lemma digit_plain: "c_isdigit c \<Longrightarrow> plain c \<and> c \<notin> {SEMI, CHR ''*'', BSL, CHR ''-''}"
  by (auto simp: c_isdigit_def plain_def)

lemma fragment_show_nat: "fragment (show_nat n)"
  by (intro fragment_plain) (use show_nat_digits digit_plain in blast)

lemma fragment_show_int: "fragment (show_int i)"
proof (cases "i < 0")
  case True
  obtain c cs where c: "show_nat (nat (- i)) = c # cs"
    by (cases "show_nat (nat (- i))") auto
  with digit_plain [of c] show_nat_digits [of c "nat (- i)"] fragment_show_nat [of "nat (- i)"] True
  show ?thesis
    by (auto simp: show_int_def fragment_def safe_end_def)
next
  case False
  then show ?thesis by (simp add: show_int_def fragment_show_nat)
qed

section \<open>Quoted pieces\<close>

lemma double_ticks_lex:
  "code_chars BQuote (double_ticks s @ r) = code_chars BQuote r \<and>
   lex_end BQuote (double_ticks s @ r) = lex_end BQuote r"
  by (induction s) auto

lemma ident_lex [lex_simps]: "code_chars Normal (ident s) = []" "lex_end Normal (ident s) = Normal"
  using double_ticks_lex [of s "[BTICK]"] by (simp_all add: ident_def)

lemma fragment_ident [simp, intro]: "fragment (ident s)"
  using ident_lex [of s] by (simp add: fragment_def safe_end_def ident_def)

text \<open>\<open>ident\<close> loses nothing: the name can be read back.\<close>

fun undouble :: "string \<Rightarrow> string" where
  "undouble (c # d # cs) = (if c = BTICK \<and> d = BTICK then BTICK # undouble cs else c # undouble (d # cs))"
| "undouble cs = cs"

definition unident :: "string \<Rightarrow> string" where
  "unident q = undouble (butlast (tl q))"

lemma undouble_Cons: "c \<noteq> BTICK \<Longrightarrow> undouble (c # cs) = c # undouble cs"
  by (cases cs) auto

lemma undouble_double_ticks: "undouble (double_ticks s) = s"
  by (induction s) (auto simp: undouble_Cons)

lemma unident_ident: "unident (ident s) = s"
  by (simp add: unident_def ident_def undouble_double_ticks)

text \<open>
  What the documentation of \<^verbatim>\<open>mysql_real_escape_string\<close> promises: byte by byte, a byte is copied,
  unless it is a quote or a backslash, or it becomes a backslash and one more byte.
\<close>

definition escape_unit :: "char \<Rightarrow> string \<Rightarrow> bool" where
  "escape_unit c u \<longleftrightarrow> (u = [c] \<and> c \<notin> {SQ, DQ, BSL}) \<or> (\<exists>d. u = [BSL, d])"

definition escapes_bytes :: "(string \<Rightarrow> string) \<Rightarrow> bool" where
  "escapes_bytes esc \<longleftrightarrow> (\<forall>s. \<exists>us. esc s = concat us \<and> list_all2 escape_unit s us)"

lemma escape_units_lex:
  "list_all2 escape_unit s us \<Longrightarrow>
     code_chars SQuote (concat us @ r) = code_chars SQuote r \<and>
     lex_end SQuote (concat us @ r) = lex_end SQuote r"
  by (induction rule: list_all2_induct) (auto simp: escape_unit_def)

lemma escaped_lex:
  "escapes_bytes esc \<Longrightarrow> code_chars SQuote (esc s @ r) = code_chars SQuote r \<and>
     lex_end SQuote (esc s @ r) = lex_end SQuote r"
  unfolding escapes_bytes_def using escape_units_lex by metis

lemma fragment_quoted: "escapes_bytes esc \<Longrightarrow> fragment ([SQ] @ esc s @ [SQ])"
  using escaped_lex [of esc s "[SQ]"] by (simp add: fragment_def safe_end_def)

lemma ident_prefix: "code_chars Normal (ident s @ r) = code_chars Normal r"
  using fragment_ident [of s] by (simp add: fragment_def code_chars_append ident_lex)

text \<open>The rest of a line after two dashes is skipped, whatever it holds.\<close>

lemma line_comment_skip: "NL \<notin> set t \<Longrightarrow> code_chars LineComment t = []"
  by (induction t) auto

lemma second_statement_seen:
  "c \<in> set cs \<Longrightarrow> c \<noteq> SEMI \<Longrightarrow> \<not> c_isspace c \<Longrightarrow> second_statement True cs"
  by (induction cs) auto

lemma plain_second:
  "c \<noteq> SEMI \<Longrightarrow> \<not> c_isspace c \<Longrightarrow> second_statement saw (xs @ SEMI # ys @ c # zs)"
  by (induction xs arbitrary: saw) (simp_all add: second_statement_seen [of c])

lemma lex_plain_prefix: "\<forall>w \<in> set ws. plain w \<Longrightarrow> code_chars Normal (ws @ r) = ws @ code_chars Normal r"
  by (induction ws) (simp_all add: plain_def)

section \<open>Properties\<close>

text \<open>
  C7: \<^verbatim>\<open>isMultiStatement\<close> reports exactly the texts in which a separator that is SQL code (outside
  quotes and comments) is followed by SQL code that is neither white space nor another separator.
\<close>

theorem isMultiStatement_iff:
  "isMultiStatement sql \<longleftrightarrow>
     (\<exists>pre post c. code_chars Normal sql = pre @ SEMI # post \<and> c \<in> set post \<and> c \<noteq> SEMI \<and> \<not> c_isspace c)"
  by (auto simp: isMultiStatement_def ims_loop_ref second_statement_iff)

text \<open>
  C32: \<^verbatim>\<open>CountPlaceholders\<close> is the number of question marks among the code characters: it lexes SQL
  exactly as the injection guard does, so a question mark in a quote or a comment is no parameter.
\<close>

theorem CountPlaceholders_eq:
  "CountPlaceholders sql = count_list (code_chars Normal sql) (CHR ''?'')"
  by (rule CountPlaceholders_ref)

text \<open>
  Appending a statement to a complete text is caught: after a text that ends outside quotes and
  comments, a separator, any white space and a character that starts code, the guard reports a second
  statement, whatever follows.
\<close>

theorem isMultiStatement_stacked:
  assumes "safe_end a" and "lex_end Normal a = Normal"
    and "\<forall>w \<in> set ws. c_isspace w" and "plain c" and "c \<noteq> SEMI" and "\<not> c_isspace c"
  shows "isMultiStatement (a @ [SEMI] @ ws @ c # rest)"
proof -
  have "\<forall>w \<in> set ws. plain w"
    using assms(3) isspace_plain by blast
  then have "\<forall>w \<in> set ([SEMI] @ ws @ [c]). plain w"
    using assms(4) by (simp add: plain_def)
  from lex_plain_prefix [OF this, of rest]
  have "code_chars Normal ([SEMI] @ ws @ c # rest) = SEMI # ws @ c # code_chars Normal rest"
    by simp
  then show ?thesis
    using assms plain_second [of c False "code_chars Normal a" ws "code_chars Normal rest"]
    by (simp only: isMultiStatement_def ims_loop_ref code_chars_append simp_thms)
qed

theorem isMultiStatement_stacked_witness:
  "isMultiStatement (''SELECT 1'' @ [SEMI] @ '' '' @ CHR ''D'' # ''ROP TABLE users'')"
proof (rule isMultiStatement_stacked)
  show "safe_end ''SELECT 1''" by (simp add: safe_end_def)
  show "lex_end Normal ''SELECT 1'' = Normal" by simp
  show "\<forall>w \<in> set '' ''. c_isspace w" by (simp add: c_isspace_def)
  show "plain (CHR ''D'')" by (simp add: plain_def)
  show "CHR ''D'' \<noteq> SEMI" by simp
  show "\<not> c_isspace (CHR ''D'')" by (simp add: c_isspace_def)
qed

text \<open>
  Two dashes hide the rest of the line from the guard, whatever follows the dashes: after a complete
  text, \<^verbatim>\<open>--\<close> and any text without a line break change nothing, even where that text holds a separator and a
  second statement.
\<close>

theorem isMultiStatement_dashes:
  assumes "safe_end a" and "lex_end Normal a = Normal" and "NL \<notin> set t"
  shows "isMultiStatement (a @ ''--'' @ t) = isMultiStatement a"
  using assms by (simp add: isMultiStatement_def ims_loop_ref code_chars_append line_comment_skip)

theorem isMultiStatement_dashes_witness:
  "\<not> isMultiStatement ''SELECT 5--1; DROP TABLE users''"
  using isMultiStatement_dashes [of "''SELECT 5''" "''1; DROP TABLE users''"]
  by (simp add: safe_end_def isMultiStatement_def c_isspace_def)

text \<open>
  C31: a backtick-quoted identifier is inert and loses nothing: for any name, the quoted form holds no SQL
  code, the text after it is read as if it were not there, and the name can be read back.
\<close>

theorem ident_inert_roundtrip:
  "code_chars Normal (ident s) = [] \<and> code_chars Normal (ident s @ r) = code_chars Normal r \<and>
   unident (ident s) = s"
  by (simp add: ident_lex ident_prefix unident_ident)

end
