(* ===== verification/Connection.thy ===== *)
theory Connection
  imports Result SqlLexer
begin

text \<open>
  \<^verbatim>\<open>src/Connection.hpp\<close> and \<^verbatim>\<open>src/Connection.cpp\<close>: the options of a connection, the TLS policy that
  \<^verbatim>\<open>Connection::open\<close> hands to the client library, and the buffered query loop.  The client library
  itself is not part of the program: it is the argument \<open>api\<close>, a record of functions over the state
  \<open>'m\<close> behind a \<^verbatim>\<open>MYSQL*\<close>.
\<close>

section \<open>The client library's interface\<close>

datatype SSLMode = Required | VerifyCA | VerifyIdentity

datatype mysql_option =
    MYSQL_OPT_CONNECT_TIMEOUT "32 word"
  | MYSQL_OPT_READ_TIMEOUT "32 word"
  | MYSQL_OPT_WRITE_TIMEOUT "32 word"
  | MYSQL_SET_CHARSET_NAME string
  | MYSQL_OPT_TLS_VERSION string
  | MYSQL_OPT_SSL_KEY string
  | MYSQL_OPT_SSL_CERT string
  | MYSQL_OPT_SSL_CA string
  | MYSQL_OPT_SSL_CAPATH string
  | MYSQL_OPT_SSL_CIPHER string
  | MYSQL_OPT_SSL_CRL string
  | MYSQL_OPT_SSL_CRLPATH string
  | MYSQL_OPT_SSL_MODE SSLMode
  | MYSQL_OPT_SSL_ENFORCE bool
  | MYSQL_OPT_SSL_VERIFY_SERVER_CERT bool
  | MYSQL_OPT_COMPRESSION_ALGORITHMS string
  | MYSQL_OPT_ZSTD_COMPRESSION_LEVEL "32 word"

text \<open>The arguments of \<^verbatim>\<open>mysql_real_connect\<close>; a null database pointer is \<open>None\<close>.\<close>

record connect_args =
  ca_host :: string
  ca_user :: string
  ca_password :: string
  ca_database :: "string option"
  ca_port :: "32 word"
  ca_multi_statements :: bool

text \<open>
  A stored result: the columns, and the rows in the order \<^verbatim>\<open>mysql_fetch_row\<close> yields them.  A cell is a null
  pointer or the bytes it points at; the lengths are what \<^verbatim>\<open>mysql_fetch_lengths\<close> answers for the row.
\<close>

record mysql_row =
  row_cells :: "string option list"
  row_lengths :: "nat list option"

record mysql_res =
  res_fields :: "(string option \<times> int) list"
  res_rows :: "mysql_row list"

record 'm client =
  cl_init :: "'m option"
  cl_option :: "'m \<Rightarrow> mysql_option \<Rightarrow> 'm"
  cl_connect :: "'m \<Rightarrow> connect_args \<Rightarrow> bool \<times> 'm"
  cl_real_query :: "'m \<Rightarrow> string \<Rightarrow> int \<times> 'm"
  cl_store_result :: "'m \<Rightarrow> mysql_res option \<times> 'm"
  cl_next_result :: "'m \<Rightarrow> int \<times> 'm"
  cl_affected_rows :: "'m \<Rightarrow> 64 word"
  cl_insert_id :: "'m \<Rightarrow> 64 word"
  cl_warning_count :: "'m \<Rightarrow> 32 word"
  cl_errno :: "'m \<Rightarrow> 32 word"
  cl_error :: "'m \<Rightarrow> string option"
  cl_escape :: "'m \<Rightarrow> string \<Rightarrow> string"
  cl_set_charset :: "'m \<Rightarrow> string \<Rightarrow> int \<times> 'm"
  cl_charset_name :: "'m \<Rightarrow> string option"
  cl_stat :: "'m \<Rightarrow> string option \<times> 'm"
  cl_ssl_cipher :: "'m \<Rightarrow> string option"

section \<open>Options and the connection object\<close>

record ConnectionOptions =
  co_host :: string
  co_user :: string
  co_password :: string
  co_database :: string
  co_port :: "32 word"
  co_connectTimeout :: "32 word"
  co_readTimeout :: "32 word"
  co_writeTimeout :: "32 word"
  co_autoReconnect :: bool
  co_multiStatements :: bool
  co_sslMode :: SSLMode
  co_sslCA :: string
  co_sslCAPath :: string
  co_sslCert :: string
  co_sslKey :: string
  co_sslCRL :: string
  co_sslCRLPath :: string
  co_sslCipher :: string
  co_tlsVersion :: string
  co_compression :: string
  co_zstdLevel :: int

definition default_options :: ConnectionOptions where
  "default_options = \<lparr>co_host = ''127.0.0.1'', co_user = [], co_password = [], co_database = [], co_port = 3306,
     co_connectTimeout = 0, co_readTimeout = 0, co_writeTimeout = 0,
     co_autoReconnect = False, co_multiStatements = False,
     co_sslMode = VerifyCA, co_sslCA = [], co_sslCAPath = [], co_sslCert = [], co_sslKey = [], co_sslCRL = [],
     co_sslCRLPath = [], co_sslCipher = [], co_tlsVersion = ''TLSv1.3,TLSv1.2'',
     co_compression = [], co_zstdLevel = 3\<rparr>"

record 'm Connection =
  cn_mysql :: "'m option"
  cn_connected :: bool

definition new_Connection :: "'m Connection" where
  "new_Connection = \<lparr>cn_mysql = None, cn_connected = False\<rparr>"

definition isOpen :: "'m Connection \<Rightarrow> bool" where
  "isOpen c \<longleftrightarrow> cn_mysql c \<noteq> None \<and> cn_connected c"

text \<open>\<^verbatim>\<open>Connection::close\<close>: the handle goes back to the library, the object forgets it.\<close>

definition close_conn :: "'m Connection \<Rightarrow> 'm Connection" where
  "close_conn c = c\<lparr>cn_mysql := None, cn_connected := False\<rparr>"

definition effectiveSSLMode :: "ConnectionOptions \<Rightarrow> SSLMode" where
  "effectiveSSLMode opt =
     (if co_sslCA opt \<noteq> [] \<or> co_sslCAPath opt \<noteq> []
      then (if co_sslMode opt = VerifyIdentity then VerifyIdentity else VerifyCA)
      else co_sslMode opt)"

section \<open>Opening\<close>

text \<open>Which of the library's options are preprocessor macros: what the \<^verbatim>\<open>#if defined(...)\<close> lines test.\<close>

record build =
  has_SSL_CRL :: bool
  has_SSL_MODE :: bool
  has_COMPRESSION :: bool

definition set_if :: "bool \<Rightarrow> 'a \<Rightarrow> 'a list" where
  "set_if b x = (if b then [x] else [])"

text \<open>The \<^verbatim>\<open>mysql_options\<close> calls of \<^verbatim>\<open>Connection::open\<close>, in order.\<close>

definition tls_policy_calls :: "build \<Rightarrow> ConnectionOptions \<Rightarrow> mysql_option list" where
  "tls_policy_calls b opt = (let mode = effectiveSSLMode opt in
     if has_SSL_MODE b then [MYSQL_OPT_SSL_MODE mode]
     else [MYSQL_OPT_SSL_ENFORCE True,
           MYSQL_OPT_SSL_VERIFY_SERVER_CERT (mode = VerifyCA \<or> mode = VerifyIdentity)])"

definition open_option_calls :: "build \<Rightarrow> ConnectionOptions \<Rightarrow> mysql_option list" where
  "open_option_calls b opt =
     set_if (0 < co_connectTimeout opt) (MYSQL_OPT_CONNECT_TIMEOUT (co_connectTimeout opt)) @
     set_if (0 < co_readTimeout opt) (MYSQL_OPT_READ_TIMEOUT (co_readTimeout opt)) @
     set_if (0 < co_writeTimeout opt) (MYSQL_OPT_WRITE_TIMEOUT (co_writeTimeout opt)) @
     [MYSQL_SET_CHARSET_NAME ''utf8mb4''] @
     set_if (co_tlsVersion opt \<noteq> []) (MYSQL_OPT_TLS_VERSION (c_str (co_tlsVersion opt))) @
     set_if (co_sslKey opt \<noteq> []) (MYSQL_OPT_SSL_KEY (c_str (co_sslKey opt))) @
     set_if (co_sslCert opt \<noteq> []) (MYSQL_OPT_SSL_CERT (c_str (co_sslCert opt))) @
     set_if (co_sslCA opt \<noteq> []) (MYSQL_OPT_SSL_CA (c_str (co_sslCA opt))) @
     set_if (co_sslCAPath opt \<noteq> []) (MYSQL_OPT_SSL_CAPATH (c_str (co_sslCAPath opt))) @
     set_if (co_sslCipher opt \<noteq> []) (MYSQL_OPT_SSL_CIPHER (c_str (co_sslCipher opt))) @
     set_if (has_SSL_CRL b \<and> co_sslCRL opt \<noteq> []) (MYSQL_OPT_SSL_CRL (c_str (co_sslCRL opt))) @
     set_if (has_SSL_CRL b \<and> co_sslCRLPath opt \<noteq> []) (MYSQL_OPT_SSL_CRLPATH (c_str (co_sslCRLPath opt))) @
     tls_policy_calls b opt @
     set_if (co_compression opt \<noteq> [] \<and> has_COMPRESSION b)
       (MYSQL_OPT_COMPRESSION_ALGORITHMS (c_str (co_compression opt))) @
     set_if (co_compression opt \<noteq> [] \<and> has_COMPRESSION b \<and> 0 < co_zstdLevel opt)
       (MYSQL_OPT_ZSTD_COMPRESSION_LEVEL (word_of_int (co_zstdLevel opt)))"

definition connect_args_of :: "ConnectionOptions \<Rightarrow> connect_args" where
  "connect_args_of opt = \<lparr>ca_host = c_str (co_host opt), ca_user = c_str (co_user opt),
     ca_password = c_str (co_password opt),
     ca_database = (if co_database opt = [] then None else Some (c_str (co_database opt))),
     ca_port = co_port opt, ca_multi_statements = co_multiStatements opt\<rparr>"

definition open_conn :: "'m client \<Rightarrow> build \<Rightarrow> ConnectionOptions \<Rightarrow> 'm Connection \<Rightarrow> bool \<times> 'm Connection" where
  "open_conn api b opt c0 = (let c = close_conn c0 in case cl_init api of
       None \<Rightarrow> (False, c)
     | Some m \<Rightarrow>
         let m' = foldl (cl_option api) m (open_option_calls b opt);
             (ok, m'') = cl_connect api m' (connect_args_of opt)
         in (ok, c\<lparr>cn_mysql := Some m'', cn_connected := ok\<rparr>))"

section \<open>Queries\<close>

text \<open>One buffered result set, from the stored result and the connection's counters.\<close>

definition buffer_field :: "string option \<times> int \<Rightarrow> ResultField" where
  "buffer_field f = \<lparr>rf_name = (case fst f of Some n \<Rightarrow> c_str n | None \<Rightarrow> []), rf_type = snd f\<rparr>"

definition buffer_cell :: "mysql_row \<Rightarrow> nat \<Rightarrow> ResultValue" where
  "buffer_cell row c = (case row_cells row ! c of
       None \<Rightarrow> \<lparr>rv_value = [], rv_isNull = True\<rparr>
     | Some bytes \<Rightarrow>
         \<lparr>rv_value = take (case row_lengths row of Some ls \<Rightarrow> ls ! c | None \<Rightarrow> 0) bytes, rv_isNull = False\<rparr>)"

definition buffer_set :: "'m client \<Rightarrow> 'm \<Rightarrow> mysql_res option \<Rightarrow> ResultSet" where
  "buffer_set api m res = (case res of
       None \<Rightarrow> \<lparr>rs_fields = [], rs_rows = [], rs_affectedRows = cl_affected_rows api m,
                rs_insertId = cl_insert_id api m, rs_warningCount = cl_warning_count api m\<rparr>
     | Some r \<Rightarrow> \<lparr>rs_fields = map buffer_field (res_fields r),
                rs_rows = map (\<lambda>row. map (buffer_cell row) [0..<length (res_fields r)]) (res_rows r),
                rs_affectedRows = cl_affected_rows api m, rs_insertId = cl_insert_id api m,
                rs_warningCount = cl_warning_count api m\<rparr>)"

text \<open>The body of the \<^verbatim>\<open>do ... while (status == 0)\<close> loop, and the loop, which the server may keep going.\<close>

definition qb_body :: "'m client \<Rightarrow> 'm \<Rightarrow> ResultSet \<times> int \<times> 'm" where
  "qb_body api m = (let (res, m1) = cl_store_result api m; s = buffer_set api m1 res;
                        (status, m2) = cl_next_result api m1
                    in (s, status, m2))"

partial_function (option) qb_loop ::
    "'m client \<Rightarrow> 'm \<Rightarrow> ResultSet list \<Rightarrow> (ResultSet list \<times> int \<times> 'm) option" where
  "qb_loop api m sets = (case qb_body api m of (s, status, m') \<Rightarrow>
     if status = 0 then qb_loop api m' (sets @ [s]) else Some (sets @ [s], status, m'))"

text \<open>\<^verbatim>\<open>queryBuffered\<close>: \<open>None\<close> where the server never stops sending results.\<close>

definition queryBuffered ::
    "'m client \<Rightarrow> string \<Rightarrow> QueryResult \<Rightarrow> 'm Connection \<Rightarrow> (bool \<times> QueryResult \<times> 'm Connection) option" where
  "queryBuffered api sql out c = (let out = out\<lparr>qr_sets := [], qr_queryString := sql\<rparr> in
     if \<not> isOpen c then Some (False, out, c)
     else let (rc, m) = cl_real_query api (the (cn_mysql c)) sql in
       if rc \<noteq> 0 then Some (False, out, c\<lparr>cn_mysql := Some m\<rparr>)
       else map_option (\<lambda>(sets, status, m').
              (status \<le> 0, out\<lparr>qr_sets := sets\<rparr>, c\<lparr>cn_mysql := Some m'\<rparr>)) (qb_loop api m []))"

text \<open>\<^verbatim>\<open>query\<close>: the same walk with the rows thrown away and the last status ignored.\<close>

partial_function (option) query_loop :: "'m client \<Rightarrow> 'm \<Rightarrow> 'm option" where
  "query_loop api m = (case cl_store_result api m of (res, m1) \<Rightarrow>
     case cl_next_result api m1 of (status, m2) \<Rightarrow> if status = 0 then query_loop api m2 else Some m2)"

definition conn_query :: "'m client \<Rightarrow> string \<Rightarrow> 'm Connection \<Rightarrow> (bool \<times> 'm Connection) option" where
  "conn_query api sql c =
     (if \<not> isOpen c then Some (False, c)
      else let (rc, m) = cl_real_query api (the (cn_mysql c)) sql in
        if rc \<noteq> 0 then Some (False, c\<lparr>cn_mysql := Some m\<rparr>)
        else map_option (\<lambda>m'. (True, c\<lparr>cn_mysql := Some m'\<rparr>)) (query_loop api m))"

section \<open>Status, escaping, character set, cipher\<close>

definition conn_lastErrno :: "'m client \<Rightarrow> 'm Connection \<Rightarrow> 32 word" where
  "conn_lastErrno api c = (case cn_mysql c of Some m \<Rightarrow> cl_errno api m | None \<Rightarrow> 0)"

definition conn_lastError :: "'m client \<Rightarrow> 'm Connection \<Rightarrow> string" where
  "conn_lastError api c = (case cn_mysql c of None \<Rightarrow> ''no connection handle''
     | Some m \<Rightarrow> (case cl_error api m of Some e \<Rightarrow> c_str e | None \<Rightarrow> []))"

definition conn_escape :: "'m client \<Rightarrow> 'm Connection \<Rightarrow> string \<Rightarrow> string" where
  "conn_escape api c s = (case cn_mysql c of None \<Rightarrow> s | Some m \<Rightarrow> cl_escape api m s)"

definition setCharset :: "'m client \<Rightarrow> string \<Rightarrow> 'm Connection \<Rightarrow> bool \<times> 'm Connection" where
  "setCharset api charset c = (case cn_mysql c of None \<Rightarrow> (False, c)
     | Some m \<Rightarrow> (case cl_set_charset api m (c_str charset) of (rc, m') \<Rightarrow> (rc = 0, c\<lparr>cn_mysql := Some m'\<rparr>)))"

definition getCharset :: "'m client \<Rightarrow> 'm Connection \<Rightarrow> string" where
  "getCharset api c = (case cn_mysql c of None \<Rightarrow> []
     | Some m \<Rightarrow> (case cl_charset_name api m of Some n \<Rightarrow> c_str n | None \<Rightarrow> []))"

definition conn_stat :: "'m client \<Rightarrow> 'm Connection \<Rightarrow> string \<times> 'm Connection" where
  "conn_stat api c = (case cn_mysql c of None \<Rightarrow> ([], c)
     | Some m \<Rightarrow> (case cl_stat api m of (s, m') \<Rightarrow>
         ((case s of Some t \<Rightarrow> c_str t | None \<Rightarrow> []), c\<lparr>cn_mysql := Some m'\<rparr>)))"

text \<open>The fallback query of \<^verbatim>\<open>sslCipher\<close>: the literal, and the length the call passes.\<close>

definition cipher_query :: string where
  "cipher_query = ''SHOW SESSION STATUS LIKE '' @ [SQ] @ ''Ssl_cipher'' @ [SQ]"

definition cipher_query_sent :: string where
  "cipher_query_sent = take 36 cipher_query"

definition sslCipher :: "'m client \<Rightarrow> 'm Connection \<Rightarrow> string \<times> 'm Connection" where
  "sslCipher api c = (case cn_mysql c of None \<Rightarrow> ([], c) | Some m \<Rightarrow>
     let fast = (case cl_ssl_cipher api m of Some s \<Rightarrow> c_str s | None \<Rightarrow> []) in
     if fast \<noteq> [] then (fast, c)
     else let (rc, m1) = cl_real_query api m cipher_query_sent in
       if rc \<noteq> 0 then ([], c\<lparr>cn_mysql := Some m1\<rparr>)
       else let (res, m2) = cl_store_result api m1;
                cipher = (case res of None \<Rightarrow> [] | Some r \<Rightarrow> (case res_rows r of [] \<Rightarrow> []
                  | row # _ \<Rightarrow> (case row_cells row ! 1 of None \<Rightarrow> [] | Some v \<Rightarrow> c_str v)))
            in (cipher, c\<lparr>cn_mysql := Some m2\<rparr>))"

definition sslEnabled :: "'m client \<Rightarrow> 'm Connection \<Rightarrow> bool \<times> 'm Connection" where
  "sslEnabled api c = (if isOpen c then (case sslCipher api c of (s, c') \<Rightarrow> (s \<noteq> [], c')) else (False, c))"

section \<open>Lemmas\<close>

subsection \<open>TLS policy\<close>

definition is_tls_policy :: "mysql_option \<Rightarrow> bool" where
  "is_tls_policy call = (case call of MYSQL_OPT_SSL_MODE m \<Rightarrow> True | MYSQL_OPT_SSL_ENFORCE e \<Rightarrow> True
     | MYSQL_OPT_SSL_VERIFY_SERVER_CERT v \<Rightarrow> True | _ \<Rightarrow> False)"

lemma is_tls_policy_simps [simp]:
  "is_tls_policy (MYSQL_OPT_SSL_MODE m)" "is_tls_policy (MYSQL_OPT_SSL_ENFORCE e)"
  "is_tls_policy (MYSQL_OPT_SSL_VERIFY_SERVER_CERT v)"
  "\<not> is_tls_policy (MYSQL_OPT_CONNECT_TIMEOUT t)"
  "\<not> is_tls_policy (MYSQL_OPT_READ_TIMEOUT t)"
  "\<not> is_tls_policy (MYSQL_OPT_WRITE_TIMEOUT t)"
  "\<not> is_tls_policy (MYSQL_OPT_TLS_VERSION s)"
  "\<not> is_tls_policy (MYSQL_OPT_SSL_KEY s)"
  "\<not> is_tls_policy (MYSQL_OPT_SSL_CERT s)"
  "\<not> is_tls_policy (MYSQL_OPT_SSL_CA s)"
  "\<not> is_tls_policy (MYSQL_OPT_SSL_CAPATH s)"
  "\<not> is_tls_policy (MYSQL_OPT_SSL_CIPHER s)"
  "\<not> is_tls_policy (MYSQL_OPT_SSL_CRL s)"
  "\<not> is_tls_policy (MYSQL_OPT_SSL_CRLPATH s)"
  "\<not> is_tls_policy (MYSQL_OPT_COMPRESSION_ALGORITHMS s)"
  "\<not> is_tls_policy (MYSQL_OPT_ZSTD_COMPRESSION_LEVEL t)"
  "\<not> is_tls_policy (MYSQL_SET_CHARSET_NAME s)"
  by (simp_all add: is_tls_policy_def)

fun mode_level :: "SSLMode \<Rightarrow> nat" where
  "mode_level Required = 0"
| "mode_level VerifyCA = 1"
| "mode_level VerifyIdentity = 2"

lemma filter_set_if: "filter P (set_if b x) = (if P x then set_if b x else [])"
  by (cases b; cases "P x") (simp_all add: set_if_def)

lemma policy_calls_all: "filter is_tls_policy (tls_policy_calls b opt) = tls_policy_calls b opt"
  by (simp add: tls_policy_calls_def Let_def)

lemma policy_calls_only: "filter is_tls_policy (open_option_calls b opt) = tls_policy_calls b opt"
  by (simp add: open_option_calls_def filter_set_if policy_calls_all)

subsection \<open>The query loop\<close>

text \<open>The connection's state after \<open>k\<close> rounds of the loop, and what round \<open>k\<close> yields.\<close>

fun qb_state :: "'m client \<Rightarrow> nat \<Rightarrow> 'm \<Rightarrow> 'm" where
  "qb_state api 0 m = m"
| "qb_state api (Suc k) m = qb_state api k (snd (snd (qb_body api m)))"

definition qb_status :: "'m client \<Rightarrow> 'm \<Rightarrow> nat \<Rightarrow> int" where
  "qb_status api m k = fst (snd (qb_body api (qb_state api k m)))"

definition qb_set :: "'m client \<Rightarrow> 'm \<Rightarrow> nat \<Rightarrow> ResultSet" where
  "qb_set api m k = fst (qb_body api (qb_state api k m))"

lemma qb_shift:
  "qb_status api m (Suc k) = qb_status api (snd (snd (qb_body api m))) k"
  "qb_set api m (Suc k) = qb_set api (snd (snd (qb_body api m))) k"
  by (simp_all add: qb_status_def qb_set_def)

lemma qb_loop_returns:
  "(\<forall>i < k. qb_status api m i = 0) \<Longrightarrow> qb_status api m k \<noteq> 0 \<Longrightarrow>
   qb_loop api m sets =
     Some (sets @ map (qb_set api m) [0..<Suc k], qb_status api m k, qb_state api (Suc k) m)"
proof (induction k arbitrary: m sets)
  case 0
  then show ?case
    by (subst qb_loop.simps) (auto simp: qb_status_def qb_set_def split: prod.split)
next
  case (Suc k)
  obtain s status m' where b: "qb_body api m = (s, status, m')"
    by (cases "qb_body api m")
  from Suc.prems(1) b have z: "status = 0"
    by (auto simp: qb_status_def dest: spec [of _ 0])
  have IH: "qb_loop api m' (sets @ [s]) =
      Some ((sets @ [s]) @ map (qb_set api m') [0..<Suc k], qb_status api m' k, qb_state api (Suc k) m')"
    using Suc.prems b by (intro Suc.IH) (auto simp: qb_shift)
  have shift: "map (qb_set api m) [0..<Suc (Suc k)] = s # map (qb_set api m') [0..<Suc k]"
    unfolding upt_conv_Cons [OF zero_less_Suc] map_Suc_upt [symmetric]
    using b by (simp add: qb_set_def [of api m 0] qb_shift comp_def del: upt_Suc)
  show ?case
    using b z IH shift by (subst qb_loop.simps) (simp add: qb_shift del: upt_Suc)
qed

lemma buffer_set_rectangular: "rectangular (buffer_set api m res)"
  by (auto simp: buffer_set_def rectangular_def split: option.split)

lemma qb_loop_rectangular:
  assumes ret: "qb_loop api m sets = Some (sets', status, m')" and start: "list_all rectangular sets"
  shows "list_all rectangular sets'"
proof -
  have "list_all rectangular sets \<longrightarrow> list_all rectangular (fst r)" if "qb_loop api m sets = Some r" for r
    using that
  proof (rule qb_loop.raw_induct
      [where P = "\<lambda>api m sets r. list_all rectangular sets \<longrightarrow> list_all rectangular (fst r)", rotated])
    fix f :: "'a client \<Rightarrow> 'a \<Rightarrow> ResultSet list \<Rightarrow> (ResultSet list \<times> int \<times> 'a) option"
    fix api m sets r
    assume IH: "\<And>api m sets r. f api m sets = Some r \<Longrightarrow> list_all rectangular sets \<longrightarrow> list_all rectangular (fst r)"
      and eq: "(case qb_body api m of (s, status, m') \<Rightarrow>
         if status = 0 then f api m' (sets @ [s]) else Some (sets @ [s], status, m')) = Some r"
    obtain s status m' where b: "qb_body api m = (s, status, m')"
      by (cases "qb_body api m")
    then have "rectangular s"
      by (auto simp: qb_body_def Let_def buffer_set_rectangular split: prod.splits)
    with eq b IH [of api m' "sets @ [s]" r] show "list_all rectangular sets \<longrightarrow> list_all rectangular (fst r)"
      by (auto split: if_splits)
  qed
  from this [OF ret] start show ?thesis by simp
qed

lemma queryBuffered_cases:
  assumes "queryBuffered api sql out c = Some (ok, out', c')"
  shows "(\<not> ok \<and> qr_sets out' = []) \<or>
    (\<exists>m sets status m'. qb_loop api m [] = Some (sets, status, m') \<and> ok = (status \<le> 0) \<and> qr_sets out' = sets)"
  using assms by (auto simp: queryBuffered_def Let_def split: if_splits prod.splits) blast+

lemma queryBuffered_shape:
  "queryBuffered api sql out c = Some (ok, out', c') \<Longrightarrow> rectangular_result out'"
  using queryBuffered_cases [of api sql out c ok out' c'] qb_loop_rectangular [of api _ "[]"]
  by (fastforce simp: rectangular_result_def list_all_iff)

lemma queryBuffered_text:
  "queryBuffered api sql out c = Some (ok, out', c') \<Longrightarrow> qr_queryString out' = sql"
  by (auto simp: queryBuffered_def Let_def split: if_splits prod.splits)

section \<open>Properties\<close>


text \<open>
  The effective mode is never weaker than the requested one, and naming a CA file or directory always
  raises it to certificate verification.
\<close>

theorem effectiveSSLMode_floor:
  "mode_level (co_sslMode opt) \<le> mode_level (effectiveSSLMode opt) \<and>
   (if co_sslCA opt = [] \<and> co_sslCAPath opt = [] then effectiveSSLMode opt = co_sslMode opt
    else 1 \<le> mode_level (effectiveSSLMode opt))"
  by (cases "co_sslMode opt") (auto simp: effectiveSSLMode_def)

text \<open>
  The auto-reconnect option has no effect: whatever it is set to, \<^verbatim>\<open>open\<close> makes the same calls and gives the
  same connection.
\<close>

theorem open_ignores_autoReconnect:
  "open_conn api b (opt\<lparr>co_autoReconnect := r\<rparr>) c = open_conn api b opt c"
proof -
  have e: "effectiveSSLMode (opt\<lparr>co_autoReconnect := r\<rparr>) = effectiveSSLMode opt"
    by (simp add: effectiveSSLMode_def)
  have calls: "open_option_calls b (opt\<lparr>co_autoReconnect := r\<rparr>) = open_option_calls b opt"
    by (simp add: open_option_calls_def tls_policy_calls_def e)
  have args: "connect_args_of (opt\<lparr>co_autoReconnect := r\<rparr>) = connect_args_of opt"
    by (simp add: connect_args_of_def)
  show ?thesis
    by (simp only: open_conn_def calls args)
qed

text \<open>
  C29: the query loop returns, with every result set: where the server answers more results for \<open>k\<close> rounds and then
  stops, \<^verbatim>\<open>queryBuffered\<close> returns the \<open>k + 1\<close> result sets in order, and reports success exactly when the
  last status says a clean end (a positive status is an error in a later statement).
\<close>

theorem queryBuffered_returns:
  assumes "isOpen c" and "cn_mysql c = Some m0" and "cl_real_query api m0 sql = (0, m)"
    and "\<forall>i < k. qb_status api m i = 0" and "qb_status api m k \<noteq> 0"
  shows "queryBuffered api sql out c =
    Some (qb_status api m k \<le> 0,
          out\<lparr>qr_sets := map (qb_set api m) [0..<Suc k], qr_queryString := sql\<rparr>,
          c\<lparr>cn_mysql := Some (qb_state api (Suc k) m)\<rparr>)"
  using assms qb_loop_returns [of k api m "[]"] by (simp add: queryBuffered_def Let_def)

text \<open>A client whose state counts the results still to come, for the witnesses.\<close>

definition countdown_client :: "nat client" where
  "countdown_client = \<lparr>cl_init = Some 0, cl_option = (\<lambda>m call. m), cl_connect = (\<lambda>m a. (True, m)),
     cl_real_query = (\<lambda>m q. (if lex_end Normal q = Normal then 0 else 1, m)),
     cl_store_result = (\<lambda>m. (None, m)),
     cl_next_result = (\<lambda>m. if m = 0 then (- 1, 0) else (0, m - 1)),
     cl_affected_rows = (\<lambda>m. of_nat m), cl_insert_id = (\<lambda>m. 0), cl_warning_count = (\<lambda>m. 0),
     cl_errno = (\<lambda>m. 0), cl_error = (\<lambda>m. None),
     cl_escape = (\<lambda>m s. concat (map (\<lambda>c. if c \<in> {SQ, DQ, BSL} then [BSL, c] else [c]) s)),
     cl_set_charset = (\<lambda>m s. (0, m)), cl_charset_name = (\<lambda>m. None), cl_stat = (\<lambda>m. (None, m)),
     cl_ssl_cipher = (\<lambda>m. None)\<rparr>"

theorem queryBuffered_returns_witness:
  "map_option (\<lambda>(ok, out, c). (ok, map rs_affectedRows (qr_sets out)))
     (queryBuffered countdown_client ''SELECT 1; SELECT 2''
        \<lparr>qr_sets = [], qr_execTimeMicros = 0, qr_queryString = []\<rparr> \<lparr>cn_mysql = Some 1, cn_connected = True\<rparr>)
   = Some (True, [1, 0])"
proof -
  let ?c = "\<lparr>cn_mysql = Some 1, cn_connected = True\<rparr>"
  have st: "qb_status countdown_client 1 0 = 0" "qb_status countdown_client 1 1 = - 1"
    by (simp_all add: qb_status_def qb_body_def countdown_client_def)
  have "queryBuffered countdown_client ''SELECT 1; SELECT 2''
        \<lparr>qr_sets = [], qr_execTimeMicros = 0, qr_queryString = []\<rparr> ?c =
    Some (qb_status countdown_client 1 1 \<le> 0,
          \<lparr>qr_sets = [], qr_execTimeMicros = 0, qr_queryString = []\<rparr>
             \<lparr>qr_sets := map (qb_set countdown_client 1) [0..<Suc 1], qr_queryString := ''SELECT 1; SELECT 2''\<rparr>,
          ?c\<lparr>cn_mysql := Some (qb_state countdown_client (Suc 1) 1)\<rparr>)"
  proof (rule queryBuffered_returns)
    show "isOpen ?c" by (simp add: isOpen_def)
    show "cn_mysql ?c = Some 1" by simp
    show "cl_real_query countdown_client 1 ''SELECT 1; SELECT 2'' = (0, 1)" by (simp add: countdown_client_def)
  qed (use st in simp_all)
  then show ?thesis
    using st by (simp add: qb_set_def qb_body_def countdown_client_def buffer_set_def)
qed

text \<open>
  Every result set \<^verbatim>\<open>queryBuffered\<close> hands back is rectangular, on success and on failure, whatever the server sends:
  each row has one value for each column.
\<close>

theorem queryBuffered_rectangular:
  assumes "queryBuffered api sql out c = Some (ok, out', c')"
  shows "rectangular_result out'"
  using assms by (rule queryBuffered_shape)

theorem queryBuffered_rectangular_witness:
  "rectangular_result \<lparr>qr_sets = [], qr_execTimeMicros = 0, qr_queryString = ''SELECT 1''\<rparr>"
  by (rule queryBuffered_rectangular [of countdown_client "''SELECT 1''"
        "\<lparr>qr_sets = [], qr_execTimeMicros = 0, qr_queryString = []\<rparr>" new_Connection False _ new_Connection])
    (simp add: queryBuffered_def new_Connection_def isOpen_def)

text \<open>
  The fallback of \<^verbatim>\<open>sslCipher\<close> sends a query cut one byte short: what is sent ends inside a quoted string.  So
  against a server that rejects a query with an unclosed quote, a connection whose client-side cipher is empty
  always reports no cipher, encrypted or not.
\<close>

theorem sslCipher_fallback_unclosed:
  assumes "cn_mysql c = Some m" and "cl_ssl_cipher api m = None"
    and "\<And>m q. lex_end Normal q \<noteq> Normal \<Longrightarrow> fst (cl_real_query api m q) \<noteq> 0"
  shows "lex_end Normal cipher_query = Normal \<and> lex_end Normal cipher_query_sent = SQuote \<and>
         fst (sslCipher api c) = []"
proof -
  have "lex_end Normal cipher_query_sent = SQuote"
    by (simp add: cipher_query_sent_def cipher_query_def)
  moreover from this have "fst (cl_real_query api m cipher_query_sent) \<noteq> 0"
    by (intro assms(3)) simp
  ultimately show ?thesis
    using assms(1,2) by (cases "cl_real_query api m cipher_query_sent") (simp add: sslCipher_def cipher_query_def)
qed

theorem sslCipher_fallback_unclosed_witness:
  "fst (sslCipher countdown_client \<lparr>cn_mysql = Some 0, cn_connected = True\<rparr>) = []"
  using sslCipher_fallback_unclosed [of "\<lparr>cn_mysql = Some 0, cn_connected = True\<rparr>" 0 countdown_client]
  by (simp add: countdown_client_def)

end
