(* ===== verification/Statement.thy ===== *)
theory Statement
  imports Connection
begin

text \<open>
  \<^verbatim>\<open>src/Statement.hpp\<close> and \<^verbatim>\<open>src/Statement.cpp\<close>: parameters staged by index, the prepare that is
  deferred to the first \<^verbatim>\<open>execute\<close>, the reconciliation with the server's parameter count, the binding of
  parameters and the fetch loop.  The client library's statement calls are the argument \<open>api\<close>, over
  the state \<open>'st\<close> behind a \<^verbatim>\<open>MYSQL_STMT*\<close>.
\<close>

section \<open>The statement interface of the client library\<close>

text \<open>What one element of the bound parameter array carries.  A float is sent as the double of the same
  value; its \<^verbatim>\<open>float\<close> bits stand for it.\<close>

datatype stmt_bind = BIND_LONGLONG int | BIND_DOUBLE cell | BIND_STRING string | BIND_NULL

text \<open>What a fetch leaves in the output buffers of one column.\<close>

record out_cell =
  oc_null :: bool
  oc_length :: nat
  oc_buffer :: string

record ('m, 'st) stmt_client =
  st_init :: "'m \<Rightarrow> 'st option"
  st_prepare :: "'st \<Rightarrow> string \<Rightarrow> int \<times> 'st"
  st_param_count :: "'st \<Rightarrow> nat"
  st_bind_param :: "'st \<Rightarrow> stmt_bind list \<Rightarrow> int \<times> 'st"
  st_execute :: "'st \<Rightarrow> int \<times> 'st"
  st_affected_rows :: "'st \<Rightarrow> 64 word"
  st_insert_id :: "'st \<Rightarrow> 64 word"
  st_result_metadata :: "'st \<Rightarrow> (string option \<times> int) list option"
  st_bind_result :: "'st \<Rightarrow> nat \<Rightarrow> int \<times> 'st"
  st_store_result :: "'st \<Rightarrow> int \<times> 'st"
  st_fetch :: "'st \<Rightarrow> int \<times> out_cell list \<times> 'st"
  st_fetch_column :: "'st \<Rightarrow> nat \<Rightarrow> nat \<Rightarrow> int \<times> string \<times> nat"
  st_data_truncated :: int
  st_errno :: "'st \<Rightarrow> 32 word"
  st_error :: "'st \<Rightarrow> string option"

section \<open>State\<close>

datatype param_kind = KNull | KInt | KFloat | KString

record StmtParam =
  sp_kind :: param_kind
  sp_intValue :: int
  sp_floatValue :: cell
  sp_stringValue :: string

definition default_param :: StmtParam where
  "default_param = \<lparr>sp_kind = KNull, sp_intValue = 0, sp_floatValue = 0, sp_stringValue = []\<rparr>"

text \<open>\<open>ps_conn\<close> is the address of the connection object; \<open>None\<close> is the null pointer.\<close>

record 'st PreparedStatement =
  ps_conn :: "nat option"
  ps_stmt :: "'st option"
  ps_prepared :: bool
  ps_paramCount :: int
  ps_params :: "StmtParam list"
  ps_query :: string

text \<open>\<^verbatim>\<open>std::vector::resize\<close>.\<close>

definition resize :: "nat \<Rightarrow> StmtParam list \<Rightarrow> StmtParam list" where
  "resize n xs = take n xs @ replicate (n - length xs) default_param"

definition new_statement :: "nat option \<Rightarrow> string \<Rightarrow> 'st PreparedStatement" where
  "new_statement conn query =
     (let p = \<lparr>ps_conn = conn, ps_stmt = None, ps_prepared = False, ps_paramCount = 0, ps_params = [],
               ps_query = query\<rparr>
      in if conn = None \<or> query = [] then p
         else p\<lparr>ps_paramCount := int (CountPlaceholders query),
                ps_params := resize (CountPlaceholders query) []\<rparr>)"

definition valid :: "'st PreparedStatement \<Rightarrow> bool" where
  "valid p \<longleftrightarrow> ps_conn p \<noteq> None \<and> ps_query p \<noteq> []"

section \<open>Staging parameters\<close>

definition ensureParam :: "int \<Rightarrow> 'st PreparedStatement \<Rightarrow> bool \<times> 'st PreparedStatement" where
  "ensureParam index p =
     (if index < 0 then (False, p)
      else if length (ps_params p) \<le> nat index
      then (True, p\<lparr>ps_params := resize (nat index + 1) (ps_params p),
                    ps_paramCount := (if ps_paramCount p < index + 1 then index + 1 else ps_paramCount p)\<rparr>)
      else (True, p))"

definition set_param :: "(StmtParam \<Rightarrow> StmtParam) \<Rightarrow> int \<Rightarrow> 'st PreparedStatement \<Rightarrow> 'st PreparedStatement" where
  "set_param f index p = (case ensureParam index p of (ok, p') \<Rightarrow>
     if \<not> ok then p'
     else p'\<lparr>ps_params := (ps_params p')[nat index := f (ps_params p' ! nat index)]\<rparr>)"

definition bindInt :: "int \<Rightarrow> int \<Rightarrow> 'st PreparedStatement \<Rightarrow> 'st PreparedStatement" where
  "bindInt index value = set_param (\<lambda>q. q\<lparr>sp_kind := KInt, sp_intValue := value\<rparr>) index"

definition bindFloat :: "int \<Rightarrow> cell \<Rightarrow> 'st PreparedStatement \<Rightarrow> 'st PreparedStatement" where
  "bindFloat index value = set_param (\<lambda>q. q\<lparr>sp_kind := KFloat, sp_floatValue := value\<rparr>) index"

definition bindString :: "int \<Rightarrow> string \<Rightarrow> 'st PreparedStatement \<Rightarrow> 'st PreparedStatement" where
  "bindString index value = set_param (\<lambda>q. q\<lparr>sp_kind := KString, sp_stringValue := value\<rparr>) index"

definition bindNull :: "int \<Rightarrow> 'st PreparedStatement \<Rightarrow> 'st PreparedStatement" where
  "bindNull index = set_param (\<lambda>q. q\<lparr>sp_kind := KNull\<rparr>) index"

section \<open>Execution\<close>

text \<open>The deferred prepare: the first block of \<^verbatim>\<open>execute\<close>, on the library handle behind the connection.\<close>

definition lazy_prepare ::
    "('m, 'st) stmt_client \<Rightarrow> 'm option \<Rightarrow> 'st PreparedStatement \<Rightarrow> bool \<times> 'st PreparedStatement" where
  "lazy_prepare api raw p =
     (if ps_prepared p then (True, p)
      else case raw of None \<Rightarrow> (False, p)
      | Some m \<Rightarrow> (case st_init api m of
          None \<Rightarrow> (False, p\<lparr>ps_stmt := None\<rparr>)
        | Some st \<Rightarrow> (case st_prepare api st (ps_query p) of (rc, st') \<Rightarrow>
            let p = p\<lparr>ps_stmt := Some st'\<rparr> in
            if rc \<noteq> 0 then (False, p)
            else let serverParams = wrap32 (int (st_param_count api st'));
                     p = (if serverParams \<noteq> ps_paramCount p
                          then p\<lparr>ps_paramCount := serverParams,
                                 ps_params := resize (nat serverParams) (ps_params p)\<rparr>
                          else p)
                 in (True, p\<lparr>ps_prepared := True\<rparr>))))"

fun bind_of :: "StmtParam \<Rightarrow> stmt_bind" where
  "bind_of q = (case sp_kind q of
       KInt \<Rightarrow> BIND_LONGLONG (sp_intValue q)
     | KFloat \<Rightarrow> BIND_DOUBLE (sp_floatValue q)
     | KString \<Rightarrow> BIND_STRING (sp_stringValue q)
     | KNull \<Rightarrow> BIND_NULL)"

text \<open>The array the loop over \<open>0 .. paramCount_\<close> fills; reading past the staged parameters is undefined.\<close>

definition param_binds :: "'st PreparedStatement \<Rightarrow> stmt_bind list access" where
  "param_binds p = (if nat (ps_paramCount p) \<le> length (ps_params p)
     then Found (map bind_of (take (nat (ps_paramCount p)) (ps_params p))) else Undefined_Behaviour)"

definition kCellBuf :: nat where "kCellBuf = 1024"

definition fetched_cell :: "('m, 'st) stmt_client \<Rightarrow> 'st \<Rightarrow> out_cell list \<Rightarrow> nat \<Rightarrow> ResultValue" where
  "fetched_cell api st cells c = (let oc = cells ! c in
     if oc_null oc then \<lparr>rv_value = [], rv_isNull = True\<rparr>
     else if oc_length oc \<le> kCellBuf then \<lparr>rv_value = take (oc_length oc) (oc_buffer oc), rv_isNull = False\<rparr>
     else case st_fetch_column api st c (oc_length oc + 1) of (rc, big, rlen) \<Rightarrow>
       \<lparr>rv_value = (if rc = 0 then take rlen big else []), rv_isNull = False\<rparr>)"

partial_function (option) fetch_loop ::
    "('m, 'st) stmt_client \<Rightarrow> nat \<Rightarrow> 'st \<Rightarrow> ResultValue list list \<Rightarrow> (ResultValue list list \<times> 'st) option" where
  "fetch_loop api nfields st rows = (case st_fetch api st of (status, cells, st') \<Rightarrow>
     if status = 0 \<or> status = st_data_truncated api
     then fetch_loop api nfields st' (rows @ [map (fetched_cell api st' cells) [0..<nfields]])
     else Some (rows, st'))"

text \<open>What \<^verbatim>\<open>execute\<close> does once the statement is prepared and its parameters are bound.\<close>

definition run_prepared ::
    "('m, 'st) stmt_client \<Rightarrow> 'st \<Rightarrow> (ResultSet option \<times> 'st) option" where
  "run_prepared api st0 = (case st_execute api st0 of (rc, st) \<Rightarrow>
     if rc \<noteq> 0 then Some (None, st)
     else let base = \<lparr>rs_fields = [], rs_rows = [], rs_affectedRows = st_affected_rows api st,
                      rs_insertId = st_insert_id api st, rs_warningCount = 0\<rparr>
       in case st_result_metadata api st of
         None \<Rightarrow> Some (Some base, st)
       | Some fs \<Rightarrow> (case st_bind_result api st (length fs) of (rc1, st1) \<Rightarrow>
           if rc1 \<noteq> 0 then Some (None, st1)
           else case st_store_result api st1 of (rc2, st2) \<Rightarrow>
             if rc2 \<noteq> 0 then Some (None, st2)
             else map_option (\<lambda>(rows, st3).
                 (Some (base\<lparr>rs_fields := map buffer_field fs, rs_rows := rows\<rparr>), st3))
               (fetch_loop api (length fs) st2 [])))"

text \<open>\<^verbatim>\<open>PreparedStatement::execute\<close>: \<open>None\<close> where the fetch loop never ends.\<close>

definition execute ::
    "('m, 'st) stmt_client \<Rightarrow> 'm option \<Rightarrow> QueryResult \<Rightarrow> 'st PreparedStatement
      \<Rightarrow> (bool access \<times> QueryResult \<times> 'st PreparedStatement) option" where
  "execute api raw out p0 = (let out = out\<lparr>qr_sets := []\<rparr> in
     if \<not> valid p0 then Some (Found False, out, p0)
     else case lazy_prepare api raw p0 of (ok, p) \<Rightarrow>
       if \<not> ok then Some (Found False, out, p)
       else case param_binds p of
         Found binds \<Rightarrow>
           let (rc, st) = (if 0 < ps_paramCount p then st_bind_param api (the (ps_stmt p)) binds
                           else (0, the (ps_stmt p)))
           in if rc \<noteq> 0 then Some (Found False, out, p\<lparr>ps_stmt := Some st\<rparr>)
              else map_option (\<lambda>(res, st'). (case res of
                     None \<Rightarrow> (Found False, out, p\<lparr>ps_stmt := Some st'\<rparr>)
                   | Some s \<Rightarrow> (Found True, out\<lparr>qr_sets := [s]\<rparr>, p\<lparr>ps_stmt := Some st'\<rparr>)))
                (run_prepared api st)
       | _ \<Rightarrow> Some (Undefined_Behaviour, out, p))"

definition stmt_lastErrno :: "('m, 'st) stmt_client \<Rightarrow> 'st PreparedStatement \<Rightarrow> 32 word" where
  "stmt_lastErrno api p = (case ps_stmt p of Some st \<Rightarrow> st_errno api st | None \<Rightarrow> 0)"

definition stmt_lastError :: "('m, 'st) stmt_client \<Rightarrow> 'st PreparedStatement \<Rightarrow> string" where
  "stmt_lastError api p = (case ps_stmt p of None \<Rightarrow> ''invalid statement''
     | Some st \<Rightarrow> (case st_error api st of Some e \<Rightarrow> c_str e | None \<Rightarrow> []))"

section \<open>Every parameter the server asks for is staged\<close>

text \<open>The object invariant: the count and the staging vector agree, and a prepared statement has its handle.\<close>

definition ps_wf :: "'st PreparedStatement \<Rightarrow> bool" where
  "ps_wf p \<longleftrightarrow> ps_paramCount p = int (length (ps_params p)) \<and> (ps_prepared p \<longrightarrow> ps_stmt p \<noteq> None)"

lemma length_resize [simp]: "length (resize n xs) = n"
  by (simp add: resize_def)

lemma nth_resize: "i < n \<Longrightarrow> resize n xs ! i = (if i < length xs then xs ! i else default_param)"
  by (simp add: resize_def nth_append)

lemma new_statement_wf: "ps_wf (new_statement conn query)"
  by (simp add: ps_wf_def new_statement_def Let_def)

lemma ensureParam_wf: "ps_wf p \<Longrightarrow> ensureParam index p = (ok, p') \<Longrightarrow> ps_wf p'"
  by (auto simp: ps_wf_def ensureParam_def split: if_splits)

lemma ensureParam_ok: "ensureParam index p = (True, p') \<Longrightarrow> 0 \<le> index \<and> nat index < length (ps_params p')"
  by (auto simp: ensureParam_def split: if_splits)

lemma set_param_wf: "ps_wf p \<Longrightarrow> ps_wf (set_param f index p)"
proof -
  assume wf: "ps_wf p"
  obtain ok p' where e: "ensureParam index p = (ok, p')"
    by (cases "ensureParam index p")
  from ensureParam_wf [OF wf e] show ?thesis
    by (simp add: set_param_def e ps_wf_def)
qed

lemmas bind_defs = bindInt_def bindFloat_def bindString_def bindNull_def

lemma bind_wf:
  "ps_wf p \<Longrightarrow> ps_wf (bindInt i v p)" "ps_wf p \<Longrightarrow> ps_wf (bindFloat i x p)"
  "ps_wf p \<Longrightarrow> ps_wf (bindString i s p)" "ps_wf p \<Longrightarrow> ps_wf (bindNull i p)"
  by (simp_all add: bind_defs set_param_wf)

lemma lazy_prepare_wf:
  assumes "ps_wf p" and "\<And>st. st_param_count api st < 2 ^ 31" and "lazy_prepare api raw p = (ok, p')"
  shows "ps_wf p'" and "ok \<Longrightarrow> ps_prepared p'"
proof -
  have w: "0 \<le> wrap32 (int (st_param_count api st))" for st
    using assms(2) [of st] by (simp add: wrap32_id)
  show "ps_wf p'"
    using assms(1,3) w
    by (auto simp: lazy_prepare_def ps_wf_def Let_def split: if_splits option.splits prod.splits)
  show "ok \<Longrightarrow> ps_prepared p'"
    using assms(3) by (auto simp: lazy_prepare_def Let_def split: if_splits option.splits prod.splits)
qed

lemma param_binds_wf: "ps_wf p \<Longrightarrow> param_binds p = Found (map bind_of (ps_params p))"
  by (simp add: ps_wf_def param_binds_def)

lemma execute_wf:
  assumes "ps_wf p" and "\<And>st. st_param_count api st < 2 ^ 31" and "execute api raw out p = Some (r, out', p')"
  shows "ps_wf p' \<and> r \<noteq> Undefined_Behaviour"
proof (cases "valid p")
  case False
  with assms show ?thesis by (auto simp: execute_def)
next
  case True
  obtain ok p1 where l: "lazy_prepare api raw p = (ok, p1)"
    by (cases "lazy_prepare api raw p")
  have wf1: "ps_wf p1"
    using lazy_prepare_wf(1) [OF assms(1,2) l] .
  have st: "ps_wf (p1\<lparr>ps_stmt := Some st\<rparr>)" for st
    using wf1 by (simp add: ps_wf_def)
  from assms(3) True l wf1 st show ?thesis
    by (auto simp: execute_def Let_def param_binds_wf split: if_splits option.splits prod.splits)
qed

text \<open>The states a statement goes through: constructed, bound in any order, executed any number of times.\<close>

inductive stmt_reachable :: "('m, 'st) stmt_client \<Rightarrow> 'st PreparedStatement \<Rightarrow> bool" for api where
  constructed: "stmt_reachable api (new_statement conn sql)"
| bound_int: "stmt_reachable api p \<Longrightarrow> stmt_reachable api (bindInt i v p)"
| bound_float: "stmt_reachable api p \<Longrightarrow> stmt_reachable api (bindFloat i x p)"
| bound_string: "stmt_reachable api p \<Longrightarrow> stmt_reachable api (bindString i s p)"
| bound_null: "stmt_reachable api p \<Longrightarrow> stmt_reachable api (bindNull i p)"
| executed: "stmt_reachable api p \<Longrightarrow> execute api raw out p = Some (r, out', p') \<Longrightarrow> stmt_reachable api p'"

lemma stmt_reachable_wf:
  "stmt_reachable api p \<Longrightarrow> (\<And>st. st_param_count api st < 2 ^ 31) \<Longrightarrow> ps_wf p"
proof (induction rule: stmt_reachable.induct)
  case (executed p raw out r out' p')
  then show ?case using execute_wf [of p api raw out r out' p'] by simp
qed (simp_all add: new_statement_wf bind_wf)

section \<open>Results\<close>

lemma fetch_loop_widths:
  fixes api :: "('m, 'st) stmt_client"
  assumes ret: "fetch_loop api n st rows = Some r" and start: "\<forall>row \<in> set rows. length row = n"
  shows "\<forall>row \<in> set (fst r). length row = n"
proof -
  have "(\<forall>row \<in> set rows. length row = n) \<longrightarrow> (\<forall>row \<in> set (fst r). length row = n)"
  proof (rule fetch_loop.raw_induct
      [where P = "\<lambda>api n st rows r. (\<forall>row \<in> set rows. length row = n) \<longrightarrow> (\<forall>row \<in> set (fst r). length row = n)",
       OF _ ret])
    fix f :: "('m, 'st) stmt_client \<Rightarrow> nat \<Rightarrow> 'st \<Rightarrow> ResultValue list list \<Rightarrow> (ResultValue list list \<times> 'st) option"
    fix api n st rows r
    assume IH: "\<And>api n st rows r. f api n st rows = Some r \<Longrightarrow>
        (\<forall>row \<in> set rows. length row = n) \<longrightarrow> (\<forall>row \<in> set (fst r). length row = n)"
      and eq: "(case st_fetch api st of (status, cells, st') \<Rightarrow>
         if status = 0 \<or> status = st_data_truncated api
         then f api n st' (rows @ [map (fetched_cell api st' cells) [0..<n]]) else Some (rows, st')) = Some r"
    obtain status cells st' where s: "st_fetch api st = (status, cells, st')"
      by (cases "st_fetch api st")
    show "(\<forall>row \<in> set rows. length row = n) \<longrightarrow> (\<forall>row \<in> set (fst r). length row = n)"
      using eq IH [of api n st' "rows @ [map (fetched_cell api st' cells) [0..<n]]" r] s
      by (auto split: if_splits)
  qed
  with start show ?thesis by simp
qed

lemma run_prepared_rectangular:
  "run_prepared api st0 = Some (Some s, st') \<Longrightarrow> rectangular s"
  using fetch_loop_widths [of api _ _ "[]"]
  by (fastforce simp: run_prepared_def rectangular_def Let_def split: prod.splits if_splits option.splits)

lemma execute_result_cases:
  assumes "execute api raw out p = Some (r, out', p')"
  shows "(r \<noteq> Found True \<and> qr_sets out' = []) \<or>
    (r = Found True \<and> (\<exists>st s st'. run_prepared api st = Some (Some s, st') \<and> qr_sets out' = [s]))"
  using assms
  by (auto simp: execute_def Let_def split: if_splits prod.splits access.splits option.splits)

lemma execute_shape: "execute api raw out p = Some (r, out', p') \<Longrightarrow> rectangular_result out'"
  using execute_result_cases [of api raw out p r out' p'] run_prepared_rectangular [of api]
  by (auto simp: rectangular_result_def)

lemma execute_queryString: "execute api raw out p = Some (r, out', p') \<Longrightarrow> qr_queryString out' = qr_queryString out"
  by (auto simp: execute_def Let_def split: if_splits prod.splits access.splits option.splits)

lemma execute_found: "execute api raw out p = Some (r, out', p') \<Longrightarrow> r \<noteq> Undefined_Behaviour \<Longrightarrow> \<exists>b. r = Found b"
  by (auto simp: execute_def Let_def split: if_splits prod.splits access.splits option.splits)

lemma lazy_prepare_conn: "lazy_prepare api raw p = (ok, p') \<Longrightarrow> ps_conn p' = ps_conn p"
  by (auto simp: lazy_prepare_def Let_def split: if_splits option.splits prod.splits)

lemma execute_conn: "execute api raw out p = Some (r, out', p') \<Longrightarrow> ps_conn p' = ps_conn p"
  by (auto simp: execute_def Let_def dest!: lazy_prepare_conn split: if_splits prod.splits access.splits option.splits)

lemma set_param_conn: "ps_conn (set_param f i p) = ps_conn p"
  by (simp add: set_param_def ensureParam_def)

lemma bind_conn:
  "ps_conn (bindInt i v p) = ps_conn p" "ps_conn (bindFloat i x p) = ps_conn p"
  "ps_conn (bindString i s p) = ps_conn p" "ps_conn (bindNull i p) = ps_conn p"
  by (simp_all add: bind_defs set_param_conn)

section \<open>Properties\<close>

text \<open>A statement interface with two parameters and one row of one column, for the witnesses.\<close>

definition one_row_client :: "(nat, nat) stmt_client" where
  "one_row_client = \<lparr>st_init = (\<lambda>m. Some 0), st_prepare = (\<lambda>st q. (0, 1)), st_param_count = (\<lambda>st. 2),
     st_bind_param = (\<lambda>st binds. (if length binds = 2 then 0 else 1, st)),
     st_execute = (\<lambda>st. (0, 1)), st_affected_rows = (\<lambda>st. 0), st_insert_id = (\<lambda>st. 0),
     st_result_metadata = (\<lambda>st. Some [(Some ''n'', 3)]), st_bind_result = (\<lambda>st n. (0, st)),
     st_store_result = (\<lambda>st. (0, st)),
     st_fetch = (\<lambda>st. if st = 0 then (100, [], 0)
        else (0, [\<lparr>oc_null = False, oc_length = 1, oc_buffer = ''7''\<rparr>], st - 1)),
     st_fetch_column = (\<lambda>st c n. (0, [], 0)), st_data_truncated = 101,
     st_errno = (\<lambda>st. 0), st_error = (\<lambda>st. None)\<rparr>"

definition fresh_result :: QueryResult where
  "fresh_result = \<lparr>qr_sets = [], qr_execTimeMicros = 0, qr_queryString = []\<rparr>"

text \<open>
  However a statement is bound and executed, its parameter count is the length of its staging vector, so no
  \<^verbatim>\<open>execute\<close> reads past the staged parameters, also after the server's own count has
  replaced the placeholder estimate.
\<close>

theorem execute_params_in_bounds:
  assumes "stmt_reachable api p" and "\<And>st. st_param_count api st < 2 ^ 31"
    and "execute api raw out p = Some (r, out', p')"
  shows "ps_paramCount p = int (length (ps_params p)) \<and> ps_paramCount p' = int (length (ps_params p')) \<and>
         r \<noteq> Undefined_Behaviour"
proof -
  have wf: "ps_wf p" using assms(1,2) by (rule stmt_reachable_wf)
  from execute_wf [OF wf assms(2,3)] wf show ?thesis by (simp add: ps_wf_def)
qed

theorem execute_params_in_bounds_witness:
  "ps_paramCount (bindInt 4 7 (new_statement (Some 0) ''SELECT ?'') :: nat PreparedStatement) = 5"
proof -
  let ?p = "bindInt 4 7 (new_statement (Some 0) ''SELECT ?'') :: nat PreparedStatement"
  have r: "stmt_reachable one_row_client ?p"
    by (intro stmt_reachable.intros)
  have n: "\<And>st. st_param_count one_row_client st < 2 ^ 31"
    by (simp add: one_row_client_def)
  have e: "execute one_row_client None fresh_result ?p = Some (Found False, fresh_result, ?p)"
    by (simp add: execute_def valid_def lazy_prepare_def bindInt_def set_param_def ensureParam_def new_statement_def
        CountPlaceholders_def fresh_result_def)
  from execute_params_in_bounds [OF r n e] show ?thesis
    by (simp add: bindInt_def set_param_def ensureParam_def new_statement_def CountPlaceholders_def)
qed

text \<open>
  Binding stages exactly one value: for a non-negative index the bound array afterwards is the array before,
  padded with NULLs up to the index where it was shorter, with that element replaced; a negative index changes
  nothing.  An index beyond the placeholders is thus not ignored: it grows the array.
\<close>

theorem bindInt_effect:
  assumes "ps_wf p"
  shows "param_binds (bindInt index v p) =
    Found (if index < 0 then map bind_of (ps_params p)
           else (map bind_of (resize (max (nat index + 1) (length (ps_params p))) (ps_params p)))
                  [nat index := BIND_LONGLONG v])"
proof (cases "index < 0")
  case True
  then show ?thesis
    using assms by (simp add: bindInt_def set_param_def ensureParam_def param_binds_wf)
next
  case False
  have "param_binds (bindInt index v p) = Found (map bind_of (ps_params (bindInt index v p)))"
    using assms by (intro param_binds_wf bind_wf)
  moreover have "resize (length (ps_params p)) (ps_params p) = ps_params p"
    by (simp add: resize_def)
  ultimately show ?thesis
    using False by (auto simp: bindInt_def set_param_def ensureParam_def map_update max_def)
qed

theorem bindInt_effect_witness:
  "param_binds (bindInt 2 9 (new_statement (Some 0) ''SELECT ?'')) = Found [BIND_NULL, BIND_NULL, BIND_LONGLONG 9]"
  using bindInt_effect [OF new_statement_wf, of 2 9 "Some 0" "''SELECT ?''"]
  by (simp add: new_statement_def CountPlaceholders_def resize_def default_param_def numeral_eq_Suc)

text \<open>
  Every result set a prepared statement hands back is rectangular, and it hands back exactly one where it
  succeeds and none where it fails.
\<close>

theorem execute_rectangular:
  assumes "execute api raw out p = Some (r, out', p')"
  shows "rectangular_result out' \<and> length (qr_sets out') = (if r = Found True then 1 else 0)"
  using execute_shape [OF assms] execute_result_cases [OF assms] by auto

theorem execute_rectangular_witness:
  "rectangular_result fresh_result"
  using execute_rectangular [of one_row_client None fresh_result "new_statement None []" "Found False" fresh_result
      "new_statement None []"]
  by (simp add: execute_def valid_def new_statement_def fresh_result_def Let_def)

end
