(* ===== verification/Query.thy ===== *)
theory Query
  imports Statement
begin

text \<open>
  The jobs that flow between the main thread and the workers, \<^verbatim>\<open>src/Query.hpp\<close> and
  \<^verbatim>\<open>src/HashJob.hpp\<close>, and the store of objects both sides reach through pointers: live
  connections and live prepared statements by address.
\<close>

datatype arg_type = AInt | AFloat | AString

record CallbackArg =
  cb_type :: arg_type
  cb_intValue :: int
  cb_floatValue :: cell
  cb_stringValue :: string

definition default_arg :: CallbackArg where
  "default_arg = \<lparr>cb_type = AInt, cb_intValue = 0, cb_floatValue = 0, cb_stringValue = []\<rparr>"

definition makeInt :: "int \<Rightarrow> CallbackArg" where
  "makeInt v = default_arg\<lparr>cb_type := AInt, cb_intValue := v\<rparr>"

definition makeFloat :: "cell \<Rightarrow> CallbackArg" where
  "makeFloat v = default_arg\<lparr>cb_type := AFloat, cb_floatValue := v\<rparr>"

definition makeString :: "string \<Rightarrow> CallbackArg" where
  "makeString v = default_arg\<lparr>cb_type := AString, cb_stringValue := v\<rparr>"

text \<open>
  Pointers are addresses: \<open>qj_statement\<close> borrows a statement, \<open>qj_statementToClose\<close> owns one.
  \<open>qj_syncSignal\<close> says whether a blocked caller holds the other end of the job's promise.
\<close>

record QueryJob =
  qj_connectionHandle :: int
  qj_sql :: string
  qj_statement :: "nat option"
  qj_statementToClose :: "nat option"
  qj_callback :: string
  qj_args :: "CallbackArg list"
  qj_boundPlayer :: int
  qj_useCache :: bool
  qj_modelHandle :: int
  qj_modelOp :: int
  qj_syncSignal :: bool
  qj_succeeded :: bool
  qj_errorCode :: "32 word"
  qj_error :: string
  qj_result :: "QueryResult option"

definition default_job :: QueryJob where
  "default_job = \<lparr>qj_connectionHandle = 0, qj_sql = [], qj_statement = None, qj_statementToClose = None,
     qj_callback = [], qj_args = [], qj_boundPlayer = -1, qj_useCache = True, qj_modelHandle = 0, qj_modelOp = 0,
     qj_syncSignal = False, qj_succeeded = False, qj_errorCode = 0, qj_error = [], qj_result = None\<rparr>"

datatype hash_op = Hash | Verify

record HashJob =
  hj_op :: hash_op
  hj_password :: string
  hj_hash :: string
  hj_callback :: string
  hj_args :: "CallbackArg list"
  hj_result :: string
  hj_verified :: bool

definition default_hash_job :: HashJob where
  "default_hash_job = \<lparr>hj_op = Hash, hj_password = [], hj_hash = [], hj_callback = [], hj_args = [],
     hj_result = [], hj_verified = False\<rparr>"

text \<open>The objects reached through pointers; an address without an entry is freed memory.\<close>

record ('m, 'st) store =
  so_conns :: "nat \<rightharpoonup> 'm Connection"
  so_stmts :: "nat \<rightharpoonup> 'st PreparedStatement"

end
