(* ===== verification/WorkerLoop.thy ===== *)
theory WorkerLoop
  imports Query
begin

text \<open>
  One round of \<^verbatim>\<open>ConnectionWorker::loop\<close> (\<^verbatim>\<open>src/QueryQueue.cpp\<close>) after a job has been taken off
  the input queue: the teardown branch, the three execution branches, and the hand-over of the finished
  job.  Reaching a freed object is \<open>Undefined_Behaviour\<close>; \<open>None\<close> is a query whose results never end.
\<close>

datatype delivery = Dropped | ToPromise QueryJob | ToSink QueryJob

definition hand_over :: "QueryJob \<Rightarrow> delivery" where
  "hand_over job = (if qj_syncSignal job then ToPromise job else ToSink job)"

text \<open>\<open>elapsed\<close> is the time the two readings of the steady clock are apart, in microseconds.\<close>

definition finish_job :: "bool \<Rightarrow> 32 word \<Rightarrow> string \<Rightarrow> int \<Rightarrow> QueryResult \<Rightarrow> QueryJob \<Rightarrow> QueryJob" where
  "finish_job ok code err elapsed res job = job\<lparr>qj_succeeded := ok, qj_errorCode := code,
     qj_error := (if ok then [] else err),
     qj_result := (if ok then Some (res\<lparr>qr_execTimeMicros := elapsed\<rparr>) else qj_result job)\<rparr>"

text \<open>The handle behind the statement's own connection pointer, looked at only when it prepares.\<close>

definition raw_of :: "('m, 'st) store \<Rightarrow> 'st PreparedStatement \<Rightarrow> 'm option access" where
  "raw_of s p = (if \<not> valid p \<or> ps_prepared p then Found None
     else case so_conns s (the (ps_conn p)) of
       None \<Rightarrow> Undefined_Behaviour
     | Some c \<Rightarrow> Found (cn_mysql c))"

definition run_statement ::
    "('m, 'st) stmt_client \<Rightarrow> int \<Rightarrow> nat \<Rightarrow> QueryJob \<Rightarrow> ('m, 'st) store
      \<Rightarrow> (QueryJob \<times> ('m, 'st) store) access option" where
  "run_statement sapi elapsed a job s = (case so_stmts s a of
       None \<Rightarrow> Some Undefined_Behaviour
     | Some p \<Rightarrow> (case raw_of s p of
         Found raw \<Rightarrow> map_option (\<lambda>(r, res, p'). (case r of
             Found ok \<Rightarrow> Found (finish_job ok (stmt_lastErrno sapi p') (stmt_lastError sapi p') elapsed res job,
                               s\<lparr>so_stmts := (so_stmts s)(a \<mapsto> p')\<rparr>)
           | _ \<Rightarrow> Undefined_Behaviour))
           (execute sapi raw \<lparr>qr_sets = [], qr_execTimeMicros = 0, qr_queryString = qj_sql job\<rparr> p)
       | _ \<Rightarrow> Some Undefined_Behaviour))"

definition run_query ::
    "'m client \<Rightarrow> int \<Rightarrow> nat \<Rightarrow> QueryJob \<Rightarrow> ('m, 'st) store \<Rightarrow> (QueryJob \<times> ('m, 'st) store) access option" where
  "run_query api elapsed ca job s = (case so_conns s ca of
       None \<Rightarrow> Some Undefined_Behaviour
     | Some c \<Rightarrow> map_option (\<lambda>(ok, res, c').
           Found (finish_job ok (conn_lastErrno api c') (conn_lastError api c') elapsed res job,
                  s\<lparr>so_conns := (so_conns s)(ca \<mapsto> c')\<rparr>))
         (queryBuffered api (qj_sql job) \<lparr>qr_sets = [], qr_execTimeMicros = 0, qr_queryString = []\<rparr> c))"

definition process_job ::
    "'m client \<Rightarrow> ('m, 'st) stmt_client \<Rightarrow> int \<Rightarrow> nat option \<Rightarrow> QueryJob \<Rightarrow> ('m, 'st) store
      \<Rightarrow> (delivery \<times> ('m, 'st) store) access option" where
  "process_job api sapi elapsed conn job s = (case qj_statementToClose job of
       Some a \<Rightarrow> Some (if so_stmts s a = None then Undefined_Behaviour
                       else Found (Dropped, s\<lparr>so_stmts := (so_stmts s)(a := None)\<rparr>))
     | None \<Rightarrow> map_option (\<lambda>r. access_bind r (\<lambda>(job', s'). Found (hand_over job', s')))
        (case conn of
           None \<Rightarrow> Some (Found (job\<lparr>qj_succeeded := False, qj_error := ''invalid connection''\<rparr>, s))
         | Some ca \<Rightarrow> (case qj_statement job of
             Some a \<Rightarrow> run_statement sapi elapsed a job s
           | None \<Rightarrow> run_query api elapsed ca job s)))"

section \<open>What a finished job carries\<close>

text \<open>A job as the natives hand it over: nothing of the worker's part filled in.\<close>

definition job_fresh :: "QueryJob \<Rightarrow> bool" where
  "job_fresh job \<longleftrightarrow> \<not> qj_succeeded job \<and> qj_result job = None"

text \<open>What the main thread may rely on in a finished job.\<close>

definition job_done :: "QueryJob \<Rightarrow> bool" where
  "job_done job \<longleftrightarrow> (case qj_result job of
       None \<Rightarrow> \<not> qj_succeeded job
     | Some r \<Rightarrow> qj_succeeded job \<and> qj_error job = [] \<and> rectangular_result r)"

definition same_request :: "QueryJob \<Rightarrow> QueryJob \<Rightarrow> bool" where
  "same_request j k \<longleftrightarrow> qj_connectionHandle k = qj_connectionHandle j \<and> qj_sql k = qj_sql j \<and>
     qj_callback k = qj_callback j \<and> qj_args k = qj_args j \<and> qj_boundPlayer k = qj_boundPlayer j \<and>
     qj_modelHandle k = qj_modelHandle j \<and> qj_modelOp k = qj_modelOp j \<and> qj_syncSignal k = qj_syncSignal j"

lemma finish_job_done:
  "job_fresh job \<Longrightarrow> rectangular_result res \<Longrightarrow>
     job_done (finish_job ok code err elapsed res job) \<and> same_request job (finish_job ok code err elapsed res job)"
  by (auto simp: job_fresh_def job_done_def finish_job_def same_request_def rectangular_result_def)

lemma run_statement_cases:
  assumes "run_statement sapi elapsed a job s = Some (Found (job', s'))"
  obtains p raw ok res p' where "so_stmts s a = Some p" "raw_of s p = Found raw"
    "execute sapi raw \<lparr>qr_sets = [], qr_execTimeMicros = 0, qr_queryString = qj_sql job\<rparr> p = Some (Found ok, res, p')"
    "job' = finish_job ok (stmt_lastErrno sapi p') (stmt_lastError sapi p') elapsed res job"
    "s' = s\<lparr>so_stmts := (so_stmts s)(a \<mapsto> p')\<rparr>"
  using assms by (auto simp: run_statement_def access_case_Found split: option.split_asm access.split_asm)

lemma run_query_cases:
  assumes "run_query api elapsed ca job s = Some (Found (job', s'))"
  obtains c ok res c' where "so_conns s ca = Some c"
    "queryBuffered api (qj_sql job) \<lparr>qr_sets = [], qr_execTimeMicros = 0, qr_queryString = []\<rparr> c = Some (ok, res, c')"
    "job' = finish_job ok (conn_lastErrno api c') (conn_lastError api c') elapsed res job"
    "s' = s\<lparr>so_conns := (so_conns s)(ca \<mapsto> c')\<rparr>"
  using assms by (auto simp: run_query_def split: option.splits)

lemma run_statement_done:
  assumes "job_fresh job" and "run_statement sapi elapsed a job s = Some (Found (job', s'))"
  shows "job_done job' \<and> same_request job job'"
  using assms(2) by (rule run_statement_cases) (use finish_job_done [OF assms(1)] execute_shape in blast)

lemma run_query_done:
  assumes "job_fresh job" and "run_query api elapsed ca job s = Some (Found (job', s'))"
  shows "job_done job' \<and> same_request job job'"
  using assms(2) by (rule run_query_cases) (use finish_job_done [OF assms(1)] queryBuffered_shape in blast)

fun delivered :: "delivery \<Rightarrow> QueryJob option" where
  "delivered Dropped = None"
| "delivered (ToPromise j) = Some j"
| "delivered (ToSink j) = Some j"

lemma delivered_hand_over [simp]: "delivered (hand_over j) = Some j"
  by (simp add: hand_over_def)

lemma process_job_cases:
  assumes "process_job api sapi elapsed conn job s = Some (Found (d, s'))"
  obtains (teardown) a where "qj_statementToClose job = Some a" "d = Dropped" "so_stmts s a \<noteq> None"
      "s' = s\<lparr>so_stmts := (so_stmts s)(a := None)\<rparr>"
    | (no_connection) "qj_statementToClose job = None" "conn = None" "s' = s"
        "d = hand_over (job\<lparr>qj_succeeded := False, qj_error := ''invalid connection''\<rparr>)"
    | (stmt) a ca job' where "qj_statementToClose job = None" "conn = Some ca" "qj_statement job = Some a"
        "run_statement sapi elapsed a job s = Some (Found (job', s'))" "d = hand_over job'"
    | (plain) ca job' where "qj_statementToClose job = None" "conn = Some ca" "qj_statement job = None"
        "run_query api elapsed ca job s = Some (Found (job', s'))" "d = hand_over job'"
proof (cases "qj_statementToClose job")
  case (Some a)
  with assms show ?thesis by (intro teardown [of a]) (auto simp: process_job_def split: if_splits)
next
  case None
  note n = None
  from assms n obtain r where r: "(case conn of
           None \<Rightarrow> Some (Found (job\<lparr>qj_succeeded := False, qj_error := ''invalid connection''\<rparr>, s))
         | Some ca \<Rightarrow> (case qj_statement job of
             Some a \<Rightarrow> run_statement sapi elapsed a job s
           | None \<Rightarrow> run_query api elapsed ca job s)) = Some r"
      and d: "access_bind r (\<lambda>(job', s'). Found (hand_over job', s')) = Found (d, s')"
    by (auto simp: process_job_def)
  from d obtain job' where job': "r = Found (job', s')" "d = hand_over job'"
    by (cases r) auto
  show ?thesis
    using r job' n by (auto intro: no_connection stmt plain split: option.splits)
qed

lemma process_job_done:
  assumes "job_fresh job" and "process_job api sapi elapsed conn job s = Some (Found (d, s'))"
    and "delivered d = Some job'"
  shows "job_done job' \<and> same_request job job'"
  using assms(2)
proof (cases rule: process_job_cases)
  case teardown
  with assms(3) show ?thesis by simp
next
  case no_connection
  with assms(1,3) show ?thesis by (auto simp: job_fresh_def job_done_def same_request_def)
next
  case (stmt a ca k)
  with assms(3) run_statement_done [OF assms(1) stmt(4)] show ?thesis by simp
next
  case (plain ca k)
  with assms(3) run_query_done [OF assms(1) plain(4)] show ?thesis by simp
qed

section \<open>Properties\<close>

text \<open>
  C21: what the main thread receives: a job that reaches the sink or a waiting caller asks what was asked, carries a
  result exactly where it succeeded, then with an empty error text, and its result sets are rectangular; a failed
  query never carries a partial result.
\<close>

theorem worker_delivers_done_job:
  assumes "job_fresh job" and "process_job api sapi elapsed conn job s = Some (Found (d, s'))"
    and "d = ToSink job' \<or> d = ToPromise job'"
  shows "same_request job job' \<and> (qj_succeeded job' = (qj_result job' \<noteq> None)) \<and>
    (case qj_result job' of None \<Rightarrow> True | Some r \<Rightarrow> qj_error job' = [] \<and> rectangular_result r) \<and>
    (d = ToPromise job') = qj_syncSignal job"
proof -
  from assms(3) have dl: "delivered d = Some job'" by auto
  from assms(2) assms(3) have "d = hand_over job'"
    by (cases rule: process_job_cases) (auto simp: hand_over_def split: if_splits)
  moreover from process_job_done [OF assms(1,2) dl] have "job_done job' \<and> same_request job job'" .
  ultimately show ?thesis
    by (auto simp: job_done_def hand_over_def same_request_def split: option.splits)
qed

theorem worker_delivers_done_job_witness:
  "qj_succeeded (default_job\<lparr>qj_error := ''invalid connection''\<rparr>) = False"
  using worker_delivers_done_job [of default_job countdown_client one_row_client 0 None
      "\<lparr>so_conns = Map.empty, so_stmts = Map.empty\<rparr>" "ToSink (default_job\<lparr>qj_error := ''invalid connection''\<rparr>)"
      "\<lparr>so_conns = Map.empty, so_stmts = Map.empty\<rparr>" "default_job\<lparr>qj_error := ''invalid connection''\<rparr>"]
  by (simp add: job_fresh_def default_job_def process_job_def hand_over_def)

end
