(* ===== verification/Worker.thy ===== *)
theory Worker
  imports WorkerLoop
begin

text \<open>
  The thread protocol of \<^verbatim>\<open>ConnectionWorker\<close> (\<^verbatim>\<open>src/QueryQueue.cpp\<close>): the main thread in
  \<^verbatim>\<open>enqueue\<close>, \<^verbatim>\<open>runSync\<close> and \<^verbatim>\<open>stop\<close>, and the worker thread in \<^verbatim>\<open>loop\<close>, interleaved at each
  access to something the two share (the running flag, the pending counter, the queue under its mutex, the condition
  variable, the promise).  The main thread's critical sections are one step, since nothing in them waits; the
  worker's is several, because it reads the running flag inside it, which the main thread writes without the mutex.
\<close>

section \<open>State\<close>

text \<open>
  Where the worker is in \<^verbatim>\<open>loop\<close>: before locking, about to test the predicate of \<^verbatim>\<open>wait\<close> (lock held),
  decided to sleep (lock still held), asleep, woken and about to lock again, past the wait (lock held), executing a
  job, after handing it over, returned.
\<close>

datatype wpc = W_Lock | W_Test | W_Sleep | W_Wait | W_Relock | W_Take | W_Run QueryJob | W_Fin | W_Exit

text \<open>
  Where the main thread is: between calls; in \<^verbatim>\<open>enqueue\<close> after the push and after the counter (the flag says
  it came from \<^verbatim>\<open>runSync\<close>); in \<^verbatim>\<open>runSync\<close> at \<^verbatim>\<open>finished.get()\<close>; in \<^verbatim>\<open>stop\<close> before notifying,
  at \<^verbatim>\<open>join\<close> and before the final clear.
\<close>

datatype mpc = M_Idle | M_Add bool | M_Notify bool | M_Get | M_StopNotify | M_Join | M_Clear

text \<open>
  \<open>sink\<close> is this worker's part of the engine's completed queue, which \<^verbatim>\<open>drainCompleted\<close> empties on
  the main tick.  The last three fields are history: what was drained, every job pushed, and every job executed.
\<close>

record wsys =
  w_pc :: wpc
  m_pc :: mpc
  running :: bool
  joinable :: bool
  pending :: int
  input :: "QueryJob list"
  sink :: "QueryJob list"
  promise :: "QueryJob option"
  drained :: "QueryJob list"
  pushed :: "QueryJob list"
  served :: "QueryJob list"

definition init_worker :: wsys where
  "init_worker = \<lparr>w_pc = W_Lock, m_pc = M_Idle, running = True, joinable = True, pending = 0, input = [],
     sink = [], promise = None, drained = [], pushed = [], served = []\<rparr>"

text \<open>The worker holds the input mutex exactly in these places.\<close>

fun holds_lock :: "wpc \<Rightarrow> bool" where
  "holds_lock W_Test = True"
| "holds_lock W_Sleep = True"
| "holds_lock W_Take = True"
| "holds_lock _ = False"

definition notify :: "wsys \<Rightarrow> wsys" where
  "notify s = (if w_pc s = W_Wait then s\<lparr>w_pc := W_Relock\<rparr> else s)"

definition push_job :: "QueryJob \<Rightarrow> wsys \<Rightarrow> wsys" where
  "push_job j s = s\<lparr>input := input s @ [j], pushed := pushed s @ [j]\<rparr>"

text \<open>What the worker may do with a job: the shape of \<open>process_job\<close>'s answer, with any outcome.\<close>

definition work_ok :: "QueryJob \<Rightarrow> delivery \<Rightarrow> bool" where
  "work_ok j d \<longleftrightarrow> (if qj_statementToClose j \<noteq> None then d = Dropped
     else if qj_syncSignal j then (\<exists>k. d = ToPromise k \<and> same_request j k)
     else (\<exists>k. d = ToSink k \<and> same_request j k))"

fun deliver :: "delivery \<Rightarrow> wsys \<Rightarrow> wsys" where
  "deliver Dropped s = s"
| "deliver (ToPromise k) s = s\<lparr>promise := Some k\<rparr>"
| "deliver (ToSink k) s = s\<lparr>sink := sink s @ [k]\<rparr>"

section \<open>Steps\<close>

datatype actor = Main | Thread | Spurious

inductive wstep :: "actor \<Rightarrow> wsys \<Rightarrow> wsys \<Rightarrow> bool" where
  \<comment> \<open>\<^verbatim>\<open>enqueue\<close>, and \<^verbatim>\<open>runSync\<close> up to the push\<close>
  enqueue: "m_pc s = M_Idle \<Longrightarrow> \<not> holds_lock (w_pc s) \<Longrightarrow> \<not> qj_syncSignal j \<Longrightarrow>
    wstep Main s ((push_job j s)\<lparr>m_pc := M_Add False\<rparr>)"
| run_sync: "m_pc s = M_Idle \<Longrightarrow> \<not> holds_lock (w_pc s) \<Longrightarrow> running s \<Longrightarrow> joinable s \<Longrightarrow>
    qj_syncSignal j \<Longrightarrow> qj_statementToClose j = None \<Longrightarrow>
    wstep Main s ((push_job j s)\<lparr>m_pc := M_Add True\<rparr>)"
| add: "m_pc s = M_Add sync \<Longrightarrow> wstep Main s (s\<lparr>pending := pending s + 1, m_pc := M_Notify sync\<rparr>)"
| notify_one: "m_pc s = M_Notify sync \<Longrightarrow>
    wstep Main s ((notify s)\<lparr>m_pc := (if sync then M_Get else M_Idle)\<rparr>)"
| get: "m_pc s = M_Get \<Longrightarrow> promise s = Some k \<Longrightarrow> wstep Main s (s\<lparr>promise := None, m_pc := M_Idle\<rparr>)"
| drain: "m_pc s = M_Idle \<Longrightarrow> wstep Main s (s\<lparr>sink := [], drained := drained s @ sink s\<rparr>)"
  \<comment> \<open>\<^verbatim>\<open>stop\<close>\<close>
| stop_set: "m_pc s = M_Idle \<Longrightarrow> running s \<Longrightarrow> wstep Main s (s\<lparr>running := False, m_pc := M_StopNotify\<rparr>)"
| stop_notify: "m_pc s = M_StopNotify \<Longrightarrow> wstep Main s ((notify s)\<lparr>m_pc := M_Join\<rparr>)"
| stop_join: "m_pc s = M_Join \<Longrightarrow> w_pc s = W_Exit \<Longrightarrow> wstep Main s (s\<lparr>joinable := False, m_pc := M_Clear\<rparr>)"
| stop_clear: "m_pc s = M_Clear \<Longrightarrow> \<not> holds_lock (w_pc s) \<Longrightarrow>
    wstep Main s (s\<lparr>input := [], pending := 0, m_pc := M_Idle\<rparr>)"
  \<comment> \<open>\<^verbatim>\<open>loop\<close>\<close>
| lock: "w_pc s = W_Lock \<Longrightarrow> wstep Thread s (s\<lparr>w_pc := W_Test\<rparr>)"
| test_true: "w_pc s = W_Test \<Longrightarrow> \<not> running s \<or> input s \<noteq> [] \<Longrightarrow> wstep Thread s (s\<lparr>w_pc := W_Take\<rparr>)"
| test_false: "w_pc s = W_Test \<Longrightarrow> running s \<Longrightarrow> input s = [] \<Longrightarrow> wstep Thread s (s\<lparr>w_pc := W_Sleep\<rparr>)"
| sleep: "w_pc s = W_Sleep \<Longrightarrow> wstep Thread s (s\<lparr>w_pc := W_Wait\<rparr>)"
| relock: "w_pc s = W_Relock \<Longrightarrow> wstep Thread s (s\<lparr>w_pc := W_Test\<rparr>)"
| take_exit: "w_pc s = W_Take \<Longrightarrow> input s = [] \<Longrightarrow> \<not> running s \<Longrightarrow> wstep Thread s (s\<lparr>w_pc := W_Exit\<rparr>)"
| take_retry: "w_pc s = W_Take \<Longrightarrow> input s = [] \<Longrightarrow> running s \<Longrightarrow> wstep Thread s (s\<lparr>w_pc := W_Lock\<rparr>)"
| take_job: "w_pc s = W_Take \<Longrightarrow> input s = j # js \<Longrightarrow> wstep Thread s (s\<lparr>input := js, w_pc := W_Run j\<rparr>)"
| work: "w_pc s = W_Run j \<Longrightarrow> work_ok j d \<Longrightarrow>
    wstep Thread s ((deliver d s)\<lparr>served := served s @ [j], w_pc := W_Fin\<rparr>)"
| fin: "w_pc s = W_Fin \<Longrightarrow> wstep Thread s (s\<lparr>pending := pending s - 1, w_pc := W_Lock\<rparr>)"
  \<comment> \<open>a wake-up nobody asked for, which the C++ standard allows but does not promise\<close>
| spurious: "w_pc s = W_Wait \<Longrightarrow> wstep Spurious s (s\<lparr>w_pc := W_Relock\<rparr>)"

inductive wreach :: "wsys \<Rightarrow> bool" where
  start: "wreach init_worker"
| step: "wreach s \<Longrightarrow> wstep a s t \<Longrightarrow> wreach t"

text \<open>\<open>process_job\<close> gives only deliveries the protocol allows.\<close>

lemma process_job_work_ok:
  assumes "process_job api sapi elapsed conn job s = Some (Found (d, s'))"
  shows "work_ok job d"
  using assms
proof (cases rule: process_job_cases)
  case (stmt a ca k)
  then have "same_request job k"
    by (elim run_statement_cases) (simp add: finish_job_def same_request_def)
  with stmt show ?thesis by (auto simp: work_ok_def hand_over_def same_request_def)
next
  case (plain ca k)
  then have "same_request job k"
    by (elim run_query_cases) (simp add: finish_job_def same_request_def)
  with plain show ?thesis by (auto simp: work_ok_def hand_over_def same_request_def)
qed (auto simp: work_ok_def hand_over_def same_request_def)

section \<open>Invariants\<close>

fun executing :: "wpc \<Rightarrow> QueryJob list" where
  "executing (W_Run j) = [j]"
| "executing _ = []"

fun uncounted_done :: "wpc \<Rightarrow> int" where
  "uncounted_done (W_Run j) = 1"
| "uncounted_done W_Fin = 1"
| "uncounted_done _ = 0"

fun unadded :: "mpc \<Rightarrow> int" where
  "unadded (M_Add sync) = 1"
| "unadded _ = 0"

fun about_to_notify :: "mpc \<Rightarrow> bool" where
  "about_to_notify (M_Add sync) = True"
| "about_to_notify (M_Notify sync) = True"
| "about_to_notify _ = False"

fun in_run_sync :: "mpc \<Rightarrow> bool" where
  "in_run_sync (M_Add sync) = sync"
| "in_run_sync (M_Notify sync) = sync"
| "in_run_sync M_Get = True"
| "in_run_sync _ = False"

fun stopping :: "mpc \<Rightarrow> bool" where
  "stopping M_StopNotify = True"
| "stopping M_Join = True"
| "stopping M_Clear = True"
| "stopping _ = False"

definition inv_pending :: "wsys \<Rightarrow> bool" where
  "inv_pending s \<longleftrightarrow> pending s = int (length (input s)) + uncounted_done (w_pc s) - unadded (m_pc s)"

definition inv_order :: "wsys \<Rightarrow> bool" where
  "inv_order s \<longleftrightarrow> pushed s = served s @ executing (w_pc s) @ input s"

definition inv_sleep :: "wsys \<Rightarrow> bool" where
  "inv_sleep s \<longleftrightarrow> (w_pc s = W_Sleep \<longrightarrow> input s = []) \<and>
     (w_pc s = W_Wait \<and> input s \<noteq> [] \<longrightarrow> about_to_notify (m_pc s))"

definition inv_stop :: "wsys \<Rightarrow> bool" where
  "inv_stop s \<longleftrightarrow> (stopping (m_pc s) \<longrightarrow> \<not> running s) \<and> (w_pc s = W_Exit \<longrightarrow> \<not> running s) \<and>
     (running s \<longrightarrow> joinable s) \<and> (stopping (m_pc s) \<and> w_pc s = W_Exit \<longrightarrow> input s = []) \<and>
     (m_pc s = M_Clear \<longrightarrow> w_pc s = W_Exit) \<and> (in_run_sync (m_pc s) \<longrightarrow> running s) \<and>
     (\<not> running s \<and> \<not> stopping (m_pc s) \<longrightarrow> w_pc s = W_Exit)"

definition sync_waiting :: "wsys \<Rightarrow> nat" where
  "sync_waiting s = length (filter qj_syncSignal (executing (w_pc s) @ input s)) +
     (if promise s = None then 0 else 1)"

definition inv_sync :: "wsys \<Rightarrow> bool" where
  "inv_sync s \<longleftrightarrow> sync_waiting s = (if in_run_sync (m_pc s) then 1 else 0) \<and>
     (\<forall>j \<in> set (executing (w_pc s) @ input s). qj_syncSignal j \<longrightarrow> qj_statementToClose j = None)"

definition wk_inv :: "wsys \<Rightarrow> bool" where
  "wk_inv s \<longleftrightarrow> inv_pending s \<and> inv_order s \<and> inv_sleep s \<and> inv_stop s \<and> inv_sync s"

lemma wk_inv_init: "wk_inv init_worker"
  by (simp add: wk_inv_def inv_pending_def inv_order_def inv_sleep_def inv_stop_def inv_sync_def sync_waiting_def
      init_worker_def)

subsection \<open>Every step keeps them\<close>

lemma notify_simps [simp]:
  "m_pc (notify s) = m_pc s" "running (notify s) = running s" "joinable (notify s) = joinable s"
  "pending (notify s) = pending s" "input (notify s) = input s" "sink (notify s) = sink s"
  "promise (notify s) = promise s" "pushed (notify s) = pushed s" "served (notify s) = served s"
  "executing (w_pc (notify s)) = executing (w_pc s)" "uncounted_done (w_pc (notify s)) = uncounted_done (w_pc s)"
  "holds_lock (w_pc (notify s)) = holds_lock (w_pc s)"
  "(w_pc (notify s) = W_Exit) = (w_pc s = W_Exit)" "(w_pc (notify s) = W_Sleep) = (w_pc s = W_Sleep)"
  "w_pc (notify s) \<noteq> W_Wait"
  by (simp_all add: notify_def)

lemma push_job_simps [simp]:
  "w_pc (push_job j s) = w_pc s" "m_pc (push_job j s) = m_pc s" "running (push_job j s) = running s"
  "joinable (push_job j s) = joinable s" "pending (push_job j s) = pending s" "input (push_job j s) = input s @ [j]"
  "promise (push_job j s) = promise s" "pushed (push_job j s) = pushed s @ [j]" "served (push_job j s) = served s"
  by (simp_all add: push_job_def)

lemma deliver_simps [simp]:
  "w_pc (deliver d s) = w_pc s" "m_pc (deliver d s) = m_pc s" "running (deliver d s) = running s"
  "joinable (deliver d s) = joinable s" "pending (deliver d s) = pending s" "input (deliver d s) = input s"
  "pushed (deliver d s) = pushed s" "served (deliver d s) = served s"
  by (cases d; simp)+

lemma inv_pending_step: "wstep a s t \<Longrightarrow> inv_pending s \<Longrightarrow> inv_stop s \<Longrightarrow> inv_pending t"
  by (cases rule: wstep.cases, assumption) (auto simp: inv_pending_def inv_stop_def)

lemma inv_order_step: "wstep a s t \<Longrightarrow> inv_order s \<Longrightarrow> inv_stop s \<Longrightarrow> inv_order t"
  by (cases rule: wstep.cases, assumption) (auto simp: inv_order_def inv_stop_def)

lemma inv_sleep_step: "wstep a s t \<Longrightarrow> inv_sleep s \<Longrightarrow> inv_sleep t"
  by (cases rule: wstep.cases, assumption) (auto simp: inv_sleep_def)

lemma inv_stop_step: "wstep a s t \<Longrightarrow> inv_stop s \<Longrightarrow> inv_stop t"
  by (cases rule: wstep.cases, assumption) (auto simp: inv_stop_def)

lemma inv_sync_step:
  assumes st: "wstep a s t" and i: "inv_sync s" and stop: "inv_stop s"
  shows "inv_sync t"
  using st
proof cases
  case (work j d)
  show ?thesis
  proof (cases "qj_syncSignal j")
    case True
    with work i have n: "qj_statementToClose j = None" "promise s = None"
      by (auto simp: inv_sync_def sync_waiting_def split: if_splits)
    with True work i show ?thesis
      by (auto simp: inv_sync_def sync_waiting_def work_ok_def split: if_splits)
  next
    case False
    with work i show ?thesis
      by (cases d) (auto simp: inv_sync_def sync_waiting_def work_ok_def split: if_splits)
  qed
qed (use i stop in \<open>auto simp: inv_sync_def sync_waiting_def inv_stop_def split: if_splits\<close>)

lemma wk_inv_step: "wstep a s t \<Longrightarrow> wk_inv s \<Longrightarrow> wk_inv t"
  using inv_pending_step inv_order_step inv_sleep_step inv_stop_step inv_sync_step
  unfolding wk_inv_def by blast

lemma wreach_inv: "wreach s \<Longrightarrow> wk_inv s"
  by (induction rule: wreach.induct) (auto intro: wk_inv_init wk_inv_step)

text \<open>The job a blocked \<^verbatim>\<open>runSync\<close> waits for is the last one pushed.\<close>

definition inv_last :: "wsys \<Rightarrow> bool" where
  "inv_last s \<longleftrightarrow> (in_run_sync (m_pc s) \<longrightarrow> pushed s \<noteq> [] \<and> qj_syncSignal (last (pushed s)))"

lemma inv_last_step: "wstep a s t \<Longrightarrow> inv_last s \<Longrightarrow> inv_last t"
  by (cases rule: wstep.cases, assumption) (auto simp: inv_last_def split: if_splits)

lemma wreach_last: "wreach s \<Longrightarrow> inv_last s"
proof (induction rule: wreach.induct)
  case start
  show ?case by (simp add: inv_last_def init_worker_def)
next
  case (step s a t)
  then show ?case using inv_last_step by blast
qed

text \<open>Every executed job that asks for an answer through the sink has exactly one there, in order.\<close>

definition answered :: "QueryJob \<Rightarrow> bool" where
  "answered j \<longleftrightarrow> qj_statementToClose j = None \<and> \<not> qj_syncSignal j"

definition inv_sink :: "wsys \<Rightarrow> bool" where
  "inv_sink s \<longleftrightarrow> list_all2 same_request (filter answered (served s)) (drained s @ sink s)"

lemma inv_sink_step:
  assumes st: "wstep a s t" and i: "inv_sink s"
  shows "inv_sink t"
  using st
proof cases
  case (work j d)
  show ?thesis
  proof (cases d)
    case Dropped
    with work i show ?thesis by (auto simp: inv_sink_def work_ok_def answered_def split: if_splits)
  next
    case (ToPromise k)
    with work i show ?thesis by (auto simp: inv_sink_def work_ok_def answered_def split: if_splits)
  next
    case (ToSink k)
    with work have "answered j" "same_request j k"
      by (auto simp: work_ok_def answered_def split: if_splits)
    with ToSink work i show ?thesis
      by (auto simp: inv_sink_def simp flip: append_assoc intro: list_all2_appendI)
  qed
qed (use i in \<open>auto simp: inv_sink_def push_job_def notify_def\<close>)

lemma wreach_sink: "wreach s \<Longrightarrow> inv_sink s"
proof (induction rule: wreach.induct)
  case start
  show ?case by (simp add: inv_sink_def init_worker_def)
next
  case (step s a t)
  then show ?case using inv_sink_step by blast
qed

section \<open>A blocked caller is served\<close>

definition wmeasure :: "wsys \<Rightarrow> nat" where
  "wmeasure s = 10 * length (input s) + (case w_pc s of W_Run j \<Rightarrow> 9 | W_Fin \<Rightarrow> 8 | W_Lock \<Rightarrow> 7 | W_Relock \<Rightarrow> 7
     | W_Test \<Rightarrow> 6 | W_Take \<Rightarrow> 5 | _ \<Rightarrow> 0)"

definition blocked :: "wsys \<Rightarrow> bool" where
  "blocked s \<longleftrightarrow> wk_inv s \<and> m_pc s = M_Get \<and> promise s = None"

lemma blocked_running: "blocked s \<Longrightarrow> running s \<and> w_pc s \<noteq> W_Exit"
  by (auto simp: blocked_def wk_inv_def inv_stop_def)

lemma blocked_queue: "blocked s \<Longrightarrow> executing (w_pc s) = [] \<Longrightarrow> input s \<noteq> []"
  by (auto simp: blocked_def wk_inv_def inv_sync_def sync_waiting_def)

lemma blocked_sleep: "blocked s \<Longrightarrow> (w_pc s = W_Sleep \<or> w_pc s = W_Wait) \<longrightarrow> input s = []"
  by (auto simp: blocked_def wk_inv_def inv_sleep_def)

lemma blocked_awake: "blocked s \<Longrightarrow> w_pc s \<noteq> W_Wait \<and> w_pc s \<noteq> W_Sleep"
  using blocked_sleep [of s] blocked_queue [of s] by (cases "w_pc s") simp_all

lemma same_request_refl [simp]: "same_request j j"
  by (simp add: same_request_def)

lemma work_ok_total: "\<exists>d. work_ok j d"
proof (cases "qj_statementToClose j")
  case None
  then have "work_ok j (hand_over j)" by (simp add: work_ok_def hand_over_def)
  then show ?thesis by blast
next
  case (Some st)
  then show ?thesis by (auto simp: work_ok_def)
qed

lemma blocked_progress: "blocked s \<Longrightarrow> \<exists>t. wstep Thread s t"
proof -
  assume b: "blocked s"
  note facts = blocked_running [OF b] blocked_awake [OF b] blocked_queue [OF b]
  show ?thesis
  proof (cases "w_pc s")
    case (W_Run j)
    then show ?thesis using work_ok_total [of j] by (blast intro: wstep.work)
  next
    case W_Take
    then show ?thesis using facts by (cases "input s") (auto intro: wstep.take_job)
  qed (use facts in \<open>auto intro: wstep.intros\<close>)
qed

lemma blocked_decreases:
  assumes "blocked s" and "wstep Thread s t"
  shows "wmeasure t < wmeasure s \<and> m_pc t = M_Get"
  using assms(2) blocked_running [OF assms(1)] blocked_awake [OF assms(1)] blocked_queue [OF assms(1)] assms(1)
  by (cases rule: wstep.cases) (auto simp: wmeasure_def blocked_def)

lemma blocked_served:
  "blocked s \<Longrightarrow> \<exists>t. (wstep Thread)\<^sup>*\<^sup>* s t \<and> promise t \<noteq> None \<and> m_pc t = M_Get"
proof (induction "wmeasure s" arbitrary: s rule: less_induct)
  case less
  from blocked_progress [OF less.prems] obtain t where t: "wstep Thread s t" by blast
  from blocked_decreases [OF less.prems t] have d: "wmeasure t < wmeasure s" "m_pc t = M_Get" by simp_all
  show ?case
  proof (cases "promise t = None")
    case True
    with d t less.prems have "blocked t"
      by (auto simp: blocked_def intro: wk_inv_step)
    from less.hyps [OF d(1) this] t show ?thesis
      by (meson converse_rtranclp_into_rtranclp)
  next
    case False
    with d t show ?thesis by blast
  qed
qed

section \<open>Refinement of a queue server\<close>

text \<open>
  What the worker promises, without threads: a first-in first-out queue whose head is executed and handed over.
\<close>

record server =
  sv_queue :: "QueryJob list"
  sv_served :: "QueryJob list"

inductive server_step :: "server \<Rightarrow> server \<Rightarrow> bool" where
  accept: "server_step v (v\<lparr>sv_queue := sv_queue v @ [j]\<rparr>)"
| serve: "sv_queue v = j # js \<Longrightarrow> server_step v (v\<lparr>sv_queue := js, sv_served := sv_served v @ [j]\<rparr>)"

definition abs_server :: "wsys \<Rightarrow> server" where
  "abs_server s = \<lparr>sv_queue = executing (w_pc s) @ input s, sv_served = served s\<rparr>"

lemma wstep_simulates:
  assumes st: "wstep a s t" and inv: "inv_stop s"
  shows "abs_server t = abs_server s \<or> server_step (abs_server s) (abs_server t)"
  using st
proof cases
  case (enqueue j)
  then show ?thesis using server_step.accept [of "abs_server s" j] by (simp add: abs_server_def)
next
  case (run_sync j)
  then show ?thesis using server_step.accept [of "abs_server s" j] by (simp add: abs_server_def)
next
  case (work j d)
  then show ?thesis using server_step.serve [of "abs_server s" j "input s"] by (simp add: abs_server_def)
qed (use inv in \<open>auto simp: abs_server_def inv_stop_def\<close>)

subsection \<open>Every run of the worker while a caller is blocked\<close>

lemma blocked_step:
  assumes "blocked s" and "wstep Thread s t" and "promise t = None"
  shows "blocked t"
  using assms blocked_decreases [OF assms(1,2)] by (auto simp: blocked_def intro: wk_inv_step)

lemma blocked_run_bounded:
  assumes start: "blocked (f 0)"
    and run: "\<And>n. promise (f n) = None \<Longrightarrow> wstep Thread (f n) (f (Suc n))"
  shows "(\<exists>m \<le> n. promise (f m) \<noteq> None) \<or> (blocked (f n) \<and> wmeasure (f n) + n \<le> wmeasure (f 0))"
proof (induction n)
  case 0
  from start show ?case by simp
next
  case (Suc n)
  show ?case
  proof (cases "\<exists>m \<le> Suc n. promise (f m) \<noteq> None")
    case False
    with Suc.IH have b: "blocked (f n)" and m: "wmeasure (f n) + n \<le> wmeasure (f 0)"
      by (meson le_Suc_eq)+
    from False have p: "promise (f n) = None" "promise (f (Suc n)) = None" by auto
    from blocked_decreases [OF b run [OF p(1)]] m blocked_step [OF b run [OF p(1)] p(2)]
    show ?thesis by auto
  qed simp
qed

lemma reached_blocked: "wreach s \<Longrightarrow> m_pc s = M_Get \<Longrightarrow> promise s = None \<Longrightarrow> blocked s"
  by (simp add: blocked_def wreach_inv)

section \<open>A short run, for the witnesses and the lost wake-up\<close>

lemma init_worker_simps [simp]:
  "w_pc init_worker = W_Lock" "m_pc init_worker = M_Idle" "running init_worker" "joinable init_worker"
  "pending init_worker = 0" "input init_worker = []" "sink init_worker = []" "promise init_worker = None"
  "drained init_worker = []" "pushed init_worker = []" "served init_worker = []"
  by (simp_all add: init_worker_def)

definition sync_job :: QueryJob where
  "sync_job = default_job\<lparr>qj_syncSignal := True\<rparr>"

lemma sync_job_simps [simp]: "qj_syncSignal sync_job" "qj_statementToClose sync_job = None"
  by (simp_all add: sync_job_def default_job_def)

definition sync_state :: "wpc \<Rightarrow> QueryJob option \<Rightarrow> wsys" where
  "sync_state pc r = \<lparr>w_pc = pc, m_pc = M_Get, running = True, joinable = True, pending = 1,
     input = (if pc = W_Lock then [sync_job] else []), sink = [], promise = r, drained = [], pushed = [sync_job],
     served = (if pc = W_Fin then [sync_job] else [])\<rparr>"

lemma sync_state_reached: "wreach (sync_state W_Lock None)"
proof -
  have a: "wreach ((push_job sync_job init_worker)\<lparr>m_pc := M_Add True\<rparr>)" (is "wreach ?a")
    by (rule wreach.step [OF wreach.start], rule wstep.run_sync) simp_all
  have b: "wreach (?a\<lparr>pending := pending ?a + 1, m_pc := M_Notify True\<rparr>)" (is "wreach ?b")
    by (rule wreach.step [OF a], rule wstep.add) simp
  have c: "wreach ((notify ?b)\<lparr>m_pc := (if True then M_Get else M_Idle)\<rparr>)" (is "wreach ?c")
    by (rule wreach.step [OF b], rule wstep.notify_one) simp
  have "?c = sync_state W_Lock None"
    by (simp add: sync_state_def notify_def push_job_def init_worker_def)
  with c show ?thesis by simp
qed

lemma sync_state_answered: "wreach (sync_state W_Fin (Some sync_job))"
proof -
  let ?a = "(sync_state W_Lock None)\<lparr>w_pc := W_Test\<rparr>"
  let ?b = "?a\<lparr>w_pc := W_Take\<rparr>"
  let ?c = "?b\<lparr>input := [], w_pc := W_Run sync_job\<rparr>"
  have a: "wreach ?a"
    by (rule wreach.step [OF sync_state_reached], rule wstep.lock) (simp add: sync_state_def)
  have b: "wreach ?b"
    by (rule wreach.step [OF a], rule wstep.test_true) (simp_all add: sync_state_def)
  have c: "wreach ?c"
    by (rule wreach.step [OF b], rule wstep.take_job) (simp_all add: sync_state_def)
  have d: "wreach ((deliver (ToPromise sync_job) ?c)\<lparr>served := served ?c @ [sync_job], w_pc := W_Fin\<rparr>)"
    by (rule wreach.step [OF c], rule wstep.work) (simp_all add: work_ok_def)
  have "(deliver (ToPromise sync_job) ?c)\<lparr>served := served ?c @ [sync_job], w_pc := W_Fin\<rparr> =
      sync_state W_Fin (Some sync_job)"
    by (simp add: sync_state_def)
  with d show ?thesis by simp
qed

definition missed :: "wpc \<Rightarrow> mpc \<Rightarrow> bool \<Rightarrow> wsys" where
  "missed wp mp r = init_worker\<lparr>w_pc := wp, m_pc := mp, running := r\<rparr>"

lemma missed_reached: "wreach (missed W_Wait M_Join False)"
proof -
  have "wreach (missed W_Test M_Idle True)"
    by (rule wreach.step [OF wreach.start, of Thread])
       (use wstep.lock [of init_worker] in \<open>simp add: missed_def init_worker_def\<close>)
  then have "wreach (missed W_Sleep M_Idle True)"
    by (rule wreach.step [of _ Thread])
       (use wstep.test_false [of "missed W_Test M_Idle True"] in \<open>simp add: missed_def init_worker_def\<close>)
  then have "wreach (missed W_Sleep M_StopNotify False)"
    by (rule wreach.step [of _ Main])
       (use wstep.stop_set [of "missed W_Sleep M_Idle True"] in \<open>simp add: missed_def init_worker_def\<close>)
  then have "wreach (missed W_Sleep M_Join False)"
    by (rule wreach.step [of _ Main])
       (use wstep.stop_notify [of "missed W_Sleep M_StopNotify False"]
         in \<open>simp add: missed_def init_worker_def notify_def\<close>)
  then show ?thesis
    by (rule wreach.step [of _ Thread])
       (use wstep.sleep [of "missed W_Sleep M_Join False"] in \<open>simp add: missed_def init_worker_def\<close>)
qed

lemma missed_stuck: "wstep a (missed W_Wait M_Join False) t \<Longrightarrow> a = Spurious"
  by (cases rule: wstep.cases, assumption) (simp_all add: missed_def)

lemma stopped_reached: "wreach ((missed W_Exit M_Clear False)\<lparr>joinable := False\<rparr>)"
proof -
  have "wreach (missed W_Lock M_StopNotify False)"
    by (rule wreach.step [OF wreach.start, of Main])
       (use wstep.stop_set [of init_worker] in \<open>simp add: missed_def init_worker_def\<close>)
  then have "wreach (missed W_Lock M_Join False)"
    by (rule wreach.step [of _ Main])
       (use wstep.stop_notify [of "missed W_Lock M_StopNotify False"]
         in \<open>simp add: missed_def init_worker_def notify_def\<close>)
  then have "wreach (missed W_Test M_Join False)"
    by (rule wreach.step [of _ Thread])
       (use wstep.lock [of "missed W_Lock M_Join False"] in \<open>simp add: missed_def init_worker_def\<close>)
  then have "wreach (missed W_Take M_Join False)"
    by (rule wreach.step [of _ Thread])
       (use wstep.test_true [of "missed W_Test M_Join False"] in \<open>simp add: missed_def init_worker_def\<close>)
  then have "wreach (missed W_Exit M_Join False)"
    by (rule wreach.step [of _ Thread])
       (use wstep.take_exit [of "missed W_Take M_Join False"] in \<open>simp add: missed_def init_worker_def\<close>)
  then show ?thesis
    by (rule wreach.step [of _ Main])
       (use wstep.stop_join [of "missed W_Exit M_Join False"] in \<open>simp add: missed_def init_worker_def\<close>)
qed

section \<open>Properties\<close>



text \<open>
  C24: a synchronous query never jumps the queue: when \<^verbatim>\<open>runSync\<close> takes its answer, every job that was ever
  enqueued on the connection, in particular every one queued ahead of it, has been executed, the synchronous one last.
\<close>

theorem runSync_last:
  assumes "wreach s" and "m_pc s = M_Get" and "promise s = Some k"
  shows "input s = [] \<and> served s = pushed s \<and> pushed s \<noteq> [] \<and> qj_syncSignal (last (served s))"
proof -
  note inv = wreach_inv [OF assms(1)] wreach_last [OF assms(1)]
  from inv(1) assms have none: "filter qj_syncSignal (executing (w_pc s) @ input s) = []"
    by (simp add: wk_inv_def inv_sync_def sync_waiting_def)
  from inv assms have last: "pushed s \<noteq> []" "qj_syncSignal (last (pushed s))"
    and order: "pushed s = served s @ (executing (w_pc s) @ input s)"
    by (simp_all add: inv_last_def wk_inv_def inv_order_def)
  have "executing (w_pc s) @ input s = []"
  proof (rule ccontr)
    assume ne: "executing (w_pc s) @ input s \<noteq> []"
    with order last have "qj_syncSignal (last (executing (w_pc s) @ input s))"
      by (metis last_appendR)
    with ne none show False
      by (metis filter_empty_conv last_in_set)
  qed
  with order last show ?thesis by simp
qed

theorem runSync_last_witness: "served (sync_state W_Fin (Some sync_job)) = pushed (sync_state W_Fin (Some sync_job))"
  using runSync_last [OF sync_state_answered, of sync_job] by (simp add: sync_state_def)

text \<open>
  C2: first in, first out, nothing lost or run twice: in every reachable state the jobs ever enqueued are, in order,
  those executed, then the one executing, then the queue; and what the main thread has drained and may still drain is
  exactly one answer per executed job that asks for one, in the order of execution, about the same request.
\<close>

theorem worker_fifo:
  assumes "wreach s"
  shows "pushed s = served s @ executing (w_pc s) @ input s \<and>
    list_all2 same_request (filter answered (served s)) (drained s @ sink s)"
  using wreach_inv [OF assms] wreach_sink [OF assms] by (simp add: wk_inv_def inv_order_def inv_sink_def)

theorem worker_fifo_witness: "pushed (sync_state W_Lock None) = [sync_job]"
  using worker_fifo [OF sync_state_reached] by (simp add: sync_state_def)

text \<open>
  The pending counter is the queue's length plus the job in execution, exactly, except between a push and its
  increment, where it is one short (so it may briefly be -1); it is never negative when a native reads it.
\<close>

theorem worker_pending_exact:
  assumes "wreach s"
  shows "pending s = int (length (input s)) + uncounted_done (w_pc s) - unadded (m_pc s) \<and> - 1 \<le> pending s \<and>
    (m_pc s = M_Idle \<longrightarrow> 0 \<le> pending s)"
proof -
  have p: "pending s = int (length (input s)) + uncounted_done (w_pc s) - unadded (m_pc s)"
    using wreach_inv [OF assms] by (simp add: wk_inv_def inv_pending_def)
  have "0 \<le> uncounted_done (w_pc s)" by (cases "w_pc s") simp_all
  moreover have "unadded (m_pc s) \<le> 1" by (cases "m_pc s") simp_all
  ultimately show ?thesis using p by simp
qed

theorem worker_pending_exact_witness: "pending (sync_state W_Fin (Some sync_job)) = 1"
  using worker_pending_exact [OF sync_state_answered] by (simp add: sync_state_def)

text \<open>
  C25: \<^verbatim>\<open>stop\<close> drains: when it reaches its final \<^verbatim>\<open>input_.clear()\<close> the worker has returned and every job
  ever enqueued has been executed, so the clear discards nothing (statement teardowns in particular have all run).
\<close>

theorem stop_drains:
  assumes "wreach s" and "m_pc s = M_Clear"
  shows "w_pc s = W_Exit \<and> input s = [] \<and> served s = pushed s"
  using wreach_inv [OF assms(1)] assms(2) by (auto simp: wk_inv_def inv_stop_def inv_order_def)

theorem stop_drains_witness: "input ((missed W_Exit M_Clear False)\<lparr>joinable := False\<rparr>) = []"
  using stop_drains [OF stopped_reached] by (simp add: missed_def)

text \<open>
  A lost wake-up: \<^verbatim>\<open>stop\<close> stores the running flag and notifies without the queue's mutex, so both can fall
  between the worker's test of its predicate and its sleep; the worker then sleeps on, \<^verbatim>\<open>join\<close> waits for it, and no
  step of either thread is possible ever after: only a spurious wake-up would end the wait.
\<close>

theorem stop_lost_wakeup:
  "\<exists>s. wreach s \<and> m_pc s = M_Join \<and> \<not> running s \<and> \<not> (\<exists>a t. wstep a s t \<and> a \<noteq> Spurious)"
  using missed_reached missed_stuck
  by (intro exI [of _ "missed W_Wait M_Join False"]) (auto simp: missed_def)

text \<open>
  C28: refinement: with the threads, the mutex and the condition variable forgotten, every step of the protocol
  is no step or one step of a first-in first-out queue server that accepts a job at the back or executes the front one.
\<close>

theorem worker_refines_server:
  assumes "wreach s" and "wstep a s t"
  shows "abs_server t = abs_server s \<or> server_step (abs_server s) (abs_server t)"
  using wstep_simulates [OF assms(2)] wreach_inv [OF assms(1)] by (simp add: wk_inv_def)

theorem worker_refines_server_witness:
  "abs_server (init_worker\<lparr>w_pc := W_Test\<rparr>) = abs_server init_worker \<or>
    server_step (abs_server init_worker) (abs_server (init_worker\<lparr>w_pc := W_Test\<rparr>))"
  using worker_refines_server [OF wreach.start wstep.lock] by (simp add: init_worker_def)

end
