(* ===== verification/Hashing.thy ===== *)
theory Hashing
  imports Query
begin

text \<open>
  Password hashing, \<^verbatim>\<open>src/Hashing.cpp\<close>.  The argon2 library and the operating system's entropy are
  parameters: \<open>argon2\<close> is the library's three functions, \<open>rd\<close> the successive values of \<^verbatim>\<open>std::random_device\<close>.
\<close>

datatype argon2_type = Argon2_d | Argon2_i | Argon2_id

definition ARGON2_OK :: int where
  "ARGON2_OK = 0"

record Argon2Params =
  timeCost :: "32 word"
  memoryKiB :: "32 word"
  parallelism :: "32 word"
  saltLen :: "32 word"
  hashLen :: "32 word"

definition default_params :: Argon2Params where
  "default_params = \<lparr>timeCost = 3, memoryKiB = 64 * 1024, parallelism = 1, saltLen = 16, hashLen = 32\<rparr>"

text \<open>
  \<open>a2_encodedlen\<close> takes the parameters and the variant; \<open>a2_hash_encoded\<close> the parameters, the password, the salt
  and the size of the output buffer, and gives the return code and the buffer; \<open>a2_verify\<close> the encoded hash, the
  password and the variant.
\<close>

record argon2 =
  a2_encodedlen :: "Argon2Params \<Rightarrow> argon2_type \<Rightarrow> nat"
  a2_hash_encoded :: "Argon2Params \<Rightarrow> string \<Rightarrow> string \<Rightarrow> nat \<Rightarrow> int \<times> string"
  a2_verify :: "string \<Rightarrow> string \<Rightarrow> argon2_type \<Rightarrow> int"

text \<open>\<^verbatim>\<open>csprng\<close>: the low byte of each value drawn.\<close>

definition csprng :: "(nat \<Rightarrow> 32 word) \<Rightarrow> nat \<Rightarrow> string" where
  "csprng rd n = map (\<lambda>i. char_of (unat (take_bit 8 (rd i)))) [0..<n]"

definition hashArgon2id :: "argon2 \<Rightarrow> (nat \<Rightarrow> 32 word) \<Rightarrow> string \<Rightarrow> Argon2Params \<Rightarrow> string" where
  "hashArgon2id a2 rd password p =
     (let salt = csprng rd (unat (saltLen p));
          encodedLen = a2_encodedlen a2 p Argon2_id;
          (rc, encoded) = a2_hash_encoded a2 p password salt (encodedLen + 1)
      in if rc \<noteq> ARGON2_OK then [] else c_str encoded)"

definition verify_hash :: "argon2 \<Rightarrow> string \<Rightarrow> string \<Rightarrow> bool" where
  "verify_hash a2 password encoded =
     (if encoded = [] then False
      else if a2_verify a2 (c_str encoded) password Argon2_id = ARGON2_OK then True
      else if a2_verify a2 (c_str encoded) password Argon2_i = ARGON2_OK then True
      else if a2_verify a2 (c_str encoded) password Argon2_d = ARGON2_OK then True
      else False)"

text \<open>
  What the library documents: a successful \<^verbatim>\<open>argon2id_hash_encoded\<close> into a buffer of at least the encoded length
  leaves there a non-empty NUL-terminated string, which \<^verbatim>\<open>argon2_verify\<close> accepts for the same password.
\<close>

definition argon2_documented :: "argon2 \<Rightarrow> bool" where
  "argon2_documented a2 \<longleftrightarrow> (\<forall>p pw salt n buf.
     a2_encodedlen a2 p Argon2_id \<le> n \<and> a2_hash_encoded a2 p pw salt n = (ARGON2_OK, buf) \<longrightarrow>
     NUL \<in> set buf \<and> c_str buf \<noteq> [] \<and> a2_verify a2 (c_str buf) pw Argon2_id = ARGON2_OK)"

lemma c_str_idem [simp]: "c_str (c_str s) = c_str s"
  by (simp add: c_str_def)

lemma csprng_length [simp]: "length (csprng rd n) = n"
  by (simp add: csprng_def)

lemma hashArgon2id_cases:
  obtains (failed) rc buf where "a2_hash_encoded a2 p pw (csprng rd (unat (saltLen p)))
        (a2_encodedlen a2 p Argon2_id + 1) = (rc, buf)" "rc \<noteq> ARGON2_OK" "hashArgon2id a2 rd pw p = []"
    | (hashed) buf where "a2_hash_encoded a2 p pw (csprng rd (unat (saltLen p)))
        (a2_encodedlen a2 p Argon2_id + 1) = (ARGON2_OK, buf)" "hashArgon2id a2 rd pw p = c_str buf"
  by (cases "a2_hash_encoded a2 p pw (csprng rd (unat (saltLen p))) (a2_encodedlen a2 p Argon2_id + 1)")
     (auto simp: hashArgon2id_def Let_def split: if_splits)

lemma verify_empty: "\<not> verify_hash a2 pw []"
  by (simp add: verify_hash_def)

lemma hash_then_verify:
  assumes "argon2_documented a2" and "hashArgon2id a2 rd pw p \<noteq> []"
  shows "verify_hash a2 pw (hashArgon2id a2 rd pw p)"
proof (cases rule: hashArgon2id_cases [of a2 p pw rd])
  case failed
  with assms(2) show ?thesis by simp
next
  case (hashed buf)
  with assms(1) have "a2_verify a2 (c_str buf) pw Argon2_id = ARGON2_OK"
    unfolding argon2_documented_def using le_add1 by blast
  with assms(2) hashed show ?thesis by (simp add: verify_hash_def)
qed

text \<open>A library for the witnesses: the encoded hash is a tag and the password.\<close>

definition plain_argon2 :: argon2 where
  "plain_argon2 = \<lparr>a2_encodedlen = (\<lambda>_ _. 100),
     a2_hash_encoded = (\<lambda>_ pw _ n. (if NUL \<in> set pw \<or> n < length pw + 2 then -1 else 0, ''h'' @ pw @ [NUL])),
     a2_verify = (\<lambda>enc pw _. if enc = ''h'' @ pw then 0 else -35)\<rparr>"

lemma plain_argon2_documented: "argon2_documented plain_argon2"
  by (auto simp: argon2_documented_def plain_argon2_def ARGON2_OK_def c_str_def takeWhile_append split: if_splits)

section \<open>Properties\<close>

text \<open>
  Hashing and verifying fit together: with a library that keeps its documentation, every hash
  \<^verbatim>\<open>hashArgon2id\<close> gives is accepted by \<^verbatim>\<open>verify\<close> for the same password, whatever the salt; and the empty
  string, which stands for a failed hash, is never accepted, for any password.
\<close>

theorem hash_verify_roundtrip:
  assumes "argon2_documented a2"
  shows "(hashArgon2id a2 rd pw p = [] \<or> verify_hash a2 pw (hashArgon2id a2 rd pw p)) \<and> \<not> verify_hash a2 pw' []"
  using hash_then_verify [OF assms, of rd pw p] by (simp add: verify_empty) blast

theorem hash_verify_roundtrip_witness:
  "hashArgon2id plain_argon2 (\<lambda>_. 7) ''secret'' default_params = ''hsecret'' \<and>
   verify_hash plain_argon2 ''secret'' ''hsecret''"
proof -
  have "hashArgon2id plain_argon2 (\<lambda>_. 7) ''secret'' default_params = ''hsecret''"
    by (simp add: hashArgon2id_def plain_argon2_def ARGON2_OK_def c_str_def)
  then show ?thesis
    using hash_verify_roundtrip [OF plain_argon2_documented, of "\<lambda>_. 7" "''secret''" default_params] by simp
qed

end
