(* ===== verification/Engine.thy ===== *)
theory Engine
  imports Worker Hashing "HOL-Library.Multiset"
begin

text \<open>
  \<^verbatim>\<open>QueryEngine\<close> (\<^verbatim>\<open>src/QueryQueue.cpp\<close>): the completed-job queue all workers share, and the pool of
  hashing threads with its input and output queues.
\<close>

section \<open>State and the main thread's operations\<close>

text \<open>\<open>hashWorkers\<close> counts the threads started; what each is doing is the state of the step relation below.\<close>

record QueryEngine =
  completed :: "QueryJob list"
  hashWorkers :: nat
  hashRunning :: bool
  hashInput :: "HashJob list"
  hashOutput :: "HashJob list"

definition new_engine :: QueryEngine where
  "new_engine = \<lparr>completed = [], hashWorkers = 0, hashRunning = False, hashInput = [], hashOutput = []\<rparr>"

text \<open>The loop of both drains: pop the front into \<open>out\<close> until the queue is empty.\<close>

fun drain_loop :: "'j list \<Rightarrow> 'j list \<Rightarrow> 'j list \<times> 'j list" where
  "drain_loop out [] = (out, [])"
| "drain_loop out (j # q) = drain_loop (out @ [j]) q"

definition drainCompleted :: "QueryEngine \<Rightarrow> QueryJob list \<times> QueryEngine" where
  "drainCompleted e = (let (out, q) = drain_loop [] (completed e) in (out, e\<lparr>completed := q\<rparr>))"

definition drainHashes :: "QueryEngine \<Rightarrow> HashJob list \<times> QueryEngine" where
  "drainHashes e = (let (out, q) = drain_loop [] (hashOutput e) in (out, e\<lparr>hashOutput := q\<rparr>))"

definition push_completed :: "QueryJob \<Rightarrow> QueryEngine \<Rightarrow> QueryEngine" where
  "push_completed j e = e\<lparr>completed := completed e @ [j]\<rparr>"

definition push_hash_output :: "HashJob \<Rightarrow> QueryEngine \<Rightarrow> QueryEngine" where
  "push_hash_output j e = e\<lparr>hashOutput := hashOutput e @ [j]\<rparr>"

definition enqueueHash :: "HashJob \<Rightarrow> QueryEngine \<Rightarrow> QueryEngine" where
  "enqueueHash j e = e\<lparr>hashInput := hashInput e @ [j]\<rparr>"

definition startHashing :: "nat \<Rightarrow> QueryEngine \<Rightarrow> QueryEngine" where
  "startHashing threads e = (if hashRunning e then e
     else e\<lparr>hashRunning := True, hashWorkers := hashWorkers e + (if threads < 1 then 1 else threads)\<rparr>)"

text \<open>What a hashing thread does with a job.\<close>

definition run_hash_job :: "argon2 \<Rightarrow> (nat \<Rightarrow> 32 word) \<Rightarrow> HashJob \<Rightarrow> HashJob" where
  "run_hash_job a2 rd job = (case hj_op job of
       Hash \<Rightarrow> job\<lparr>hj_result := hashArgon2id a2 rd (hj_password job) default_params\<rparr>
     | Verify \<Rightarrow> job\<lparr>hj_verified := verify_hash a2 (hj_password job) (hj_hash job)\<rparr>)"

section \<open>The drain-queue interface\<close>

text \<open>What a producer and the main tick rely on: jobs are put at the back, a drain takes all and leaves nothing.\<close>

datatype 'j qop = Put 'j | Drain

fun puts :: "'j qop list \<Rightarrow> 'j list" where
  "puts [] = []"
| "puts (Put j # ops) = j # puts ops"
| "puts (Drain # ops) = puts ops"

fun run_ops :: "('j \<Rightarrow> 'q \<Rightarrow> 'q) \<Rightarrow> ('q \<Rightarrow> 'j list \<times> 'q) \<Rightarrow> 'j qop list \<Rightarrow> 'q \<Rightarrow> 'j list \<times> 'q" where
  "run_ops put drain [] q = ([], q)"
| "run_ops put drain (Put j # ops) q = run_ops put drain ops (put j q)"
| "run_ops put drain (Drain # ops) q =
     (let (out, q') = drain q; (outs, q'') = run_ops put drain ops q' in (out @ outs, q''))"

locale drain_queue =
  fixes put :: "'j \<Rightarrow> 'q \<Rightarrow> 'q"
    and drain :: "'q \<Rightarrow> 'j list \<times> 'q"
    and contents :: "'q \<Rightarrow> 'j list"
  assumes contents_put: "contents (put j q) = contents q @ [j]"
    and drain_all: "fst (drain q) = contents q"
    and drain_empties: "contents (snd (drain q)) = []"
begin

lemma run_ops_fifo:
  "run_ops put drain ops q = (outs, q') \<Longrightarrow> outs @ contents q' = contents q @ puts ops"
proof (induction ops arbitrary: q outs q')
  case Nil
  then show ?case by simp
next
  case (Cons op ops)
  show ?case
  proof (cases op)
    case (Put j)
    with Cons show ?thesis by (simp add: contents_put)
  next
    case Drain
    obtain rest where r: "run_ops put drain ops (snd (drain q)) = (rest, q')" "outs = fst (drain q) @ rest"
      using Cons.prems Drain by (auto split: prod.splits)
    from Cons.IH [OF r(1)] r(2) Drain show ?thesis by (simp add: drain_all drain_empties)
  qed
qed

end

lemma drain_loop_all [simp]: "drain_loop out q = (out @ q, [])"
  by (induction out q rule: drain_loop.induct) simp_all

interpretation completed_queue: drain_queue push_completed drainCompleted completed
  by unfold_locales (simp_all add: push_completed_def drainCompleted_def)

interpretation hash_queue: drain_queue push_hash_output drainHashes hashOutput
  by unfold_locales (simp_all add: push_hash_output_def drainHashes_def)

section \<open>The hashing pool\<close>

text \<open>
  The pool with its threads: each is waiting for a job, running one, or has returned.  The wait under the
  mutex, the test of the two exit conditions and the pop are one step (nothing in them can be seen half done; the
  program points of the threads are those of \<open>HashPool\<close>, which refines this).  The last two fields
  are history: the jobs ever enqueued, and those drained by the main tick.
\<close>

datatype hthread = H_Wait | H_Run HashJob | H_Exit

record hpool =
  hp_engine :: QueryEngine
  hp_threads :: "hthread list"
  hp_enqueued :: "HashJob list"
  hp_drained :: "HashJob list"

definition init_pool :: hpool where
  "init_pool = \<lparr>hp_engine = new_engine, hp_threads = [], hp_enqueued = [], hp_drained = []\<rparr>"

inductive hstep :: "argon2 \<Rightarrow> hpool \<Rightarrow> hpool \<Rightarrow> bool" for a2 :: argon2 where
  start: "hp_engine s = e \<Longrightarrow>
    hstep a2 s (s\<lparr>hp_engine := startHashing n e,
      hp_threads := hp_threads s @ replicate (hashWorkers (startHashing n e) - hashWorkers e) H_Wait\<rparr>)"
| enqueue_hash: "hstep a2 s (s\<lparr>hp_engine := enqueueHash j (hp_engine s), hp_enqueued := hp_enqueued s @ [j]\<rparr>)"
| drain_hashes: "drainHashes (hp_engine s) = (out, e) \<Longrightarrow>
    hstep a2 s (s\<lparr>hp_engine := e, hp_drained := hp_drained s @ out\<rparr>)"
| stop_flag: "hstep a2 s (s\<lparr>hp_engine := (hp_engine s)\<lparr>hashRunning := False\<rparr>\<rparr>)"
| take_hash: "i < length (hp_threads s) \<Longrightarrow> hp_threads s ! i = H_Wait \<Longrightarrow> hashInput (hp_engine s) = j # js \<Longrightarrow>
    hstep a2 s (s\<lparr>hp_engine := (hp_engine s)\<lparr>hashInput := js\<rparr>, hp_threads := (hp_threads s)[i := H_Run j]\<rparr>)"
| exit_hash: "i < length (hp_threads s) \<Longrightarrow> hp_threads s ! i = H_Wait \<Longrightarrow> hashInput (hp_engine s) = [] \<Longrightarrow>
    \<not> hashRunning (hp_engine s) \<Longrightarrow> hstep a2 s (s\<lparr>hp_threads := (hp_threads s)[i := H_Exit]\<rparr>)"
| finish_hash: "i < length (hp_threads s) \<Longrightarrow> hp_threads s ! i = H_Run j \<Longrightarrow>
    hstep a2 s (s\<lparr>hp_engine := push_hash_output (run_hash_job a2 rd j) (hp_engine s),
      hp_threads := (hp_threads s)[i := H_Wait]\<rparr>)"
| joined: "\<forall>t \<in> set (hp_threads s). t = H_Exit \<Longrightarrow>
    hstep a2 s (s\<lparr>hp_engine := (hp_engine s)\<lparr>hashWorkers := 0\<rparr>, hp_threads := []\<rparr>)"

inductive hreach :: "argon2 \<Rightarrow> hpool \<Rightarrow> bool" for a2 :: argon2 where
  init: "hreach a2 init_pool"
| step: "hreach a2 s \<Longrightarrow> hstep a2 s t \<Longrightarrow> hreach a2 t"

fun running_job :: "hthread \<Rightarrow> HashJob list" where
  "running_job (H_Run j) = [j]"
| "running_job _ = []"

definition hash_answer :: "argon2 \<Rightarrow> HashJob \<Rightarrow> HashJob \<Rightarrow> bool" where
  "hash_answer a2 j k \<longleftrightarrow> (\<exists>rd. k = run_hash_job a2 rd j)"

definition in_hand :: "hpool \<Rightarrow> HashJob multiset" where
  "in_hand s = mset (concat (map running_job (hp_threads s)))"

definition pool_inv :: "argon2 \<Rightarrow> hpool \<Rightarrow> bool" where
  "pool_inv a2 s \<longleftrightarrow> (\<exists>dn. mset (hp_enqueued s) = mset (hashInput (hp_engine s)) + in_hand s + mset dn \<and>
     list_all2 (hash_answer a2) dn (hp_drained s @ hashOutput (hp_engine s)))"

lemma mset_concat_update:
  "i < length xs \<Longrightarrow>
     mset (concat (map f (xs[i := v]))) + mset (f (xs ! i)) = mset (concat (map f xs)) + mset (f v)"
proof (induction xs arbitrary: i)
  case (Cons x xs)
  show ?case
  proof (cases i)
    case 0
    then show ?thesis by (simp add: ac_simps)
  next
    case (Suc n)
    with Cons.IH [of n] Cons.prems show ?thesis by (simp add: add.assoc)
  qed
qed simp

lemma in_hand_update:
  "i < length (hp_threads s) \<Longrightarrow>
     mset (concat (map running_job ((hp_threads s)[i := t]))) + mset (running_job (hp_threads s ! i)) =
     in_hand s + mset (running_job t)"
  by (simp add: in_hand_def mset_concat_update)

lemma concat_waiting [simp]: "concat (map running_job (replicate n H_Wait)) = []"
  by (induction n) simp_all

lemma startHashing_queues [simp]:
  "hashInput (startHashing n e) = hashInput e" "hashOutput (startHashing n e) = hashOutput e"
  by (simp_all add: startHashing_def)

lemma pool_inv_step:
  assumes st: "hstep a2 s t" and inv: "pool_inv a2 s"
  shows "pool_inv a2 t"
proof -
  from inv obtain dn where dn: "mset (hp_enqueued s) = mset (hashInput (hp_engine s)) + in_hand s + mset dn"
      "list_all2 (hash_answer a2) dn (hp_drained s @ hashOutput (hp_engine s))"
    by (auto simp: pool_inv_def)
  from st show ?thesis
  proof cases
    case (finish_hash i j rd)
    have "list_all2 (hash_answer a2) (dn @ [j])
        ((hp_drained s @ hashOutput (hp_engine s)) @ [run_hash_job a2 rd j])"
      using dn(2) by (rule list_all2_appendI) (auto simp: hash_answer_def)
    moreover from in_hand_update [OF finish_hash(2), of H_Wait] finish_hash(3)
    have "in_hand s = add_mset j (mset (concat (map running_job ((hp_threads s)[i := H_Wait]))))" by simp
    ultimately show ?thesis
      using dn(1) finish_hash(1) unfolding pool_inv_def
      by (intro exI [of _ "dn @ [j]"]) (simp add: push_hash_output_def in_hand_def)
  next
    case (take_hash i j js)
    from in_hand_update [OF take_hash(2), of "H_Run j"] take_hash(3)
    have "mset (concat (map running_job ((hp_threads s)[i := H_Run j]))) = add_mset j (in_hand s)" by simp
    with dn take_hash(1,4) show ?thesis
      unfolding pool_inv_def by (intro exI [of _ dn]) (simp add: in_hand_def)
  next
    case (exit_hash i)
    from in_hand_update [OF exit_hash(2), of H_Exit] exit_hash(3)
    have "mset (concat (map running_job ((hp_threads s)[i := H_Exit]))) = in_hand s" by simp
    with dn exit_hash(1) show ?thesis
      unfolding pool_inv_def by (intro exI [of _ dn]) (simp add: in_hand_def)
  next
    case (drain_hashes out e)
    with dn show ?thesis
      unfolding pool_inv_def by (intro exI [of _ dn]) (auto simp: drainHashes_def in_hand_def)
  next
    case joined
    then have "concat (map running_job (hp_threads s)) = []" by auto
    with dn joined(1) show ?thesis
      unfolding pool_inv_def by (intro exI [of _ dn]) (simp add: in_hand_def)
  qed (use dn in \<open>auto simp: pool_inv_def in_hand_def enqueueHash_def intro!: exI [of _ dn]\<close>)
qed

lemma pool_inv_init: "pool_inv a2 init_pool"
  by (simp add: pool_inv_def init_pool_def new_engine_def in_hand_def)

lemma hreach_inv: "hreach a2 s \<Longrightarrow> pool_inv a2 s"
  by (induction rule: hreach.induct) (auto intro: pool_inv_init pool_inv_step)

section \<open>Properties\<close>

text \<open>
  The completed queue loses, repeats and reorders nothing: for any interleaving of workers pushing finished jobs
  and main ticks draining them, the drained jobs followed by those still queued are the jobs pushed, in order.
\<close>

theorem completed_fifo:
  assumes "run_ops push_completed drainCompleted ops e = (outs, e')"
  shows "outs @ completed e' = completed e @ puts ops"
  using assms by (rule completed_queue.run_ops_fifo)

theorem completed_fifo_witness:
  "run_ops push_completed drainCompleted [Put default_job, Drain, Put sync_job] new_engine =
     ([default_job], new_engine\<lparr>completed := [sync_job]\<rparr>) \<and>
   [default_job] @ completed (new_engine\<lparr>completed := [sync_job]\<rparr>) = [] @ [default_job, sync_job]"
proof -
  have "run_ops push_completed drainCompleted [Put default_job, Drain, Put sync_job] new_engine =
     ([default_job], new_engine\<lparr>completed := [sync_job]\<rparr>)"
    by (simp add: push_completed_def drainCompleted_def new_engine_def)
  then show ?thesis
    using completed_fifo [of "[Put default_job, Drain, Put sync_job]" new_engine "[default_job]"
        "new_engine\<lparr>completed := [sync_job]\<rparr>"] by (simp add: new_engine_def)
qed

text \<open>
  The hashing pool answers every job exactly once: however many threads take jobs from the one queue, and whenever
  the main tick drains, the jobs ever enqueued are those still queued, those a thread has in hand, and one for each
  answer handed back, in the order of the answers, each answer being the outcome of that job's own operation.
\<close>

theorem hash_pool_conserves:
  assumes "hreach a2 s"
  shows "\<exists>dn. mset (hp_enqueued s) = mset (hashInput (hp_engine s)) + in_hand s + mset dn \<and>
    list_all2 (hash_answer a2) dn (hp_drained s @ hashOutput (hp_engine s))"
  using hreach_inv [OF assms] by (simp add: pool_inv_def)

theorem hash_pool_conserves_witness:
  "\<exists>dn. {#default_hash_job#} = {#default_hash_job#} + mset dn \<and> list_all2 (hash_answer plain_argon2) dn []"
proof -
  have "hreach plain_argon2 (init_pool\<lparr>hp_engine := enqueueHash default_hash_job new_engine,
      hp_enqueued := [default_hash_job]\<rparr>)" (is "hreach _ ?s")
    using hreach.step [OF hreach.init hstep.enqueue_hash [of plain_argon2 init_pool default_hash_job]]
    by (simp add: init_pool_def)
  from hash_pool_conserves [OF this] show ?thesis
    by (simp add: init_pool_def enqueueHash_def new_engine_def in_hand_def)
qed

end
