(* ===== verification/HashPool.thy ===== *)
theory HashPool
  imports Engine
begin

text \<open>
  The hashing pool of \<^verbatim>\<open>QueryEngine\<close> at the grain of its mutex and condition variable: \<^verbatim>\<open>hashLoop\<close> in each of its
  threads against \<^verbatim>\<open>startHashing\<close>, \<^verbatim>\<open>enqueueHash\<close>, \<^verbatim>\<open>drainHashes\<close> and \<^verbatim>\<open>stopHashing\<close> on the main thread.  It
  refines the pool of \<open>Engine\<close>, works off whatever is enqueued, and answers everything before \<^verbatim>\<open>stopHashing\<close> returns.
\<close>

section \<open>Program points\<close>

text \<open>
  A thread waits for the mutex, tests the predicate of the wait, has found it false and is about to block (the mutex is
  held until it has), blocks, waits for the mutex again, has found it true, hashes, or has returned.  The main thread
  is between two calls, about to notify after a push, about to notify all, or joining.
\<close>

datatype hpc = HP_Lock | HP_Test | HP_Sleep | HP_Wait | HP_Relock | HP_Take | HP_Run HashJob | HP_Exit

datatype hmpc = HM_Idle | HM_Notify | HM_StopNotify | HM_Join nat

record pool_sys =
  ps_engine :: QueryEngine
  ps_pcs :: "hpc list"
  ps_main :: hmpc
  ps_enqueued :: "HashJob list"
  ps_drained :: "HashJob list"

definition init_sys :: pool_sys where
  "init_sys = \<lparr>ps_engine = new_engine, ps_pcs = [], ps_main = HM_Idle, ps_enqueued = [], ps_drained = []\<rparr>"

fun holds_input :: "hpc \<Rightarrow> bool" where
  "holds_input HP_Test = True"
| "holds_input HP_Sleep = True"
| "holds_input HP_Take = True"
| "holds_input _ = False"

definition input_locked :: "pool_sys \<Rightarrow> bool" where
  "input_locked s \<longleftrightarrow> (\<exists>pc \<in> set (ps_pcs s). holds_input pc)"

definition wake :: "hpc \<Rightarrow> hpc" where
  "wake pc = (if pc = HP_Wait then HP_Relock else pc)"

definition at :: "pool_sys \<Rightarrow> nat \<Rightarrow> hpc \<Rightarrow> bool" where
  "at s i pc \<longleftrightarrow> i < length (ps_pcs s) \<and> ps_pcs s ! i = pc"

definition goto :: "nat \<Rightarrow> hpc \<Rightarrow> pool_sys \<Rightarrow> pool_sys" where
  "goto i pc s = s\<lparr>ps_pcs := (ps_pcs s)[i := pc]\<rparr>"

text \<open>
  The calls of the main thread: each starts between two calls.  The threads start one by one; what the first do before
  the last exists is what they may do afterwards.
\<close>

inductive call_step :: "pool_sys \<Rightarrow> pool_sys \<Rightarrow> bool" where
  start: "ps_main s = HM_Idle \<Longrightarrow>
    call_step s (s\<lparr>ps_engine := startHashing n (ps_engine s),
      ps_pcs := ps_pcs s @ replicate (hashWorkers (startHashing n (ps_engine s)) - hashWorkers (ps_engine s)) HP_Lock\<rparr>)"
| push: "ps_main s = HM_Idle \<Longrightarrow> \<not> input_locked s \<Longrightarrow>
    call_step s (s\<lparr>ps_engine := enqueueHash j (ps_engine s), ps_enqueued := ps_enqueued s @ [j], ps_main := HM_Notify\<rparr>)"
| drain: "ps_main s = HM_Idle \<Longrightarrow> drainHashes (ps_engine s) = (out, e) \<Longrightarrow>
    call_step s (s\<lparr>ps_engine := e, ps_drained := ps_drained s @ out\<rparr>)"
| stop_set: "ps_main s = HM_Idle \<Longrightarrow> hashRunning (ps_engine s) \<Longrightarrow>
    call_step s (s\<lparr>ps_engine := (ps_engine s)\<lparr>hashRunning := False\<rparr>, ps_main := HM_StopNotify\<rparr>)"

text \<open>What goes on by itself: a call that has begun, and the threads.\<close>

inductive pool_step :: "argon2 \<Rightarrow> pool_sys \<Rightarrow> pool_sys \<Rightarrow> bool" for a2 :: argon2 where
  notify_none: "ps_main s = HM_Notify \<Longrightarrow> HP_Wait \<notin> set (ps_pcs s) \<Longrightarrow> pool_step a2 s (s\<lparr>ps_main := HM_Idle\<rparr>)"
| notify_one: "ps_main s = HM_Notify \<Longrightarrow> at s i HP_Wait \<Longrightarrow> pool_step a2 s ((goto i HP_Relock s)\<lparr>ps_main := HM_Idle\<rparr>)"
| notify_all: "ps_main s = HM_StopNotify \<Longrightarrow>
    pool_step a2 s (s\<lparr>ps_pcs := map wake (ps_pcs s), ps_main := HM_Join 0\<rparr>)"
| join: "ps_main s = HM_Join i \<Longrightarrow> at s i HP_Exit \<Longrightarrow> pool_step a2 s (s\<lparr>ps_main := HM_Join (i + 1)\<rparr>)"
| clear: "ps_main s = HM_Join (length (ps_pcs s)) \<Longrightarrow>
    pool_step a2 s (s\<lparr>ps_engine := (ps_engine s)\<lparr>hashWorkers := 0\<rparr>, ps_pcs := [], ps_main := HM_Idle\<rparr>)"
| lock: "at s i HP_Lock \<or> at s i HP_Relock \<Longrightarrow> \<not> input_locked s \<Longrightarrow> pool_step a2 s (goto i HP_Test s)"
| test_true: "at s i HP_Test \<Longrightarrow> \<not> hashRunning (ps_engine s) \<or> hashInput (ps_engine s) \<noteq> [] \<Longrightarrow>
    pool_step a2 s (goto i HP_Take s)"
| test_false: "at s i HP_Test \<Longrightarrow> hashRunning (ps_engine s) \<Longrightarrow> hashInput (ps_engine s) = [] \<Longrightarrow>
    pool_step a2 s (goto i HP_Sleep s)"
| sleep: "at s i HP_Sleep \<Longrightarrow> pool_step a2 s (goto i HP_Wait s)"
| take_exit: "at s i HP_Take \<Longrightarrow> \<not> hashRunning (ps_engine s) \<Longrightarrow> hashInput (ps_engine s) = [] \<Longrightarrow>
    pool_step a2 s (goto i HP_Exit s)"
| take_retry: "at s i HP_Take \<Longrightarrow> hashRunning (ps_engine s) \<Longrightarrow> hashInput (ps_engine s) = [] \<Longrightarrow>
    pool_step a2 s (goto i HP_Lock s)"
| take_job: "at s i HP_Take \<Longrightarrow> hashInput (ps_engine s) = j # js \<Longrightarrow>
    pool_step a2 s (goto i (HP_Run j) (s\<lparr>ps_engine := (ps_engine s)\<lparr>hashInput := js\<rparr>\<rparr>))"
| finish: "at s i (HP_Run j) \<Longrightarrow>
    pool_step a2 s (goto i HP_Lock (s\<lparr>ps_engine := push_hash_output (run_hash_job a2 rd j) (ps_engine s)\<rparr>))"

text \<open>A wake-up nobody asked for, which the C++ standard allows but does not promise.\<close>

inductive spurious_step :: "pool_sys \<Rightarrow> pool_sys \<Rightarrow> bool" where
  spurious: "at s i HP_Wait \<Longrightarrow> spurious_step s (goto i HP_Relock s)"

inductive pool_reach :: "argon2 \<Rightarrow> pool_sys \<Rightarrow> bool" for a2 :: argon2 where
  init: "pool_reach a2 init_sys"
| call: "pool_reach a2 s \<Longrightarrow> call_step s t \<Longrightarrow> pool_reach a2 t"
| step: "pool_reach a2 s \<Longrightarrow> pool_step a2 s t \<Longrightarrow> pool_reach a2 t"
| spurious: "pool_reach a2 s \<Longrightarrow> spurious_step s t \<Longrightarrow> pool_reach a2 t"

section \<open>The pool of \<open>Engine\<close>, refined\<close>

fun abs_pc :: "hpc \<Rightarrow> hthread" where
  "abs_pc (HP_Run j) = H_Run j"
| "abs_pc HP_Exit = H_Exit"
| "abs_pc _ = H_Wait"

definition abs_pool :: "pool_sys \<Rightarrow> hpool" where
  "abs_pool s = \<lparr>hp_engine = ps_engine s, hp_threads = map abs_pc (ps_pcs s), hp_enqueued = ps_enqueued s,
     hp_drained = ps_drained s\<rparr>"

lemma abs_wake [simp]: "abs_pc (wake pc) = abs_pc pc"
  by (simp add: wake_def)

lemma abs_goto:
  "at s i pc \<Longrightarrow> abs_pc pc' = abs_pc pc \<Longrightarrow> map abs_pc ((ps_pcs s)[i := pc']) = map abs_pc (ps_pcs s)"
  by (simp add: at_def map_update list_update_same_conv)

lemma pool_step_refines:
  assumes "pool_step a2 s t" and joined: "\<And>i. ps_main s = HM_Join i \<Longrightarrow> \<forall>k < i. at s k HP_Exit"
  shows "abs_pool t = abs_pool s \<or> hstep a2 (abs_pool s) (abs_pool t)"
  using assms(1)
proof cases
  case clear
  then have "\<forall>t \<in> set (hp_threads (abs_pool s)). t = H_Exit"
    using joined by (auto simp: abs_pool_def in_set_conv_nth at_def)
  from hstep.joined [OF this, of a2] clear show ?thesis by (simp add: abs_pool_def)
next
  case (take_exit i)
  then show ?thesis
    using hstep.exit_hash [of i "abs_pool s" a2] by (simp add: abs_pool_def at_def goto_def map_update)
next
  case (take_job i j js)
  then show ?thesis
    using hstep.take_hash [of i "abs_pool s" j js a2] by (simp add: abs_pool_def at_def goto_def map_update)
next
  case (finish i j rd)
  then show ?thesis
    using hstep.finish_hash [of i "abs_pool s" j a2 rd] by (simp add: abs_pool_def at_def goto_def map_update)
qed (auto simp: abs_pool_def goto_def comp_def abs_goto)

lemma call_step_refines:
  assumes "call_step s t"
  shows "hstep a2 (abs_pool s) (abs_pool t)"
  using assms
proof cases
  case (start n)
  then show ?thesis using hstep.start [of "abs_pool s" "ps_engine s" a2 n] by (simp add: abs_pool_def)
next
  case (push j)
  then show ?thesis using hstep.enqueue_hash [of a2 "abs_pool s" j] by (simp add: abs_pool_def)
next
  case (drain out e)
  then show ?thesis using hstep.drain_hashes [of "abs_pool s" out e a2] by (simp add: abs_pool_def)
next
  case stop_set
  then show ?thesis using hstep.stop_flag [of a2 "abs_pool s"] by (simp add: abs_pool_def)
qed

lemma spurious_refines: "spurious_step s t \<Longrightarrow> abs_pool t = abs_pool s"
  by (erule spurious_step.cases) (simp add: abs_pool_def goto_def abs_goto)

section \<open>The invariant\<close>

text \<open>
  A thread about to block has tested an empty queue; a thread has only returned once the pool was stopped and the queue
  empty; while the pool runs it has threads, and while it does not and no call is under way it has none; and, but for
  the moment between a push and its notification, a queue that is not empty has a thread awake to take from it.
\<close>

definition in_stop :: "hmpc \<Rightarrow> bool" where
  "in_stop m \<longleftrightarrow> m = HM_StopNotify \<or> (\<exists>i. m = HM_Join i)"

definition awake :: "hpc \<Rightarrow> bool" where
  "awake pc \<longleftrightarrow> pc \<notin> {HP_Sleep, HP_Wait, HP_Exit}"

definition sys_inv :: "pool_sys \<Rightarrow> bool" where
  "sys_inv s \<longleftrightarrow>
     (HP_Sleep \<in> set (ps_pcs s) \<longrightarrow> hashInput (ps_engine s) = []) \<and>
     (HP_Exit \<in> set (ps_pcs s) \<longrightarrow> hashInput (ps_engine s) = [] \<and> in_stop (ps_main s)) \<and>
     (hashRunning (ps_engine s) \<longrightarrow> ps_pcs s \<noteq> [] \<and> \<not> in_stop (ps_main s)) \<and>
     (\<not> hashRunning (ps_engine s) \<longrightarrow> ps_pcs s = [] \<or> in_stop (ps_main s)) \<and>
     (in_stop (ps_main s) \<longrightarrow> ps_pcs s \<noteq> []) \<and>
     (hashRunning (ps_engine s) \<longrightarrow> ps_main s \<noteq> HM_Notify \<longrightarrow> hashInput (ps_engine s) \<noteq> [] \<longrightarrow>
       (\<exists>pc \<in> set (ps_pcs s). awake pc)) \<and>
     (\<forall>i. ps_main s = HM_Join i \<longrightarrow> i \<le> length (ps_pcs s) \<and> (\<forall>k < i. at s k HP_Exit))"

lemma set_goto: "pc \<in> set ((ps_pcs s)[i := pc']) \<Longrightarrow> pc = pc' \<or> pc \<in> set (ps_pcs s)"
  using set_update_subset_insert [of "ps_pcs s" i pc'] by auto

lemma at_mem: "at s i pc \<Longrightarrow> pc \<in> set (ps_pcs s)"
  by (auto simp: at_def)

lemma at_update: "at s i pc \<Longrightarrow> pc' \<in> set ((ps_pcs s)[i := pc'])"
  by (simp add: at_def set_update_memI)

text \<open>Moving a thread keeps the others where they are.\<close>

lemma goto_others: "k \<noteq> i \<Longrightarrow> at (goto i pc s) k q = at s k q"
  by (simp add: at_def goto_def)

lemma awake_update: "at s i q \<Longrightarrow> \<not> awake q \<Longrightarrow> pc \<in> set (ps_pcs s) \<Longrightarrow> awake pc \<Longrightarrow> pc \<in> set ((ps_pcs s)[i := q'])"
  by (metis at_def in_set_conv_nth length_list_update nth_list_update_neq)

lemma move_inv:
  assumes inv: "sys_inv s" and i: "at s i q" "q \<noteq> HP_Exit"
    and e: "hashRunning e = hashRunning (ps_engine s)" "hashInput (ps_engine s) = [] \<Longrightarrow> hashInput e = []"
    and pc: "pc = HP_Sleep \<Longrightarrow> hashInput e = []" "pc = HP_Exit \<Longrightarrow> hashInput e = [] \<and> \<not> hashRunning e"
      "awake pc \<or> hashInput e = [] \<or> \<not> hashRunning e"
  shows "sys_inv (goto i pc (s\<lparr>ps_engine := e\<rparr>))"
proof -
  let ?pcs = "(ps_pcs s)[i := pc]"
  have mem: "x \<in> set ?pcs \<Longrightarrow> x = pc \<or> x \<in> set (ps_pcs s)" for x by (rule set_goto)
  have "\<forall>k < n. at ((s\<lparr>ps_engine := e, ps_pcs := ?pcs\<rparr>)) k HP_Exit" if "\<forall>k < n. at s k HP_Exit" for n
    using that i by (auto simp: at_def goto_def nth_list_update)
  note Join = this
  have m: "pc \<in> set ?pcs" using i(1) by (simp add: at_update)
  have q: "q \<in> set (ps_pcs s)" "?pcs \<noteq> []" using at_mem [OF i(1)] by auto
  have S: "HP_Sleep \<in> set ?pcs \<longrightarrow> hashInput e = []"
    using mem [of HP_Sleep] inv e(2) pc(1) unfolding sys_inv_def by blast
  have X: "HP_Exit \<in> set ?pcs \<longrightarrow> hashInput e = [] \<and> in_stop (ps_main s)"
    using mem [of HP_Exit] inv e q(1) pc(2) unfolding sys_inv_def by fastforce
  have A: "hashRunning e \<longrightarrow> ps_main s \<noteq> HM_Notify \<longrightarrow> hashInput e \<noteq> [] \<longrightarrow> (\<exists>x \<in> set ?pcs. awake x)"
    using m pc(3) by blast
  have J: "\<forall>n. ps_main s = HM_Join n \<longrightarrow> n \<le> length ?pcs \<and>
      (\<forall>k < n. at (s\<lparr>ps_engine := e, ps_pcs := ?pcs\<rparr>) k HP_Exit)"
  proof (intro allI impI)
    fix n assume "ps_main s = HM_Join n"
    with inv have "n \<le> length (ps_pcs s)" "\<forall>k < n. at s k HP_Exit" by (auto simp: sys_inv_def)
    with Join [of n] show "n \<le> length ?pcs \<and> (\<forall>k < n. at (s\<lparr>ps_engine := e, ps_pcs := ?pcs\<rparr>) k HP_Exit)" by simp
  qed
  show ?thesis
    using inv S X A J q(2) e(1) unfolding sys_inv_def by (simp add: goto_def)
qed

lemma pool_step_inv:
  assumes inv: "sys_inv s" and st: "pool_step a2 s t"
  shows "sys_inv t"
proof -
  have move: "sys_inv (goto i pc s)" if "at s i q" "q \<noteq> HP_Exit" "pc = HP_Sleep \<Longrightarrow> hashInput (ps_engine s) = []"
      "pc = HP_Exit \<Longrightarrow> hashInput (ps_engine s) = [] \<and> \<not> hashRunning (ps_engine s)"
      "awake pc \<or> hashInput (ps_engine s) = [] \<or> \<not> hashRunning (ps_engine s)" for i q pc
    using move_inv [OF inv that(1,2), of "ps_engine s" pc] that by simp
  from st show ?thesis
  proof cases
    case notify_none
    have "\<exists>pc \<in> set (ps_pcs s). awake pc"
      if "hashRunning (ps_engine s)" "hashInput (ps_engine s) \<noteq> []"
    proof -
      have "ps_pcs s \<noteq> []" "HP_Sleep \<notin> set (ps_pcs s)" "HP_Exit \<notin> set (ps_pcs s)"
        using inv that unfolding sys_inv_def by blast+
      with notify_none(3) have "hd (ps_pcs s) \<in> set (ps_pcs s) \<and> awake (hd (ps_pcs s))"
        by (metis awake_def insertE list.set_sel(1) singletonD)
      then show ?thesis by blast
    qed
    with inv notify_none(1,2) show ?thesis by (auto simp: sys_inv_def in_stop_def)
  next
    case (notify_one i)
    then have "sys_inv (goto i HP_Relock s)" by (intro move) (auto simp: awake_def)
    moreover have "\<exists>pc \<in> set (ps_pcs (goto i HP_Relock s)). awake pc"
      using notify_one at_update [of s i HP_Wait HP_Relock] by (intro bexI [of _ HP_Relock]) (auto simp: awake_def goto_def)
    ultimately show ?thesis using notify_one by (auto simp: sys_inv_def in_stop_def goto_def)
  next
    case notify_all
    have "HP_Sleep \<in> wake ` P \<Longrightarrow> HP_Sleep \<in> P" "HP_Exit \<in> wake ` P \<Longrightarrow> HP_Exit \<in> P" for P
      by (auto simp: wake_def split: if_splits)
    then have w: "HP_Sleep \<in> wake ` P \<longrightarrow> HP_Sleep \<in> P" "HP_Exit \<in> wake ` P \<longrightarrow> HP_Exit \<in> P" for P by blast+
    have stop: "in_stop (ps_main s)" using notify_all(2) by (simp add: in_stop_def)
    have "ps_pcs s \<noteq> []" "\<not> hashRunning (ps_engine s)" "HP_Sleep \<in> set (ps_pcs s) \<longrightarrow> hashInput (ps_engine s) = []"
      "HP_Exit \<in> set (ps_pcs s) \<longrightarrow> hashInput (ps_engine s) = []"
      using inv stop unfolding sys_inv_def by blast+
    with w [of "set (ps_pcs s)"] notify_all(1) show ?thesis by (simp add: sys_inv_def in_stop_def)
  next
    case (join i)
    with inv show ?thesis by (auto simp: sys_inv_def in_stop_def at_def less_Suc_eq)
  next
    case clear
    with inv show ?thesis by (auto simp: sys_inv_def in_stop_def)
  next
    case (lock i)
    then show ?thesis using move [of i HP_Lock HP_Test] move [of i HP_Relock HP_Test] by (auto simp: awake_def)
  next
    case (test_true i)
    then show ?thesis by (auto intro: move simp: awake_def)
  next
    case (test_false i)
    then show ?thesis by (auto intro: move)
  next
    case (sleep i)
    then have "hashInput (ps_engine s) = []" using inv at_mem by (auto simp: sys_inv_def)
    with sleep show ?thesis by (auto intro: move)
  next
    case (take_exit i)
    then show ?thesis by (auto intro: move)
  next
    case (take_retry i)
    then show ?thesis by (auto intro: move simp: awake_def)
  next
    case (take_job i j js)
    then show ?thesis using move_inv [OF inv take_job(2), of "(ps_engine s)\<lparr>hashInput := js\<rparr>" "HP_Run j"] by (simp add: awake_def)
  next
    case (finish i j rd)
    then show ?thesis using move_inv [OF inv finish(2), of "push_hash_output (run_hash_job a2 rd j) (ps_engine s)" HP_Lock]
      by (simp add: awake_def push_hash_output_def)
  qed
qed

lemma call_step_inv:
  assumes inv: "sys_inv s" and st: "call_step s t"
  shows "sys_inv t"
  using st
proof cases
  case (start n)
  with inv show ?thesis
    by (cases "hashRunning (ps_engine s)") (auto simp: sys_inv_def startHashing_def in_stop_def awake_def)
next
  case (push j)
  with inv have "HP_Sleep \<notin> set (ps_pcs s)" "HP_Exit \<notin> set (ps_pcs s)"
    by (auto simp: input_locked_def sys_inv_def in_stop_def dest: bspec)
  with inv push show ?thesis by (auto simp: sys_inv_def in_stop_def enqueueHash_def)
next
  case (drain out e)
  with inv show ?thesis by (auto simp: sys_inv_def in_stop_def drainHashes_def at_def)
next
  case stop_set
  with inv show ?thesis by (auto simp: sys_inv_def in_stop_def)
qed

lemma spurious_inv:
  assumes "sys_inv s" and "spurious_step s t"
  shows "sys_inv t"
  using assms(2)
proof cases
  case (spurious i)
  with move_inv [OF assms(1) spurious(2), of "ps_engine s" HP_Relock] show ?thesis by (simp add: awake_def)
qed

lemma pool_reach_inv: "pool_reach a2 s \<Longrightarrow> sys_inv s"
proof (induction rule: pool_reach.induct)
  case init
  show ?case by (simp add: sys_inv_def init_sys_def new_engine_def in_stop_def)
qed (auto intro: call_step_inv pool_step_inv spurious_inv)

lemma pool_reach_abs: "pool_reach a2 s \<Longrightarrow> hreach a2 (abs_pool s)"
proof (induction rule: pool_reach.induct)
  case init
  have "abs_pool init_sys = init_pool" by (simp add: abs_pool_def init_sys_def init_pool_def)
  then show ?case by (simp add: hreach.init)
next
  case (call s t)
  then show ?case using call_step_refines hreach.step by blast
next
  case (step s t)
  have "ps_main s = HM_Join i \<Longrightarrow> \<forall>k < i. at s k HP_Exit" for i
    using pool_reach_inv [OF step(1)] by (simp add: sys_inv_def)
  from pool_step_refines [OF step(2) this] step(3) hreach.step show ?case by metis
next
  case (spurious s t)
  then show ?case using spurious_refines by metis
qed

section \<open>Mutual exclusion\<close>

definition mutex_inv :: "pool_sys \<Rightarrow> bool" where
  "mutex_inv s \<longleftrightarrow> (\<forall>i k q r. at s i q \<longrightarrow> at s k r \<longrightarrow> holds_input q \<longrightarrow> holds_input r \<longrightarrow> i = k) \<and>
     (\<forall>i. at s i HP_Take \<longrightarrow> \<not> hashRunning (ps_engine s) \<or> hashInput (ps_engine s) \<noteq> [])"

lemma at_goto: "at (goto i pc s) k q \<longleftrightarrow> k < length (ps_pcs s) \<and> (if k = i then q = pc else at s k q)"
  by (auto simp: at_def goto_def)

lemma at_engine [simp]: "at (s\<lparr>ps_engine := e\<rparr>) k q = at s k q" "at (s\<lparr>ps_main := m\<rparr>) k q = at s k q"
  by (simp_all add: at_def)

lemma input_locked_at: "input_locked s \<longleftrightarrow> (\<exists>i q. at s i q \<and> holds_input q)"
  by (auto simp: input_locked_def at_def in_set_conv_nth intro: nth_mem)

lemma goto_fields [simp]:
  "ps_engine (goto i pc s) = ps_engine s" "ps_main (goto i pc s) = ps_main s"
  "ps_enqueued (goto i pc s) = ps_enqueued s" "ps_drained (goto i pc s) = ps_drained s"
  "length (ps_pcs (goto i pc s)) = length (ps_pcs s)"
  by (simp_all add: goto_def)

lemma move_mutex:
  assumes inv: "mutex_inv s" and i: "at s i q" and h: "holds_input pc \<Longrightarrow> holds_input q \<or> \<not> input_locked s"
    and e: "hashRunning e = hashRunning (ps_engine s)" "hashInput e = hashInput (ps_engine s) \<or> q = HP_Take"
    and t: "pc = HP_Take \<Longrightarrow> \<not> hashRunning e \<or> hashInput e \<noteq> []"
  shows "mutex_inv (goto i pc (s\<lparr>ps_engine := e\<rparr>))"
proof -
  have alone: "\<not> holds_input r" if "at s k r" "k \<noteq> i" "holds_input q \<or> \<not> input_locked s" for k r
    using inv i that unfolding mutex_inv_def input_locked_at by blast
  have "\<not> hashRunning e \<or> hashInput e \<noteq> []" if "at s k HP_Take" "k \<noteq> i" for k
    using inv that alone [OF that(1,2)] e unfolding mutex_inv_def by (metis holds_input.simps(3))
  moreover have "k = l" if "at s k r" "at s l r'" "holds_input r" "holds_input r'" for k l r r'
    using inv that unfolding mutex_inv_def by blast
  ultimately show ?thesis
    unfolding mutex_inv_def at_goto using alone h t by (auto split: if_splits)
qed

lemma pool_step_mutex:
  assumes inv: "mutex_inv s" and st: "pool_step a2 s t"
  shows "mutex_inv t"
proof -
  have move: "mutex_inv (goto i pc s)" if "at s i q" "holds_input pc \<Longrightarrow> holds_input q \<or> \<not> input_locked s"
      "pc = HP_Take \<Longrightarrow> \<not> hashRunning (ps_engine s) \<or> hashInput (ps_engine s) \<noteq> []" for i q pc
    using move_mutex [OF inv that(1), of pc "ps_engine s"] that by simp
  from st show ?thesis
  proof cases
    case notify_none
    with inv show ?thesis by (simp add: mutex_inv_def)
  next
    case (notify_one i)
    then have "mutex_inv (goto i HP_Relock s)" by (intro move) auto
    then show ?thesis using notify_one by (simp add: mutex_inv_def goto_def)
  next
    case notify_all
    have "at s k pc" if "k < length (ps_pcs s)" "wake (ps_pcs s ! k) = pc" "pc \<noteq> HP_Relock" for k pc
      using that by (auto simp: at_def wake_def split: if_splits)
    then have "at t k pc \<Longrightarrow> pc \<noteq> HP_Relock \<Longrightarrow> at s k pc" for k pc
      using notify_all(1) by (auto simp: at_def)
    then show ?thesis
      using inv notify_all(1) unfolding mutex_inv_def by (simp add: goto_def) (metis holds_input.simps(6) hpc.distinct)
  next
    case (join i)
    with inv show ?thesis by (simp add: mutex_inv_def)
  next
    case clear
    then show ?thesis by (simp add: mutex_inv_def at_def)
  next
    case (take_job i j js)
    then show ?thesis using move_mutex [OF inv take_job(2), of "HP_Run j" "(ps_engine s)\<lparr>hashInput := js\<rparr>"] by simp
  next
    case (finish i j rd)
    then show ?thesis
      using move_mutex [OF inv finish(2), of HP_Lock "push_hash_output (run_hash_job a2 rd j) (ps_engine s)"]
      by (simp add: push_hash_output_def)
  qed (auto intro: move)
qed

lemma call_step_mutex:
  assumes inv: "mutex_inv s" and si: "sys_inv s" and st: "call_step s t"
  shows "mutex_inv t"
  using st
proof cases
  case (start n)
  show ?thesis
  proof (cases "hashRunning (ps_engine s)")
    case True
    with inv start show ?thesis by (simp add: startHashing_def mutex_inv_def)
  next
    case False
    with si start have "ps_pcs s = []" by (auto simp: sys_inv_def in_stop_def)
    with start False show ?thesis by (auto simp: mutex_inv_def at_def nth_append)
  qed
next
  case (push j)
  with inv show ?thesis by (simp add: mutex_inv_def at_def enqueueHash_def)
next
  case (drain out e)
  with inv show ?thesis by (auto simp: mutex_inv_def at_def drainHashes_def)
next
  case stop_set
  with inv show ?thesis by (simp add: mutex_inv_def at_def)
qed

lemma spurious_mutex:
  assumes "mutex_inv s" and "spurious_step s t"
  shows "mutex_inv t"
  using assms(2)
proof cases
  case (spurious i)
  with move_mutex [OF assms(1) spurious(2), of HP_Relock "ps_engine s"] show ?thesis by simp
qed

lemma pool_reach_mutex: "pool_reach a2 s \<Longrightarrow> mutex_inv s"
proof (induction rule: pool_reach.induct)
  case init
  show ?case by (simp add: mutex_inv_def init_sys_def at_def)
qed (auto intro: call_step_mutex pool_step_mutex spurious_mutex pool_reach_inv)

section \<open>Progress\<close>

fun pc_work :: "hpc \<Rightarrow> nat" where
  "pc_work HP_Lock = 3"
| "pc_work HP_Relock = 3"
| "pc_work HP_Test = 2"
| "pc_work HP_Sleep = 1"
| "pc_work HP_Take = 1"
| "pc_work (HP_Run j) = 4"
| "pc_work HP_Wait = 0"
| "pc_work HP_Exit = 0"

fun main_work :: "nat \<Rightarrow> hmpc \<Rightarrow> nat" where
  "main_work n HM_Idle = 0"
| "main_work n HM_Notify = 4"
| "main_work n HM_StopNotify = 4 * n + 3"
| "main_work n (HM_Join i) = n - i + 1"

text \<open>A bound on what the pool can still do by itself.\<close>

definition pool_bound :: "pool_sys \<Rightarrow> nat" where
  "pool_bound s = 4 * length (hashInput (ps_engine s)) + sum_list (map pc_work (ps_pcs s)) +
     main_work (length (ps_pcs s)) (ps_main s)"

lemma sum_update:
  "i < length xs \<Longrightarrow> sum_list (map f (xs[i := y])) + f (xs ! i) = sum_list (map f xs) + (f y :: nat)"
proof (induction xs arbitrary: i)
  case (Cons x xs)
  show ?case
  proof (cases i)
    case (Suc k)
    with Cons.IH [of k] Cons.prems show ?thesis by simp
  qed simp
qed simp

lemma move_work:
  "at s i q \<Longrightarrow> sum_list (map pc_work (ps_pcs (goto i pc s))) + pc_work q = sum_list (map pc_work (ps_pcs s)) + pc_work pc"
  using sum_update [of i "ps_pcs s" pc_work pc] by (simp add: at_def goto_def)

lemma wake_work: "sum_list (map (pc_work \<circ> wake) pcs) \<le> sum_list (map pc_work pcs) + 3 * length pcs"
  by (induction pcs) (auto simp: wake_def)

lemma pool_step_bound:
  assumes si: "sys_inv s" and mi: "mutex_inv s" and st: "pool_step a2 s t"
  shows "pool_bound t < pool_bound s"
  using st
proof cases
  case notify_none
  then show ?thesis by (simp add: pool_bound_def)
next
  case (notify_one i)
  then show ?thesis using move_work [OF notify_one(3), of HP_Relock] by (simp add: pool_bound_def)
next
  case notify_all
  then show ?thesis using wake_work [of "ps_pcs s"] by (simp add: pool_bound_def)
next
  case (join i)
  then have "i < length (ps_pcs s)" by (simp add: at_def)
  then have "length (ps_pcs s) - (i + 1) < length (ps_pcs s) - i" by linarith
  with join show ?thesis by (simp add: pool_bound_def)
next
  case clear
  then show ?thesis by (simp add: pool_bound_def)
next
  case (lock i)
  then show ?thesis using move_work [of s i HP_Lock HP_Test] move_work [of s i HP_Relock HP_Test]
    by (auto simp: pool_bound_def)
next
  case (test_true i)
  then show ?thesis using move_work [OF test_true(2), of HP_Take] by (simp add: pool_bound_def)
next
  case (test_false i)
  then show ?thesis using move_work [OF test_false(2), of HP_Sleep] by (simp add: pool_bound_def)
next
  case (sleep i)
  then show ?thesis using move_work [OF sleep(2), of HP_Wait] by (simp add: pool_bound_def)
next
  case (take_exit i)
  then show ?thesis using move_work [OF take_exit(2), of HP_Exit] by (simp add: pool_bound_def)
next
  case (take_retry i)
  with mi show ?thesis by (auto simp: mutex_inv_def)
next
  case (take_job i j js)
  then show ?thesis
    using move_work [of "s\<lparr>ps_engine := (ps_engine s)\<lparr>hashInput := js\<rparr>\<rparr>" i HP_Take "HP_Run j"]
    by (simp add: pool_bound_def)
next
  case (finish i j rd)
  then show ?thesis
    using move_work [of "s\<lparr>ps_engine := push_hash_output (run_hash_job a2 rd j) (ps_engine s)\<rparr>" i "HP_Run j" HP_Lock]
    by (simp add: pool_bound_def push_hash_output_def)
qed

lemma pool_run_bound:
  "(pool_step a2 ^^ n) s t \<Longrightarrow> pool_reach a2 s \<Longrightarrow> pool_reach a2 t \<and> n + pool_bound t \<le> pool_bound s"
proof (induction n arbitrary: t)
  case (Suc n)
  then obtain u where u: "(pool_step a2 ^^ n) s u" "pool_step a2 u t" by auto
  with Suc have r: "pool_reach a2 u" "n + pool_bound u \<le> pool_bound s" by blast+
  with pool_step_bound [OF pool_reach_inv [OF r(1)] pool_reach_mutex [OF r(1)] u(2)] u(2) show ?case
    by (auto intro: pool_reach.step)
qed simp

lemma pool_step_running: "pool_step a2 s t \<Longrightarrow> hashRunning (ps_engine t) = hashRunning (ps_engine s)"
  by (erule pool_step.cases) (auto simp: push_hash_output_def)

lemma pool_run_running: "(pool_step a2 ^^ n) s t \<Longrightarrow> hashRunning (ps_engine t) = hashRunning (ps_engine s)"
  by (induction n arbitrary: t) (auto dest: pool_step_running)

text \<open>A pool that can do nothing by itself: every thread blocked or gone, and no call but a join under way.\<close>

lemma quiet_threads:
  assumes mi: "mutex_inv s" and q: "\<nexists>u. pool_step a2 s u" and i: "at s i pc"
  shows "pc = HP_Wait \<or> pc = HP_Exit"
proof -
  have holder: False if "at s k r" "holds_input r" for k r
  proof (cases r)
    case HP_Test
    with that q pool_step.test_true [of s k a2] pool_step.test_false [of s k a2] show ?thesis by blast
  next
    case HP_Sleep
    with that q pool_step.sleep [of s k a2] show ?thesis by blast
  next
    case HP_Take
    with that q pool_step.take_exit [of s k a2] pool_step.take_retry [of s k a2] pool_step.take_job [of s k _ _ a2]
    show ?thesis by (cases "hashInput (ps_engine s)") blast+
  qed (use that in simp_all)
  then have "\<not> input_locked s" unfolding input_locked_at by blast
  with q i pool_step.lock [of s i a2] pool_step.finish [of s i _ a2] holder [OF i] show ?thesis
    by (cases pc) auto
qed

lemma quiet_pool:
  assumes si: "sys_inv s" and mi: "mutex_inv s" and q: "\<nexists>u. pool_step a2 s u" and r: "hashRunning (ps_engine s)"
  shows "ps_main s = HM_Idle \<and> set (ps_pcs s) = {HP_Wait} \<and> hashInput (ps_engine s) = []"
proof -
  have stop: "\<not> in_stop (ps_main s)" "ps_pcs s \<noteq> []" "HP_Exit \<notin> set (ps_pcs s)"
    using si r unfolding sys_inv_def by blast+
  have wait: "pc = HP_Wait" if "pc \<in> set (ps_pcs s)" for pc
    using that quiet_threads [OF mi q] stop(3) by (metis at_def in_set_conv_nth)
  have "ps_main s \<noteq> HM_Notify"
    using q wait stop(2) pool_step.notify_one [of s 0 a2] by (auto simp: at_def)
  with stop(1) have m: "ps_main s = HM_Idle" by (cases "ps_main s") (auto simp: in_stop_def)
  moreover have "hashInput (ps_engine s) = []"
    using si r m wait unfolding sys_inv_def by (auto simp: awake_def)
  ultimately show ?thesis using wait stop(2) by (metis insertE list.set_intros(1) neq_Nil_conv singletonI subsetI subset_singletonD empty_iff set_empty)
qed

lemma nothing_in_hand:
  assumes "\<And>pc. pc \<in> set (ps_pcs s) \<Longrightarrow> running_job (abs_pc pc) = []"
  shows "in_hand (abs_pool s) = {#}"
proof -
  have "concat (map running_job (map abs_pc (ps_pcs s))) = []" using assms by auto
  then show ?thesis by (simp add: in_hand_def abs_pool_def)
qed

lemma answered_all:
  assumes "pool_reach a2 s" and "hashInput (ps_engine s) = []" and "set (ps_pcs s) \<subseteq> {HP_Wait, HP_Exit}"
  shows "\<exists>dn. mset (ps_enqueued s) = mset dn \<and>
    list_all2 (hash_answer a2) dn (ps_drained s @ hashOutput (ps_engine s))"
proof -
  have "in_hand (abs_pool s) = {#}" by (rule nothing_in_hand) (use assms(3) in auto)
  with hreach_inv [OF pool_reach_abs [OF assms(1)]] assms(2) show ?thesis by (simp add: pool_inv_def abs_pool_def)
qed

section \<open>Properties\<close>

text \<open>
  C22: the hashing pool works off what it is given: from any state it can reach while it runs, with any number of threads,
  it comes to rest after at most \<open>pool_bound\<close> steps unless it is called again, and when it has, no job is queued or in a
  thread's hands and every job ever enqueued has exactly one answer, the outcome of its own operation.  So no
  notification of a job is ever lost and no job waits for a later one.
\<close>

theorem hash_pool_works_off:
  assumes "pool_reach a2 s" and "hashRunning (ps_engine s)" and "(pool_step a2 ^^ n) s t"
  shows "n \<le> pool_bound s \<and> ((\<nexists>u. pool_step a2 t u) \<longrightarrow> ps_main t = HM_Idle \<and> hashInput (ps_engine t) = [] \<and>
    (\<exists>dn. mset (ps_enqueued t) = mset dn \<and> list_all2 (hash_answer a2) dn (ps_drained t @ hashOutput (ps_engine t))))"
proof -
  have t: "pool_reach a2 t" "n \<le> pool_bound s" using pool_run_bound [OF assms(3,1)] by auto
  moreover have "hashRunning (ps_engine t)" using pool_run_running [OF assms(3)] assms(2) by simp
  ultimately show ?thesis
    using quiet_pool [OF pool_reach_inv pool_reach_mutex] answered_all [of a2 t] by auto
qed

text \<open>One thread that has tested the empty queue and is about to block.\<close>

definition about_to_block :: pool_sys where
  "about_to_block = \<lparr>ps_engine = startHashing 1 new_engine, ps_pcs = [HP_Sleep], ps_main = HM_Idle, ps_enqueued = [],
     ps_drained = []\<rparr>"

lemma about_to_block_reach: "pool_reach a2 about_to_block"
proof -
  let ?s = "init_sys\<lparr>ps_engine := startHashing 1 new_engine, ps_pcs := [HP_Lock]\<rparr>"
  have "pool_reach a2 ?s"
    using pool_reach.call [OF pool_reach.init call_step.start [of init_sys 1]]
    by (simp add: init_sys_def new_engine_def startHashing_def)
  from pool_reach.step [OF this pool_step.lock [of _ 0]]
  have "pool_reach a2 (goto 0 HP_Test ?s)" by (simp add: at_def input_locked_def)
  from pool_reach.step [OF this pool_step.test_false [of _ 0]]
  have "pool_reach a2 (goto 0 HP_Sleep (goto 0 HP_Test ?s))"
    by (simp add: at_def goto_def startHashing_def new_engine_def)
  then show ?thesis by (simp add: goto_def init_sys_def about_to_block_def)
qed

theorem hash_pool_works_off_witness:
  "\<exists>dn. mset (ps_enqueued (goto 0 HP_Wait about_to_block)) = mset dn \<and> list_all2 (hash_answer plain_argon2) dn []"
proof -
  let ?t = "goto 0 HP_Wait about_to_block"
  have st: "(pool_step plain_argon2 ^^ 1) about_to_block ?t"
    using pool_step.sleep [of about_to_block 0 plain_argon2] unfolding relpowp_1
    by (simp add: at_def about_to_block_def)
  have rest: "\<nexists>u. pool_step plain_argon2 ?t u"
    by (auto elim!: pool_step.cases simp: at_def goto_def about_to_block_def)
  from hash_pool_works_off [OF about_to_block_reach _ st] rest show ?thesis
    by (simp add: about_to_block_def startHashing_def new_engine_def)
qed

text \<open>
  C37: shutting the pool down discards no job: when \<^verbatim>\<open>stopHashing\<close> has joined its threads, whatever they were doing when
  it was called, the queue is empty and every job ever enqueued has exactly one answer.
\<close>

theorem stopHashing_answers_all:
  assumes "pool_reach a2 s" and "ps_main s = HM_Join (length (ps_pcs s))"
  shows "hashInput (ps_engine s) = [] \<and>
    (\<exists>dn. mset (ps_enqueued s) = mset dn \<and> list_all2 (hash_answer a2) dn (ps_drained s @ hashOutput (ps_engine s)))"
proof -
  have si: "sys_inv s" using pool_reach_inv [OF assms(1)] .
  then have all: "pc = HP_Exit" if "pc \<in> set (ps_pcs s)" for pc
    using that assms(2) by (auto simp: sys_inv_def at_def in_set_conv_nth)
  have "ps_pcs s \<noteq> []" using si assms(2) by (auto simp: sys_inv_def in_stop_def)
  with all have "HP_Exit \<in> set (ps_pcs s)" by (cases "ps_pcs s") auto
  with si have "hashInput (ps_engine s) = []" by (auto simp: sys_inv_def)
  with answered_all [OF assms(1)] all show ?thesis by blast
qed

definition stopping :: "hpc \<Rightarrow> hmpc \<Rightarrow> pool_sys" where
  "stopping pc m = \<lparr>ps_engine = (startHashing 1 new_engine)\<lparr>hashRunning := False\<rparr>, ps_pcs = [pc], ps_main = m,
     ps_enqueued = [], ps_drained = []\<rparr>"

lemma stopping_reach: "pool_reach a2 (stopping HP_Exit (HM_Join 1))"
proof -
  have "pool_reach a2 (goto 0 HP_Wait about_to_block)"
    by (rule pool_reach.step [OF about_to_block_reach pool_step.sleep]) (simp add: at_def about_to_block_def)
  from pool_reach.call [OF this call_step.stop_set] have "pool_reach a2 (stopping HP_Wait HM_StopNotify)"
    by (simp add: about_to_block_def goto_def startHashing_def new_engine_def stopping_def)
  from pool_reach.step [OF this pool_step.notify_all] have "pool_reach a2 (stopping HP_Relock (HM_Join 0))"
    by (simp add: stopping_def wake_def)
  from pool_reach.step [OF this pool_step.lock [of _ 0]] have "pool_reach a2 (stopping HP_Test (HM_Join 0))"
    by (simp add: stopping_def at_def goto_def input_locked_def)
  from pool_reach.step [OF this pool_step.test_true [of _ 0]] have "pool_reach a2 (stopping HP_Take (HM_Join 0))"
    by (simp add: stopping_def at_def goto_def)
  from pool_reach.step [OF this pool_step.take_exit [of _ 0]] have "pool_reach a2 (stopping HP_Exit (HM_Join 0))"
    by (simp add: stopping_def at_def goto_def startHashing_def new_engine_def)
  from pool_reach.step [OF this pool_step.join [of _ 0]] show ?thesis
    by (simp add: stopping_def at_def)
qed

theorem stopHashing_answers_all_witness:
  "hashInput (ps_engine (stopping HP_Exit (HM_Join 1))) = [] \<and> (\<exists>dn. {#} = mset dn \<and> list_all2 (hash_answer plain_argon2) dn [])"
  using stopHashing_answers_all [OF stopping_reach [of plain_argon2]]
  by (simp add: stopping_def startHashing_def new_engine_def)

text \<open>
  The shutdown can hang, like that of a connection's worker: \<^verbatim>\<open>stopHashing\<close> clears the flag and notifies without the
  mutex, and a thread that has already tested its predicate, but not yet blocked, sleeps through both.
\<close>

theorem stopHashing_lost_wakeup:
  "\<exists>s. pool_reach a2 s \<and> ps_main s = HM_Join 0 \<and> (\<nexists>u. pool_step a2 s u)"
proof -
  let ?s = "about_to_block\<lparr>ps_engine := (ps_engine about_to_block)\<lparr>hashRunning := False\<rparr>, ps_main := HM_StopNotify\<rparr>"
  have "pool_reach a2 ?s"
    using pool_reach.call [OF about_to_block_reach call_step.stop_set]
    by (simp add: about_to_block_def startHashing_def new_engine_def)
  from pool_reach.step [OF this pool_step.notify_all]
  have "pool_reach a2 (?s\<lparr>ps_pcs := [HP_Sleep], ps_main := HM_Join 0\<rparr>)" by (simp add: about_to_block_def wake_def)
  from pool_reach.step [OF this pool_step.sleep [of _ 0]]
  have "pool_reach a2 (goto 0 HP_Wait (?s\<lparr>ps_pcs := [HP_Sleep], ps_main := HM_Join 0\<rparr>))" (is "pool_reach a2 ?t")
    by (simp add: at_def)
  moreover have "\<nexists>u. pool_step a2 ?t u"
    by (auto elim!: pool_step.cases simp: at_def goto_def about_to_block_def)
  ultimately show ?thesis by (intro exI [of _ ?t]) (simp add: goto_def)
qed

end
