(* ===== verification/Registry.thy ===== *)
theory Registry
  imports Prelude "HOL-Library.AList"
begin

text \<open>
  The handle registries of \<^verbatim>\<open>MySQLComponent\<close>: an \<^verbatim>\<open>std::unordered_map<int, T>\<close> and the next free handle.
  A map is an association list, so that code which iterates it has an order to iterate in; nothing proved depends on
  which.  The interface \<open>handle_store\<close> is what a script relies on when it is given a handle, and
  \<open>handle_registry\<close> adds removal.
\<close>

section \<open>The map operations\<close>

text \<open>\<^verbatim>\<open>find\<close>, \<^verbatim>\<open>emplace\<close> (which leaves an existing entry alone), \<^verbatim>\<open>operator[] =\<close> and \<^verbatim>\<open>erase\<close>.\<close>

type_synonym 'a registry = "(int \<times> 'a) list"

definition emplace :: "int \<Rightarrow> 'a \<Rightarrow> 'a registry \<Rightarrow> 'a registry" where
  "emplace h v m = (if map_of m h = None then m @ [(h, v)] else m)"

definition assign :: "int \<Rightarrow> 'a \<Rightarrow> 'a registry \<Rightarrow> 'a registry" where
  "assign h v m = AList.update h v m"

definition erase :: "int \<Rightarrow> 'a registry \<Rightarrow> 'a registry" where
  "erase h m = AList.delete h m"

lemma map_of_emplace [simp, registry_simps]:
  "map_of (emplace h v m) k = (if k = h \<and> map_of m h = None then Some v else map_of m k)"
  by (auto simp: emplace_def map_add_def split: option.splits)

lemma map_of_assign [simp, registry_simps]: "map_of (assign h v m) = (map_of m)(h \<mapsto> v)"
  by (simp add: assign_def update_conv')

lemma map_of_erase [simp, registry_simps]: "map_of (erase h m) = (map_of m)(h := None)"
  by (simp add: erase_def delete_conv')

text \<open>Distinct keys, all between 1 and the next handle.\<close>

definition reg_ok :: "int \<Rightarrow> 'a registry \<Rightarrow> bool" where
  "reg_ok n m \<longleftrightarrow> 0 < n \<and> distinct (map fst m) \<and> (\<forall>h \<in> fst ` set m. 0 < h \<and> h < n)"

lemma reg_ok_fresh: "reg_ok n m \<Longrightarrow> map_of m n = None"
  by (auto simp: reg_ok_def map_of_eq_None_iff)

lemma reg_ok_Nil: "0 < n \<Longrightarrow> reg_ok n []"
  by (simp add: reg_ok_def)

lemma reg_ok_get: "reg_ok n m \<Longrightarrow> map_of m h = Some v \<Longrightarrow> 0 < h \<and> h < n"
  by (force simp: reg_ok_def dest: map_of_SomeD)

lemma reg_ok_emplace: "reg_ok n m \<Longrightarrow> reg_ok (n + 1) (emplace n v m)"
  by (auto simp: reg_ok_def emplace_def map_of_eq_None_iff)

lemma delete_keys_sub: "p \<in> set (AList.delete h m) \<Longrightarrow> fst p \<in> fst ` set m"
  using dom_delete_subset [of h m] by blast

lemma reg_ok_erase: "reg_ok n m \<Longrightarrow> reg_ok n (erase h m)"
  using delete_keys [of h m] by (auto dest!: delete_keys_sub simp: reg_ok_def erase_def distinct_removeAll)

section \<open>The interfaces\<close>

locale handle_store =
  fixes add :: "'x \<Rightarrow> 's \<Rightarrow> int \<times> 's"
    and stored :: "'x \<Rightarrow> 's \<Rightarrow> 'a option"
    and get :: "int \<Rightarrow> 's \<Rightarrow> 'a option"
    and bound :: "'s \<Rightarrow> int"
    and ok :: "'s \<Rightarrow> bool"
  assumes get_bound: "ok s \<Longrightarrow> get h s = Some v \<Longrightarrow> 0 < h \<and> h < bound s"
    and add_null: "stored x s = None \<Longrightarrow> add x s = (0, s)"
    and add_handle: "ok s \<Longrightarrow> stored x s = Some v \<Longrightarrow> fst (add x s) = bound s \<and> 0 < bound s"
    and add_get: "ok s \<Longrightarrow> stored x s = Some v \<Longrightarrow>
      get k (snd (add x s)) = (if k = bound s then Some v else get k s)"
    and add_bound: "ok s \<Longrightarrow> stored x s = Some v \<Longrightarrow> bound (snd (add x s)) = bound s + 1 \<and> ok (snd (add x s))"
begin

lemma add_fresh: "ok s \<Longrightarrow> stored x s = Some v \<Longrightarrow> get (fst (add x s)) s = None \<and> fst (add x s) \<noteq> 0"
  using get_bound [of s "bound s"] add_handle [of s x v] by (cases "get (bound s) s") auto

lemma add_keeps: "ok s \<Longrightarrow> get h s = Some w \<Longrightarrow> get h (snd (add x s)) = Some w"
  using add_null [of x s] add_get [of s x] get_bound [of s h w] by (cases "stored x s") auto

lemma add_ok: "ok s \<Longrightarrow> ok (snd (add x s)) \<and> bound s \<le> bound (snd (add x s))"
  using add_null [of x s] add_bound [of s x] by (cases "stored x s") auto

lemma add_stale: "ok s \<Longrightarrow> h < bound s \<Longrightarrow> get h s = None \<Longrightarrow> get h (snd (add x s)) = None"
  using add_null [of x s] add_get [of s x] by (cases "stored x s") auto

end

datatype 'x reg_op = Reg_Add 'x | Reg_Drop int

fun run_reg :: "('x \<Rightarrow> 's \<Rightarrow> int \<times> 's) \<Rightarrow> (int \<Rightarrow> 's \<Rightarrow> bool \<times> 's) \<Rightarrow> 'x reg_op list \<Rightarrow> 's \<Rightarrow> 's" where
  "run_reg add remove [] s = s"
| "run_reg add remove (Reg_Add x # ops) s = run_reg add remove ops (snd (add x s))"
| "run_reg add remove (Reg_Drop h # ops) s = run_reg add remove ops (snd (remove h s))"

locale handle_registry = handle_store +
  fixes remove
  assumes remove_get: "ok s \<Longrightarrow> get k (snd (remove h s)) = (if k = h then None else get k s)"
    and remove_found: "ok s \<Longrightarrow> fst (remove h s) = (get h s \<noteq> None)"
    and remove_bound: "ok s \<Longrightarrow> bound (snd (remove h s)) = bound s \<and> ok (snd (remove h s))"
begin

lemma stale_stays:
  "ok s \<Longrightarrow> h < bound s \<Longrightarrow> get h s = None \<Longrightarrow> get h (run_reg add remove ops s) = None"
proof (induction ops arbitrary: s)
  case Nil
  then show ?case by simp
next
  case (Cons op ops)
  show ?case
  proof (cases op)
    case (Reg_Add x)
    from add_ok [OF Cons.prems(1), of x] add_stale [OF Cons.prems, of x] Cons.prems(2)
    show ?thesis using Reg_Add by (auto intro!: Cons.IH)
  next
    case (Reg_Drop k)
    from remove_bound [OF Cons.prems(1), of k] remove_get [OF Cons.prems(1), of h k] Cons.prems
    show ?thesis using Reg_Drop by (auto intro!: Cons.IH)
  qed
qed

lemma held_stays:
  "ok s \<Longrightarrow> get h s = Some v \<Longrightarrow> Reg_Drop h \<notin> set ops \<Longrightarrow> get h (run_reg add remove ops s) = Some v"
proof (induction ops arbitrary: s)
  case Nil
  then show ?case by simp
next
  case (Cons op ops)
  show ?case
  proof (cases op)
    case (Reg_Add x)
    from add_ok [OF Cons.prems(1), of x] add_keeps [OF Cons.prems(1,2), of x] Cons.prems(3)
    show ?thesis using Reg_Add by (auto intro!: Cons.IH)
  next
    case (Reg_Drop k)
    from remove_bound [OF Cons.prems(1), of k] remove_get [OF Cons.prems(1), of h k] Cons.prems
    show ?thesis using Reg_Drop by (auto intro!: Cons.IH)
  qed
qed

end

end
