(* ===== verification/Model.thy ===== *)
theory Model
  imports SqlLexer
begin

text \<open>
  The active-record layer, \<^verbatim>\<open>src/Model.hpp\<close> and \<^verbatim>\<open>src/Model.cpp\<close>: the bindings of columns to script
  variables and the four SQL builders.  A bound variable is an address in the script's memory.
\<close>

section \<open>Data\<close>

datatype mtype = MInt | MFloat | MString

record ModelField =
  mf_column :: string
  mf_type :: mtype
  mf_addr :: "nat option"
  mf_maxlen :: int

datatype ModelError = Ok | NoData | Invalid

definition MODEL_OP_FIND :: int where "MODEL_OP_FIND = 1"
definition MODEL_OP_INSERT :: int where "MODEL_OP_INSERT = 2"
definition MODEL_OP_UPDATE :: int where "MODEL_OP_UPDATE = 3"
definition MODEL_OP_DELETE :: int where "MODEL_OP_DELETE = 4"

record Model =
  md_connectionHandle :: int
  md_table :: string
  md_key :: string
  md_fields :: "ModelField list"
  md_lastError :: ModelError

definition new_Model :: "int \<Rightarrow> string \<Rightarrow> Model" where
  "new_Model connectionHandle table = \<lparr>md_connectionHandle = connectionHandle, md_table = table, md_key = [],
     md_fields = [], md_lastError = Ok\<rparr>"

definition setError :: "ModelError \<Rightarrow> Model \<Rightarrow> Model" where
  "setError e m = m\<lparr>md_lastError := e\<rparr>"

section \<open>Bindings\<close>

text \<open>The loop of \<^verbatim>\<open>upsertField\<close>: update the first field of that column, or append one.\<close>

fun upsert_loop :: "string \<Rightarrow> mtype \<Rightarrow> nat option \<Rightarrow> int \<Rightarrow> ModelField list \<Rightarrow> ModelField list" where
  "upsert_loop column t addr maxlen [] = [\<lparr>mf_column = column, mf_type = t, mf_addr = addr, mf_maxlen = maxlen\<rparr>]"
| "upsert_loop column t addr maxlen (f # fs) =
     (if mf_column f = column then f\<lparr>mf_type := t, mf_addr := addr, mf_maxlen := maxlen\<rparr> # fs
      else f # upsert_loop column t addr maxlen fs)"

definition upsertField :: "string \<Rightarrow> mtype \<Rightarrow> nat option \<Rightarrow> int \<Rightarrow> Model \<Rightarrow> Model" where
  "upsertField column t addr maxlen m = m\<lparr>md_fields := upsert_loop column t addr maxlen (md_fields m)\<rparr>"

definition model_bindInt :: "string \<Rightarrow> nat option \<Rightarrow> Model \<Rightarrow> Model" where
  "model_bindInt column addr m = upsertField column MInt addr 0 m"

definition model_bindFloat :: "string \<Rightarrow> nat option \<Rightarrow> Model \<Rightarrow> Model" where
  "model_bindFloat column addr m = upsertField column MFloat addr 0 m"

definition model_bindString :: "string \<Rightarrow> nat option \<Rightarrow> int \<Rightarrow> Model \<Rightarrow> Model" where
  "model_bindString column addr maxlen m = upsertField column MString addr maxlen m"

fun unbind_loop :: "string \<Rightarrow> ModelField list \<Rightarrow> bool \<times> ModelField list" where
  "unbind_loop column [] = (False, [])"
| "unbind_loop column (f # fs) =
     (if mf_column f = column then (True, fs)
      else (let (found, fs') = unbind_loop column fs in (found, f # fs')))"

definition unbind :: "string \<Rightarrow> Model \<Rightarrow> bool \<times> Model" where
  "unbind column m = (let (found, fs) = unbind_loop column (md_fields m) in (found, m\<lparr>md_fields := fs\<rparr>))"

definition clear_fields :: "Model \<Rightarrow> Model" where
  "clear_fields m = m\<lparr>md_fields := []\<rparr>"

definition setKey :: "string \<Rightarrow> Model \<Rightarrow> Model" where
  "setKey column m = m\<lparr>md_key := column\<rparr>"

definition keyField :: "Model \<Rightarrow> ModelField option" where
  "keyField m = (if md_key m = [] then None else List.find (\<lambda>f. mf_column f = md_key m) (md_fields m))"

section \<open>SQL builders\<close>

text \<open>The loops, with the index or flag that decides on the separator, and the strings they append to.\<close>

fun find_cols :: "nat \<Rightarrow> string \<Rightarrow> ModelField list \<Rightarrow> string" where
  "find_cols i sql [] = sql"
| "find_cols i sql (f # fs) =
     find_cols (i + 1) ((if i \<noteq> 0 then sql @ '', '' else sql) @ ident (mf_column f)) fs"

definition buildFind :: "string \<Rightarrow> Model \<Rightarrow> string" where
  "buildFind keyValue m = (if md_key m = [] \<or> md_fields m = [] then []
     else find_cols 0 ''SELECT '' (md_fields m) @ '' FROM '' @ ident (md_table m) @ '' WHERE '' @ ident (md_key m) @
       '' = '' @ keyValue @ '' LIMIT 1'')"

fun insert_loop :: "nat \<Rightarrow> string \<Rightarrow> string \<Rightarrow> (ModelField \<times> string) list \<Rightarrow> string \<times> string" where
  "insert_loop i cols vals [] = (cols, vals)"
| "insert_loop i cols vals ((f, v) # fvs) =
     insert_loop (i + 1) ((if i \<noteq> 0 then cols @ '', '' else cols) @ ident (mf_column f))
       ((if i \<noteq> 0 then vals @ '', '' else vals) @ v) fvs"

definition buildInsert :: "string list \<Rightarrow> Model \<Rightarrow> string" where
  "buildInsert values m = (if md_fields m = [] \<or> length values \<noteq> length (md_fields m) then []
     else (let (cols, vals) = insert_loop 0 [] [] (zip (md_fields m) values) in
       ''INSERT INTO '' @ ident (md_table m) @ '' ('' @ cols @ '') VALUES ('' @ vals @ '')''))"

fun update_loop :: "string \<Rightarrow> bool \<Rightarrow> string \<Rightarrow> (ModelField \<times> string) list \<Rightarrow> string" where
  "update_loop key first sets [] = sets"
| "update_loop key first sets ((f, v) # fvs) =
     (if mf_column f = key then update_loop key first sets fvs
      else update_loop key False ((if first then sets else sets @ '', '') @ ident (mf_column f) @ '' = '' @ v) fvs)"

definition buildUpdate :: "string list \<Rightarrow> string \<Rightarrow> Model \<Rightarrow> string" where
  "buildUpdate values keyValue m =
     (if md_key m = [] \<or> md_fields m = [] \<or> length values \<noteq> length (md_fields m) then []
      else (let sets = update_loop (md_key m) True [] (zip (md_fields m) values) in
        if sets = [] then []
        else ''UPDATE '' @ ident (md_table m) @ '' SET '' @ sets @ '' WHERE '' @ ident (md_key m) @ '' = '' @ keyValue))"

definition buildDelete :: "string \<Rightarrow> Model \<Rightarrow> string" where
  "buildDelete keyValue m = (if md_key m = [] then []
     else ''DELETE FROM '' @ ident (md_table m) @ '' WHERE '' @ ident (md_key m) @ '' = '' @ keyValue)"

section \<open>The loops against joins\<close>

fun join :: "string \<Rightarrow> string list \<Rightarrow> string" where
  "join sep [] = []"
| "join sep [x] = x"
| "join sep (x # y # ys) = x @ sep @ join sep (y # ys)"

definition sep_join :: "bool \<Rightarrow> string list \<Rightarrow> string" where
  "sep_join first xs = (if xs = [] \<or> first then join '', '' xs else '', '' @ join '', '' xs)"

lemma sep_join_simps [simp]:
  "sep_join b [] = []"
  "sep_join True (x # xs) = x @ sep_join False xs"
  "sep_join False (x # xs) = '', '' @ x @ sep_join False xs"
  by (cases xs; simp add: sep_join_def)+

lemma find_cols_join: "find_cols i sql fs = sql @ sep_join (i = 0) (map (ident \<circ> mf_column) fs)"
  by (induction i sql fs rule: find_cols.induct) auto

lemma insert_loop_join:
  "insert_loop i cols vals fvs =
     (cols @ sep_join (i = 0) (map (ident \<circ> mf_column \<circ> fst) fvs), vals @ sep_join (i = 0) (map snd fvs))"
  by (induction i cols vals fvs rule: insert_loop.induct) auto

definition assignments :: "string \<Rightarrow> (ModelField \<times> string) list \<Rightarrow> string list" where
  "assignments key fvs =
     map (\<lambda>(f, v). ident (mf_column f) @ '' = '' @ v) (filter (\<lambda>(f, v). mf_column f \<noteq> key) fvs)"

lemma assignments_Nil [simp]: "assignments key [] = []"
  by (simp add: assignments_def)

lemma update_loop_join: "update_loop key first sets fvs = sets @ sep_join first (assignments key fvs)"
  by (induction key first sets fvs rule: update_loop.induct) (auto simp: assignments_def)

lemma map_fst_zip_comp: "length xs = length ys \<Longrightarrow> map (f \<circ> g \<circ> fst) (zip xs ys) = map (f \<circ> g) xs"
  by (induction xs ys rule: list_induct2) auto

lemma join_sep_join: "join '', '' xs = sep_join True xs"
  by (simp add: sep_join_def)

lemma sep_join_empty: "sep_join True (assignments key fvs) = [] \<longleftrightarrow> assignments key fvs = []"
  by (cases "assignments key fvs") (auto simp: assignments_def ident_def)

section \<open>Every builder gives a fragment\<close>

lemma fragment_sep_join: "\<forall>x \<in> set xs. fragment x \<Longrightarrow> fragment (sep_join b xs)"
proof (induction xs arbitrary: b)
  case (Cons x xs)
  then show ?case by (cases b) (auto simp: lex_simps plain_def)
qed simp

lemma fragment_assignments:
  "\<forall>v \<in> set (map snd fvs). fragment v \<Longrightarrow> \<forall>x \<in> set (assignments key fvs). fragment x"
proof -
  assume v: "\<forall>v \<in> set (map snd fvs). fragment v"
  then show ?thesis by (auto simp: assignments_def lex_simps plain_def intro!: fragment_append)
qed

lemma buildFind_join:
  "buildFind keyValue m = (if md_key m = [] \<or> md_fields m = [] then []
     else ''SELECT '' @ sep_join True (map (ident \<circ> mf_column) (md_fields m)) @ '' FROM '' @ ident (md_table m) @
       '' WHERE '' @ ident (md_key m) @ '' = '' @ keyValue @ '' LIMIT 1'')"
  by (simp add: buildFind_def find_cols_join)

lemma buildInsert_join:
  "buildInsert values m = (if md_fields m = [] \<or> length values \<noteq> length (md_fields m) then []
     else ''INSERT INTO '' @ ident (md_table m) @ '' ('' @ sep_join True (map (ident \<circ> mf_column) (md_fields m)) @
       '') VALUES ('' @ sep_join True values @ '')'')"
  by (simp add: buildInsert_def insert_loop_join map_fst_zip_comp)

lemma buildUpdate_join:
  "buildUpdate values keyValue m =
     (let sets = assignments (md_key m) (zip (md_fields m) values) in
      if md_key m = [] \<or> length values \<noteq> length (md_fields m) \<or> sets = [] then []
      else ''UPDATE '' @ ident (md_table m) @ '' SET '' @ sep_join True sets @ '' WHERE '' @ ident (md_key m) @
        '' = '' @ keyValue)"
  by (auto simp: buildUpdate_def update_loop_join sep_join_empty Let_def)

lemma buildFind_fragment: "fragment keyValue \<Longrightarrow> fragment (buildFind keyValue m)"
  unfolding buildFind_join by (auto simp: lex_simps plain_def intro!: fragment_append fragment_sep_join)

lemma buildInsert_fragment: "\<forall>v \<in> set values. fragment v \<Longrightarrow> fragment (buildInsert values m)"
  unfolding buildInsert_join by (auto simp: lex_simps plain_def intro!: fragment_append fragment_sep_join)

lemma buildUpdate_fragment:
  "\<forall>v \<in> set values. fragment v \<Longrightarrow> fragment keyValue \<Longrightarrow> fragment (buildUpdate values keyValue m)"
proof -
  assume v: "\<forall>v \<in> set values. fragment v" and k: "fragment keyValue"
  have "\<forall>w \<in> set (map snd (zip (md_fields m) values)). fragment w"
    using v by (auto dest: set_zip_rightD)
  from fragment_sep_join [OF fragment_assignments [OF this]] k show ?thesis
    unfolding buildUpdate_join Let_def by (auto simp: lex_simps plain_def intro!: fragment_append)
qed

lemma buildDelete_fragment: "fragment keyValue \<Longrightarrow> fragment (buildDelete keyValue m)"
  unfolding buildDelete_def by (auto simp: lex_simps plain_def intro!: fragment_append)

section \<open>Bindings as a map\<close>

definition bindings :: "Model \<Rightarrow> string \<rightharpoonup> mtype \<times> nat option \<times> int" where
  "bindings m = map_of (map (\<lambda>f. (mf_column f, mf_type f, mf_addr f, mf_maxlen f)) (md_fields m))"

definition distinct_columns :: "Model \<Rightarrow> bool" where
  "distinct_columns m \<longleftrightarrow> distinct (map mf_column (md_fields m))"

lemma upsert_columns:
  "map mf_column (upsert_loop c t a l fs) = map mf_column fs @ (if c \<in> mf_column ` set fs then [] else [c])"
  by (induction fs) auto

lemma upsert_distinct: "distinct_columns m \<Longrightarrow> distinct_columns (upsertField c t a l m)"
  by (auto simp: distinct_columns_def upsertField_def upsert_columns)

lemma unbind_loop_filter:
  "distinct (map mf_column fs) \<Longrightarrow>
     unbind_loop c fs = (c \<in> mf_column ` set fs, filter (\<lambda>f. mf_column f \<noteq> c) fs)"
proof (induction fs)
  case (Cons f fs)
  show ?case
  proof (cases "mf_column f = c")
    case True
    with Cons.prems have "\<forall>g \<in> set fs. mf_column g \<noteq> c" by (auto simp: image_iff)
    with True show ?thesis by simp
  next
    case False
    with Cons show ?thesis by auto
  qed
qed simp

lemma distinct_map_filter_column: "distinct (map mf_column fs) \<Longrightarrow> distinct (map mf_column (filter P fs))"
  by (induction fs) auto

lemma upsert_bindings: "bindings (upsertField c t a l m) = (bindings m)(c \<mapsto> (t, a, l))"
proof -
  have "map_of (map (\<lambda>f. (mf_column f, mf_type f, mf_addr f, mf_maxlen f)) (upsert_loop c t a l fs)) =
      (map_of (map (\<lambda>f. (mf_column f, mf_type f, mf_addr f, mf_maxlen f)) fs))(c \<mapsto> (t, a, l))" for fs
    by (induction fs) (auto simp: fun_upd_twist)
  then show ?thesis by (simp add: bindings_def upsertField_def)
qed

lemma unbind_bindings:
  assumes "distinct_columns m" and "unbind c m = (found, m')"
  shows "bindings m' = (bindings m)(c := None) \<and> found = (bindings m c \<noteq> None) \<and> distinct_columns m'"
proof -
  from assms unbind_loop_filter [of "md_fields m" c]
  have m': "m' = m\<lparr>md_fields := filter (\<lambda>f. mf_column f \<noteq> c) (md_fields m)\<rparr>"
    and f: "found = (c \<in> mf_column ` set (md_fields m))"
    by (auto simp: unbind_def distinct_columns_def)
  have "map_of (map (\<lambda>f. (mf_column f, mf_type f, mf_addr f, mf_maxlen f)) (filter (\<lambda>f. mf_column f \<noteq> c) fs)) =
      (map_of (map (\<lambda>f. (mf_column f, mf_type f, mf_addr f, mf_maxlen f)) fs))(c := None)" for fs
    by (induction fs) (auto simp: fun_upd_twist)
  moreover have "(bindings m c \<noteq> None) = (c \<in> mf_column ` set (md_fields m))"
    by (simp add: bindings_def map_of_eq_None_iff image_image)
  ultimately show ?thesis
    using assms(1) m' f by (simp add: bindings_def distinct_columns_def distinct_map_filter_column)
qed

text \<open>\<open>keyField\<close> finds a binding of the key column exactly when there is one.\<close>

lemma keyField_bindings:
  "keyField m = Some f \<Longrightarrow> md_key m \<noteq> [] \<and> mf_column f = md_key m \<and> f \<in> set (md_fields m)"
  by (auto simp: keyField_def find_Some_iff split: if_splits)

section \<open>Properties\<close>

text \<open>
  The SQL the model layer generates never holds a second statement: for any table, key and column names, however
  hostile, and values that are fragments (a rendered number or an escaped and quoted string), all four builders give
  a fragment, which the injection guard lets through.
\<close>

theorem model_sql_single_statement:
  assumes "\<forall>v \<in> set values. fragment v" and "fragment keyValue"
  shows "\<not> isMultiStatement (buildFind keyValue m) \<and> \<not> isMultiStatement (buildInsert values m) \<and>
    \<not> isMultiStatement (buildUpdate values keyValue m) \<and> \<not> isMultiStatement (buildDelete keyValue m)"
  using assms
  by (simp add: fragment_single buildFind_fragment buildInsert_fragment buildUpdate_fragment buildDelete_fragment)

definition sample_model :: Model where
  "sample_model = setKey ''id'' (model_bindString ''na`me'' (Some 8) 24 (model_bindInt ''id'' (Some 4)
     (new_Model 1 ''users'')))"

theorem model_sql_single_statement_witness:
  "\<not> isMultiStatement (buildUpdate [''7'', ''12''] ''7'' sample_model) \<and>
   buildUpdate [''7'', ''12''] ''7'' sample_model =
     ''UPDATE `users` SET `na``me` = 12 WHERE `id` = 7''"
proof -
  have f: "fragment ''7''" "fragment ''12''" by (simp_all add: lex_simps plain_def)
  then have "\<not> isMultiStatement (buildUpdate [''7'', ''12''] ''7'' sample_model)"
    using model_sql_single_statement [of "[''7'', ''12'']" "''7''" sample_model] by simp
  moreover have "buildUpdate [''7'', ''12''] ''7'' sample_model = ''UPDATE `users` SET `na``me` = 12 WHERE `id` = 7''"
    by (simp add: buildUpdate_def sample_model_def setKey_def model_bindString_def model_bindInt_def upsertField_def
        new_Model_def ident_def)
  ultimately show ?thesis by simp
qed

text \<open>
  An update writes every bound column but the key: the statement is empty exactly when there is no key, the values
  do not match the fields, or nothing but the key is bound; otherwise it assigns to each other column its value, in
  the order of the bindings, and restricts the rows by the key.
\<close>

theorem buildUpdate_assignments:
  "buildUpdate values keyValue m =
     (let sets = map (\<lambda>(f, v). ident (mf_column f) @ '' = '' @ v)
                   (filter (\<lambda>(f, v). mf_column f \<noteq> md_key m) (zip (md_fields m) values)) in
      if md_key m \<noteq> [] \<and> length values = length (md_fields m) \<and> sets \<noteq> []
      then ''UPDATE '' @ ident (md_table m) @ '' SET '' @ join '', '' sets @ '' WHERE '' @ ident (md_key m) @
        '' = '' @ keyValue
      else [])"
  unfolding buildUpdate_join assignments_def join_sep_join Let_def by simp

text \<open>
  C30: the bindings are a map from columns: on a model with one field per column, binding a column sets it and no
  other, unbinding removes it and no other and answers whether it was bound, and both keep one field per column.
\<close>

theorem model_bindings_map:
  assumes "distinct_columns m"
  shows "bindings (upsertField c t a l m) = (bindings m)(c \<mapsto> (t, a, l)) \<and>
    distinct_columns (upsertField c t a l m) \<and> bindings (snd (unbind c m)) = (bindings m)(c := None) \<and>
    fst (unbind c m) = (bindings m c \<noteq> None) \<and> distinct_columns (snd (unbind c m))"
  using unbind_bindings [OF assms, of c "fst (unbind c m)" "snd (unbind c m)"] upsert_bindings [of c t a l m]
    upsert_distinct [OF assms, of c t a l] by simp

theorem model_bindings_map_witness:
  "bindings (snd (unbind ''id'' sample_model)) ''na`me'' = Some (MString, Some 8, 24)"
proof -
  have "distinct_columns sample_model"
    by (simp add: distinct_columns_def sample_model_def setKey_def model_bindString_def model_bindInt_def
        upsertField_def new_Model_def)
  from model_bindings_map [OF this, of "''id''"]
  have "bindings (snd (unbind ''id'' sample_model)) = (bindings sample_model)(''id'' := None)" by simp
  then show ?thesis
    by (simp add: bindings_def sample_model_def setKey_def model_bindString_def model_bindInt_def
        upsertField_def new_Model_def)
qed

end
