(* ===== verification/Component.thy ===== *)
theory Component
  imports Registry Engine Model
begin

text \<open>
  \<^verbatim>\<open>MySQLComponent\<close>, the main thread's state: the registries of connections, workers, options sets, statements,
  models and saved results, the query guards, and the active result.  A worker is seen from here as its connection
  and the jobs it has not finished, in order, which is what \<open>Worker.worker_refines_server\<close> shows it to be; the
  heap of connections and statements is the store of \<open>Query\<close>.
\<close>

section \<open>State\<close>

text \<open>\<open>maxQueriesPerWindow\<close> is the rate limit (0 for none), \<open>rateWindow\<close> its window in milliseconds.\<close>

record QueryGuards =
  maxQueryLength :: nat
  maxQueriesPerWindow :: nat
  rateWindow :: int
  maxPendingQueries :: int

definition default_guards :: QueryGuards where
  "default_guards = \<lparr>maxQueryLength = 1024 * 1024, maxQueriesPerWindow = 0, rateWindow = 1000,
     maxPendingQueries = 0\<rparr>"

datatype GuardReject = NoReject | UnknownHandle | TooLong | RateLimited | TooManyPending | MultiStatement

record conn_worker =
  cw_conn :: nat
  cw_jobs :: "QueryJob list"

text \<open>Time points are nanoseconds of the steady clock.\<close>

record ('m, 'st) component =
  connections :: "nat registry"
  workers :: "conn_worker registry"
  nextHandle :: int
  options :: "ConnectionOptions registry"
  nextOptions :: int
  multiStatementAllowed :: "bool registry"
  guards :: "QueryGuards registry"
  rateLog :: "int list registry"
  engine :: QueryEngine
  activeCache :: "QueryResult option"
  activeResultIndex :: int
  savedCaches :: "QueryResult registry"
  nextCache :: int
  statements :: "nat registry"
  nextStatement :: int
  models :: "Model registry"
  nextModel :: int
  heap :: "('m, 'st) store"

definition new_component :: "('m, 'st) component" where
  "new_component = \<lparr>connections = [], workers = [], nextHandle = 1, options = [], nextOptions = 1,
     multiStatementAllowed = [], guards = [], rateLog = [], engine = new_engine, activeCache = None,
     activeResultIndex = 0, savedCaches = [], nextCache = 1, statements = [], nextStatement = 1, models = [],
     nextModel = 1, heap = \<lparr>so_conns = Map.empty, so_stmts = Map.empty\<rparr>\<rparr>"

section \<open>Options, models, saved results\<close>

definition addOptions :: "('m, 'st) component \<Rightarrow> int \<times> ('m, 'st) component" where
  "addOptions c = (nextOptions c,
     c\<lparr>options := emplace (nextOptions c) default_options (options c), nextOptions := nextOptions c + 1\<rparr>)"

definition getOptions :: "int \<Rightarrow> ('m, 'st) component \<Rightarrow> ConnectionOptions option" where
  "getOptions h c = map_of (options c) h"

definition clearOptions :: "('m, 'st) component \<Rightarrow> ('m, 'st) component" where
  "clearOptions c = c\<lparr>options := []\<rparr>"

definition addModel :: "Model option \<Rightarrow> ('m, 'st) component \<Rightarrow> int \<times> ('m, 'st) component" where
  "addModel model c = (case model of
       None \<Rightarrow> (0, c)
     | Some m \<Rightarrow> (nextModel c, c\<lparr>models := emplace (nextModel c) m (models c), nextModel := nextModel c + 1\<rparr>))"

definition getModel :: "int \<Rightarrow> ('m, 'st) component \<Rightarrow> Model option" where
  "getModel h c = map_of (models c) h"

definition removeModel :: "int \<Rightarrow> ('m, 'st) component \<Rightarrow> bool \<times> ('m, 'st) component" where
  "removeModel h c = (map_of (models c) h \<noteq> None, c\<lparr>models := erase h (models c)\<rparr>)"

definition clearModels :: "('m, 'st) component \<Rightarrow> ('m, 'st) component" where
  "clearModels c = c\<lparr>models := []\<rparr>"

definition activeSet :: "('m, 'st) component \<Rightarrow> ResultSet option access" where
  "activeSet c = (case activeCache c of
       None \<Rightarrow> Found None
     | Some r \<Rightarrow> if activeResultIndex c < 0 \<or> resultCount r \<le> activeResultIndex c then Found None
                else access_bind (at_unchecked (qr_sets r) (activeResultIndex c)) (\<lambda>s. Found (Some s)))"

definition setActiveCache :: "QueryResult option \<Rightarrow> int \<Rightarrow> ('m, 'st) component \<Rightarrow> ('m, 'st) component" where
  "setActiveCache result resultIndex c = c\<lparr>activeCache := result, activeResultIndex := resultIndex\<rparr>"

definition clearActiveCache :: "('m, 'st) component \<Rightarrow> ('m, 'st) component" where
  "clearActiveCache c = c\<lparr>activeCache := None, activeResultIndex := 0\<rparr>"

definition setActiveResultIndex :: "int \<Rightarrow> ('m, 'st) component \<Rightarrow> bool \<times> ('m, 'st) component" where
  "setActiveResultIndex index c = (case activeCache c of
       None \<Rightarrow> (False, c)
     | Some r \<Rightarrow> if index < 0 \<or> resultCount r \<le> index then (False, c)
                else (True, c\<lparr>activeResultIndex := index\<rparr>))"

definition saveActiveCache :: "('m, 'st) component \<Rightarrow> int \<times> ('m, 'st) component" where
  "saveActiveCache c = (case activeCache c of
       None \<Rightarrow> (0, c)
     | Some r \<Rightarrow> (nextCache c, c\<lparr>savedCaches := emplace (nextCache c) r (savedCaches c),
                               nextCache := nextCache c + 1\<rparr>))"

definition activateSavedCache :: "int \<Rightarrow> ('m, 'st) component \<Rightarrow> bool \<times> ('m, 'st) component" where
  "activateSavedCache cacheId c = (case map_of (savedCaches c) cacheId of
       None \<Rightarrow> (False, c)
     | Some r \<Rightarrow> (True, c\<lparr>activeCache := Some r, activeResultIndex := 0\<rparr>))"

definition deleteSavedCache :: "int \<Rightarrow> ('m, 'st) component \<Rightarrow> bool \<times> ('m, 'st) component" where
  "deleteSavedCache cacheId c = (map_of (savedCaches c) cacheId \<noteq> None, c\<lparr>savedCaches := erase cacheId (savedCaches c)\<rparr>)"

definition isValidCache :: "int \<Rightarrow> ('m, 'st) component \<Rightarrow> bool" where
  "isValidCache cacheId c \<longleftrightarrow> map_of (savedCaches c) cacheId \<noteq> None"

section \<open>Guards and enqueueing\<close>

definition getConnection :: "int \<Rightarrow> ('m, 'st) component \<Rightarrow> nat option" where
  "getConnection h c = map_of (connections c) h"

text \<open>The loop of \<^verbatim>\<open>connectionHandleOf\<close>: the first handle that owns this address, or 0.\<close>

fun owner_loop :: "nat \<Rightarrow> nat registry \<Rightarrow> int" where
  "owner_loop a [] = 0"
| "owner_loop a ((handle, owned) # m) = (if owned = a then handle else owner_loop a m)"

definition connectionHandleOf :: "nat option \<Rightarrow> ('m, 'st) component \<Rightarrow> int" where
  "connectionHandleOf conn c = (case conn of None \<Rightarrow> 0 | Some a \<Rightarrow> owner_loop a (connections c))"

definition guardsFor :: "int \<Rightarrow> ('m, 'st) component \<Rightarrow> QueryGuards option" where
  "guardsFor h c = map_of (guards c) h"

definition multiStatementsAllowed :: "int \<Rightarrow> ('m, 'st) component \<Rightarrow> bool" where
  "multiStatementsAllowed h c = (map_of (multiStatementAllowed c) h = Some True)"

text \<open>\<^verbatim>\<open>operator[]\<close>: the entry, created with the default if absent.\<close>

definition entry_or :: "'a \<Rightarrow> int \<Rightarrow> 'a registry \<Rightarrow> 'a" where
  "entry_or d h m = (case map_of m h of None \<Rightarrow> d | Some v \<Rightarrow> v)"

text \<open>
  \<^verbatim>\<open>checkGuards\<close>: \<open>now\<close> is the clock's reading and \<open>pend\<close> what the worker's pending counter reads
  (\<open>Worker.worker_pending_exact\<close>).  The answer is \<open>NoReject\<close> for a job that may pass.
\<close>

definition checkGuards ::
    "int \<Rightarrow> int \<Rightarrow> QueryJob \<Rightarrow> ('m, 'st) component \<Rightarrow> GuardReject \<times> ('m, 'st) component" where
  "checkGuards now pend job c0 =
     (let handle = qj_connectionHandle job;
          g = entry_or default_guards handle (guards c0);
          c = c0\<lparr>guards := emplace handle default_guards (guards c0)\<rparr>
      in if qj_statement job = None \<and> maxQueryLength g \<noteq> 0 \<and> maxQueryLength g < length (qj_sql job)
         then (TooLong, c)
         else if qj_statement job = None \<and> map_of (multiStatementAllowed c) handle \<noteq> Some True \<and>
                 isMultiStatement (qj_sql job)
         then (MultiStatement, c)
         else if maxPendingQueries g \<noteq> 0 \<and> maxPendingQueries g \<le> pend
         then (TooManyPending, c)
         else if maxQueriesPerWindow g \<noteq> 0
         then (let cutoff = now - rateWindow g * 1000000;
                   log = dropWhile (\<lambda>t. t < cutoff) (entry_or [] handle (rateLog c))
               in if maxQueriesPerWindow g \<le> length log
                  then (RateLimited, c\<lparr>rateLog := assign handle log (rateLog c)\<rparr>)
                  else (NoReject, c\<lparr>rateLog := assign handle (log @ [now]) (rateLog c)\<rparr>))
         else (NoReject, c))"

definition push_worker :: "int \<Rightarrow> conn_worker \<Rightarrow> QueryJob \<Rightarrow> ('m, 'st) component \<Rightarrow> ('m, 'st) component" where
  "push_worker h w job c = c\<lparr>workers := assign h (w\<lparr>cw_jobs := cw_jobs w @ [job]\<rparr>) (workers c)\<rparr>"

definition enqueueJob ::
    "int \<Rightarrow> int \<Rightarrow> QueryJob \<Rightarrow> ('m, 'st) component \<Rightarrow> GuardReject \<times> ('m, 'st) component" where
  "enqueueJob now pend job c = (case map_of (workers c) (qj_connectionHandle job) of
       None \<Rightarrow> (UnknownHandle, c)
     | Some w \<Rightarrow> (let (r, c') = checkGuards now pend job c in
         if r \<noteq> NoReject then (r, c') else (NoReject, push_worker (qj_connectionHandle job) w job c')))"

text \<open>\<^verbatim>\<open>mysql_set_limit\<close>.\<close>

definition setLimit :: "int \<Rightarrow> int \<Rightarrow> int \<Rightarrow> ('m, 'st) component \<Rightarrow> bool \<times> ('m, 'st) component" where
  "setLimit handle type value c = (case guardsFor handle c of
       None \<Rightarrow> (False, c)
     | Some g \<Rightarrow> if value < 0 then (False, c)
        else if type = 0 then (True, c\<lparr>guards := assign handle (g\<lparr>maxQueryLength := nat value\<rparr>) (guards c)\<rparr>)
        else if type = 1 then (True, c\<lparr>guards := assign handle (g\<lparr>maxPendingQueries := value\<rparr>) (guards c)\<rparr>)
        else if type = 2 then (True, c\<lparr>guards := assign handle
               (g\<lparr>maxQueriesPerWindow := nat value, rateWindow := 1000\<rparr>) (guards c)\<rparr>)
        else (False, c))"

section \<open>Workers at work\<close>

text \<open>
  A worker executing jobs in order: what it hands to a waiting caller (the last promise filled), the completed
  queue, and the heap.  \<open>elapsed\<close> is the time each job takes.
\<close>

fun run_jobs ::
    "'m client \<Rightarrow> ('m, 'st) stmt_client \<Rightarrow> (QueryJob \<Rightarrow> int) \<Rightarrow> nat \<Rightarrow> QueryJob list
      \<Rightarrow> QueryJob option \<times> QueryEngine \<times> ('m, 'st) store
      \<Rightarrow> (QueryJob option \<times> QueryEngine \<times> ('m, 'st) store) access option" where
  "run_jobs api sapi elapsed a [] st = Some (Found st)"
| "run_jobs api sapi elapsed a (j # js) (p, e, s) =
     (case process_job api sapi (elapsed j) (Some a) j s of
       None \<Rightarrow> None
     | Some (Found (d, s')) \<Rightarrow> run_jobs api sapi elapsed a js (case d of
           Dropped \<Rightarrow> (p, e, s')
         | ToPromise k \<Rightarrow> (Some k, e, s')
         | ToSink k \<Rightarrow> (p, push_completed k e, s'))
     | Some _ \<Rightarrow> Some Undefined_Behaviour)"

text \<open>The worker of a handle executes the first \<open>n\<close> of its jobs.\<close>

definition work_off ::
    "'m client \<Rightarrow> ('m, 'st) stmt_client \<Rightarrow> (QueryJob \<Rightarrow> int) \<Rightarrow> int \<Rightarrow> conn_worker \<Rightarrow> nat \<Rightarrow> ('m, 'st) component
      \<Rightarrow> (QueryJob option \<times> ('m, 'st) component) access option" where
  "work_off api sapi elapsed h w n c =
     map_option (\<lambda>r. access_bind r (\<lambda>(p, e, s). Found (p, c\<lparr>engine := e, heap := s,
         workers := assign h (w\<lparr>cw_jobs := drop n (cw_jobs w)\<rparr>) (workers c)\<rparr>)))
       (run_jobs api sapi elapsed (cw_conn w) (take n (cw_jobs w)) (None, engine c, heap c))"

text \<open>
  \<^verbatim>\<open>runJobSync\<close>: the guards, then the job behind those queued, then everything up to it executed.  A worker in the
  registry is running, so the early exit of \<^verbatim>\<open>runSync\<close> on a stopped worker is not taken.
\<close>

definition runJobSync ::
    "'m client \<Rightarrow> ('m, 'st) stmt_client \<Rightarrow> (QueryJob \<Rightarrow> int) \<Rightarrow> int \<Rightarrow> int \<Rightarrow> QueryJob \<Rightarrow> ('m, 'st) component
      \<Rightarrow> (QueryJob option \<times> GuardReject \<times> ('m, 'st) component) access option" where
  "runJobSync api sapi elapsed now pend job c = (case map_of (workers c) (qj_connectionHandle job) of
       None \<Rightarrow> Some (Found (None, UnknownHandle, c))
     | Some w \<Rightarrow> (let (r, c') = checkGuards now pend job c in
         if r \<noteq> NoReject then Some (Found (None, r, c'))
         else let w' = w\<lparr>cw_jobs := cw_jobs w @ [job\<lparr>qj_syncSignal := True\<rparr>]\<rparr> in
           map_option (\<lambda>x. access_bind x (\<lambda>(p, c''). Found (p, NoReject, c'')))
             (work_off api sapi elapsed (qj_connectionHandle job) w' (length (cw_jobs w')) c')))"

text \<open>\<^verbatim>\<open>stop\<close> on the worker of a handle drains it (\<open>Worker.stop_drains\<close>).\<close>

definition stop_worker ::
    "'m client \<Rightarrow> ('m, 'st) stmt_client \<Rightarrow> (QueryJob \<Rightarrow> int) \<Rightarrow> int \<Rightarrow> conn_worker \<Rightarrow> ('m, 'st) component
      \<Rightarrow> ('m, 'st) component access option" where
  "stop_worker api sapi elapsed h w c =
     map_option (\<lambda>r. access_bind r (\<lambda>(p, c'). Found c')) (work_off api sapi elapsed h w (length (cw_jobs w)) c)"

section \<open>Statements\<close>

definition addStatement :: "nat option \<Rightarrow> ('m, 'st) component \<Rightarrow> int \<times> ('m, 'st) component" where
  "addStatement stmt c = (case stmt of
       None \<Rightarrow> (0, c)
     | Some a \<Rightarrow> (nextStatement c, c\<lparr>statements := emplace (nextStatement c) a (statements c),
                                    nextStatement := nextStatement c + 1\<rparr>))"

definition getStatement :: "int \<Rightarrow> ('m, 'st) component \<Rightarrow> nat option" where
  "getStatement h c = map_of (statements c) h"

definition put_stmt :: "nat \<Rightarrow> 'st PreparedStatement option \<Rightarrow> ('m, 'st) component \<Rightarrow> ('m, 'st) component" where
  "put_stmt a p c = c\<lparr>heap := (heap c)\<lparr>so_stmts := (so_stmts (heap c))(a := p)\<rparr>\<rparr>"

definition put_conn :: "nat \<Rightarrow> 'm Connection option \<Rightarrow> ('m, 'st) component \<Rightarrow> ('m, 'st) component" where
  "put_conn a conn c = c\<lparr>heap := (heap c)\<lparr>so_conns := (so_conns (heap c))(a := conn)\<rparr>\<rparr>"

text \<open>
  \<^verbatim>\<open>removeStatement\<close>: out of the registry, then a teardown job on the worker of the connection it points to, or
  destruction on the spot when that connection is not registered.
\<close>

definition removeStatement :: "int \<Rightarrow> ('m, 'st) component \<Rightarrow> (bool \<times> ('m, 'st) component) access" where
  "removeStatement handle c = (case map_of (statements c) handle of
       None \<Rightarrow> Found (False, c)
     | Some a \<Rightarrow> (let c' = c\<lparr>statements := erase handle (statements c)\<rparr> in
         case so_stmts (heap c) a of
           None \<Rightarrow> Undefined_Behaviour
         | Some p \<Rightarrow> (let connHandle = connectionHandleOf (ps_conn p) c' in
             case (if connHandle \<noteq> 0 then map_of (workers c') connHandle else None) of
               Some w \<Rightarrow> Found (True, push_worker connHandle w
                 (default_job\<lparr>qj_connectionHandle := connHandle, qj_statementToClose := Some a\<rparr>) c')
             | None \<Rightarrow> Found (True, put_stmt a None c'))))"

fun remove_statements :: "int list \<Rightarrow> ('m, 'st) component \<Rightarrow> ('m, 'st) component access" where
  "remove_statements [] c = Found c"
| "remove_statements (h # hs) c = access_bind (removeStatement h c) (\<lambda>(removed, c'). remove_statements hs c')"

definition clearStatements :: "('m, 'st) component \<Rightarrow> ('m, 'st) component access" where
  "clearStatements c = access_bind (remove_statements (map fst (statements c)) c)
     (\<lambda>c'. Found (c'\<lparr>statements := []\<rparr>))"

section \<open>Connections\<close>

definition addConnection :: "nat option \<Rightarrow> bool \<Rightarrow> ('m, 'st) component \<Rightarrow> int \<times> ('m, 'st) component" where
  "addConnection conn multiStatements c = (case conn of
       None \<Rightarrow> (0, c)
     | Some a \<Rightarrow> (let handle = nextHandle c in
         (handle, c\<lparr>nextHandle := handle + 1, connections := emplace handle a (connections c),
            workers := emplace handle \<lparr>cw_conn = a, cw_jobs = []\<rparr> (workers c),
            multiStatementAllowed := assign handle multiStatements (multiStatementAllowed c),
            guards := assign handle default_guards (guards c)\<rparr>)))"

text \<open>The part of \<^verbatim>\<open>removeConnection\<close> after the worker is gone: the policies, then the connection itself.\<close>

definition drop_connection :: "int \<Rightarrow> ('m, 'st) component \<Rightarrow> bool \<times> ('m, 'st) component" where
  "drop_connection handle c =
     (let c' = c\<lparr>multiStatementAllowed := erase handle (multiStatementAllowed c), guards := erase handle (guards c),
                 rateLog := erase handle (rateLog c)\<rparr>
      in case map_of (connections c) handle of
           None \<Rightarrow> (False, c')
         | Some a \<Rightarrow> (True, put_conn a None (c'\<lparr>connections := erase handle (connections c)\<rparr>)))"

definition removeConnection ::
    "'m client \<Rightarrow> ('m, 'st) stmt_client \<Rightarrow> (QueryJob \<Rightarrow> int) \<Rightarrow> int \<Rightarrow> ('m, 'st) component
      \<Rightarrow> (bool \<times> ('m, 'st) component) access option" where
  "removeConnection api sapi elapsed handle c = (case map_of (workers c) handle of
       None \<Rightarrow> Some (Found (drop_connection handle c))
     | Some w \<Rightarrow> map_option (\<lambda>r. access_bind r (\<lambda>c'. Found (drop_connection handle (c'\<lparr>workers := erase handle (workers c')\<rparr>))))
         (stop_worker api sapi elapsed handle w c))"

fun stop_all ::
    "'m client \<Rightarrow> ('m, 'st) stmt_client \<Rightarrow> (QueryJob \<Rightarrow> int) \<Rightarrow> conn_worker registry \<Rightarrow> ('m, 'st) component
      \<Rightarrow> ('m, 'st) component access option" where
  "stop_all api sapi elapsed [] c = Some (Found c)"
| "stop_all api sapi elapsed ((h, w) # ws) c = (case stop_worker api sapi elapsed h w c of
       None \<Rightarrow> None
     | Some (Found c') \<Rightarrow> stop_all api sapi elapsed ws c'
     | Some _ \<Rightarrow> Some Undefined_Behaviour)"

fun free_conns :: "nat registry \<Rightarrow> ('m, 'st) component \<Rightarrow> ('m, 'st) component" where
  "free_conns [] c = c"
| "free_conns ((h, a) # m) c = free_conns m (put_conn a None c)"

definition clearConnections ::
    "'m client \<Rightarrow> ('m, 'st) stmt_client \<Rightarrow> (QueryJob \<Rightarrow> int) \<Rightarrow> ('m, 'st) component
      \<Rightarrow> ('m, 'st) component access option" where
  "clearConnections api sapi elapsed c =
     map_option (\<lambda>r. access_bind r (\<lambda>c'. Found ((free_conns (connections c') (c'\<lparr>workers := []\<rparr>))
         \<lparr>connections := [], multiStatementAllowed := [], guards := [], rateLog := []\<rparr>)))
       (stop_all api sapi elapsed (workers c) c)"

section \<open>Restart\<close>

definition reset_component ::
    "'m client \<Rightarrow> ('m, 'st) stmt_client \<Rightarrow> (QueryJob \<Rightarrow> int) \<Rightarrow> ('m, 'st) component
      \<Rightarrow> ('m, 'st) component access option" where
  "reset_component api sapi elapsed c =
     (let c = (clearActiveCache c)\<lparr>savedCaches := [], nextCache := 1\<rparr> in
      case clearStatements c of
        Found c \<Rightarrow> (let c = (clearModels (c\<lparr>nextStatement := 1\<rparr>))\<lparr>nextModel := 1\<rparr> in
          map_option (\<lambda>r. access_bind r (\<lambda>c. Found ((clearOptions c)\<lparr>nextHandle := 1, nextOptions := 1\<rparr>)))
            (clearConnections api sapi elapsed c))
      | _ \<Rightarrow> Some Undefined_Behaviour)"

text \<open>\<^verbatim>\<open>free\<close>, up to the deletion of the component itself.\<close>

definition free_component ::
    "'m client \<Rightarrow> ('m, 'st) stmt_client \<Rightarrow> (QueryJob \<Rightarrow> int) \<Rightarrow> ('m, 'st) component
      \<Rightarrow> ('m, 'st) component access option" where
  "free_component api sapi elapsed c =
     (case clearStatements ((clearActiveCache c)\<lparr>savedCaches := []\<rparr>) of
        Found c \<Rightarrow> map_option (\<lambda>r. access_bind r (\<lambda>c. Found (clearOptions c)))
          (clearConnections api sapi elapsed (clearModels c))
      | _ \<Rightarrow> Some Undefined_Behaviour)"

end
