(* ===== verification/Handles.thy ===== *)
theory Handles
  imports Component
begin

text \<open>
  Every registry of \<^verbatim>\<open>MySQLComponent\<close> keeps the contract of \<open>Registry\<close>: handles are positive, each new one is
  fresh, and a removed one never names another object (until the restart that resets the counters).
\<close>

abbreviation options_ok :: "('m, 'st) component \<Rightarrow> bool" where
  "options_ok c \<equiv> reg_ok (nextOptions c) (options c)"

abbreviation models_ok :: "('m, 'st) component \<Rightarrow> bool" where
  "models_ok c \<equiv> reg_ok (nextModel c) (models c)"

abbreviation caches_ok :: "('m, 'st) component \<Rightarrow> bool" where
  "caches_ok c \<equiv> reg_ok (nextCache c) (savedCaches c)"

abbreviation statements_ok :: "('m, 'st) component \<Rightarrow> bool" where
  "statements_ok c \<equiv> reg_ok (nextStatement c) (statements c)"

abbreviation connections_ok :: "('m, 'st) component \<Rightarrow> bool" where
  "connections_ok c \<equiv> reg_ok (nextHandle c) (connections c)"

lemmas reg_ok_rules = reg_ok_get reg_ok_emplace reg_ok_erase reg_ok_fresh

lemma reg_ok_pos: "reg_ok n m \<Longrightarrow> 0 < n"
  by (simp add: reg_ok_def)

definition add_options_set :: "unit \<Rightarrow> ('m, 'st) component \<Rightarrow> int \<times> ('m, 'st) component" where
  "add_options_set u c = addOptions c"

definition retain_result :: "unit \<Rightarrow> ('m, 'st) component \<Rightarrow> int \<times> ('m, 'st) component" where
  "retain_result u c = saveActiveCache c"

definition getSaved :: "int \<Rightarrow> ('m, 'st) component \<Rightarrow> QueryResult option" where
  "getSaved h c = map_of (savedCaches c) h"

definition register_connection :: "nat option \<times> bool \<Rightarrow> ('m, 'st) component \<Rightarrow> int \<times> ('m, 'st) component" where
  "register_connection x c = addConnection (fst x) (snd x) c"

lemmas registry_defs = addOptions_def getOptions_def addModel_def getModel_def removeModel_def saveActiveCache_def
  deleteSavedCache_def addStatement_def getStatement_def addConnection_def getConnection_def drop_connection_def
  put_conn_def add_options_set_def retain_result_def getSaved_def register_connection_def

interpretation option_handles: handle_store add_options_set "\<lambda>u c. Some default_options" getOptions nextOptions options_ok
  by unfold_locales (auto simp: registry_defs reg_ok_rules reg_ok_pos)

interpretation model_handles: handle_registry addModel "\<lambda>m c. m" getModel nextModel models_ok removeModel
  by unfold_locales (auto simp: registry_defs reg_ok_rules reg_ok_pos)

interpretation cache_handles: handle_registry retain_result "\<lambda>u c. activeCache c" getSaved nextCache caches_ok
  deleteSavedCache
  by unfold_locales (auto simp: registry_defs reg_ok_rules reg_ok_pos)

interpretation statement_handles: handle_store addStatement "\<lambda>a c. a" getStatement nextStatement statements_ok
  by unfold_locales (auto simp: registry_defs reg_ok_rules reg_ok_pos)

interpretation connection_handles: handle_registry register_connection "\<lambda>x c. fst x" getConnection nextHandle
  connections_ok drop_connection
  by unfold_locales
    (auto simp: registry_defs reg_ok_rules reg_ok_pos Let_def fun_upd_def split: option.splits)

section \<open>The reverse lookup\<close>

lemma owner_loop_found: "owner_loop a m = h \<Longrightarrow> h \<noteq> 0 \<Longrightarrow> distinct (map fst m) \<Longrightarrow> map_of m h = Some a"
proof (induction a m rule: owner_loop.induct)
  case (2 a handle owned m)
  then show ?case
    by (cases "owned = a") (auto simp: image_iff dest: map_of_SomeD)
qed simp

lemma owner_loop_none:
  "\<forall>h \<in> fst ` set m. 0 < h \<Longrightarrow> (owner_loop a m = 0) = (a \<notin> snd ` set m)"
  by (induction a m rule: owner_loop.induct) (auto simp: image_iff)

text \<open>Where no connection is registered under two handles, the answer does not depend on the map's order.\<close>

lemma owner_loop_unique:
  assumes ok: "reg_ok n m" and inj: "\<And>h k. map_of m h = Some a \<Longrightarrow> map_of m k = Some a \<Longrightarrow> h = k"
    and h: "map_of m h = Some a"
  shows "owner_loop a m = h"
proof -
  from h have "a \<in> snd ` set m" by (force dest: map_of_SomeD)
  with ok have "owner_loop a m \<noteq> 0" by (subst owner_loop_none) (auto simp: reg_ok_def)
  with ok have "map_of m (owner_loop a m) = Some a"
    by (intro owner_loop_found) (auto simp: reg_ok_def)
  with inj h show ?thesis by blast
qed

section \<open>Properties\<close>

text \<open>
  A destroyed model's handle is dead for good: once a handle that was given out names no model, no sequence of
  creations and destructions makes it name one again, so a script's stale handle never reaches another model.
\<close>

theorem model_handle_never_reused:
  assumes "models_ok c" and "h < nextModel c" and "getModel h c = None"
  shows "getModel h (run_reg addModel removeModel ops c) = None"
  using assms by (rule model_handles.stale_stays)

definition two_models :: "(nat, nat) component" where
  "two_models = new_component\<lparr>models := [(2, new_Model 1 ''b'')], nextModel := 3\<rparr>"

theorem model_handle_never_reused_witness:
  "getModel 1 (run_reg addModel removeModel [Reg_Add (Some (new_Model 1 ''c'')), Reg_Drop 2] two_models) = None"
  using model_handle_never_reused [of two_models 1 "[Reg_Add (Some (new_Model 1 ''c'')), Reg_Drop 2]"]
  by (simp add: two_models_def new_component_def reg_ok_def getModel_def)

text \<open>
  C35: a retained result stays what it is until it is released: whatever else is retained or released meanwhile,
  activating its handle makes exactly that result the active one, with the first result set selected.
\<close>

theorem retained_result_kept:
  assumes "caches_ok c" and "getSaved h c = Some r" and "Reg_Drop h \<notin> set ops"
  shows "activateSavedCache h (run_reg retain_result deleteSavedCache ops c) =
    (True, setActiveCache (Some r) 0 (run_reg retain_result deleteSavedCache ops c))"
  using cache_handles.held_stays [OF assms]
  by (simp add: activateSavedCache_def getSaved_def setActiveCache_def)

definition one_saved :: "(nat, nat) component" where
  "one_saved = new_component\<lparr>savedCaches := [(1, fresh_result)], nextCache := 2\<rparr>"

theorem retained_result_kept_witness:
  "activateSavedCache 1 (run_reg retain_result deleteSavedCache [Reg_Drop 5] one_saved) =
     (True, setActiveCache (Some fresh_result) 0 (run_reg retain_result deleteSavedCache [Reg_Drop 5] one_saved))"
  using retained_result_kept [of one_saved 1 fresh_result "[Reg_Drop 5]"]
  by (simp add: one_saved_def new_component_def reg_ok_def getSaved_def)

text \<open>
  Handles are never null and never shared: registering a connection gives a positive handle that named no
  connection before, under which that connection is found, and leaves every other handle as it was.
\<close>

theorem connection_handle_fresh:
  assumes "connections_ok c"
  shows "case addConnection (Some a) multi c of (h, c') \<Rightarrow>
    0 < h \<and> getConnection h c = None \<and> connections_ok c' \<and>
    getConnection k c' = (if k = h then Some a else getConnection k c)"
  using connection_handles.add_handle [OF assms, of "(Some a, multi)" a]
    connection_handles.add_fresh [OF assms, of "(Some a, multi)" a]
    connection_handles.add_get [OF assms, of "(Some a, multi)" a k]
    connection_handles.add_bound [OF assms, of "(Some a, multi)" a]
  by (cases "addConnection (Some a) multi c") (auto simp: register_connection_def)

theorem connection_handle_fresh_witness:
  "getConnection 1 (snd (addConnection (Some 7) False (new_component :: (nat, nat) component))) = Some 7"
  using connection_handle_fresh [of "new_component :: (nat, nat) component" 1 7 False]
  by (simp add: reg_ok_def new_component_def addConnection_def)

end
