(* ===== verification/Guards.thy ===== *)
theory Guards
  imports Handles
begin

text \<open>
  What the query guards of \<^verbatim>\<open>MySQLComponent::checkGuards\<close> guarantee: an accepted job passed every enabled
  guard, a rejected one never reaches a worker, and the sliding-window rate limit holds over any sequence of calls.
\<close>

section \<open>One check\<close>

lemma checkGuards_frame:
  assumes "checkGuards now pend job c = (r, c')"
  shows "workers c' = workers c \<and> heap c' = heap c \<and> connections c' = connections c \<and> statements c' = statements c \<and>
    engine c' = engine c \<and> nextHandle c' = nextHandle c \<and> nextStatement c' = nextStatement c"
  using assms by (auto simp: checkGuards_def Let_def split: if_splits)

lemma checkGuards_passed:
  assumes "checkGuards now pend job c = (NoReject, c')"
  defines "g \<equiv> entry_or default_guards (qj_connectionHandle job) (guards c)"
  shows "qj_statement job = None \<Longrightarrow> maxQueryLength g = 0 \<or> length (qj_sql job) \<le> maxQueryLength g"
    and "qj_statement job = None \<Longrightarrow> multiStatementsAllowed (qj_connectionHandle job) c \<or> \<not> isMultiStatement (qj_sql job)"
    and "maxPendingQueries g = 0 \<or> pend < maxPendingQueries g"
  using assms by (auto simp: checkGuards_def multiStatementsAllowed_def Let_def split: if_splits)

section \<open>The sliding window over a sequence of calls\<close>

text \<open>
  Calls on one connection, as times, pending counts and jobs: the times accepted, in order, and the state after.
\<close>

fun check_run ::
    "(int \<times> int \<times> QueryJob) list \<Rightarrow> ('m, 'st) component \<Rightarrow> int list \<times> ('m, 'st) component" where
  "check_run [] c = ([], c)"
| "check_run ((now, pend, job) # calls) c = (case checkGuards now pend job c of (r, c') \<Rightarrow>
     (case check_run calls c' of (acc, c'') \<Rightarrow> ((if r = NoReject then [now] else []) @ acc, c'')))"

text \<open>
  \<open>spaced w n ts\<close>: of any \<open>n + 1\<close> consecutive times in \<open>ts\<close> the last is more than \<open>w\<close> after the first, so
  no window of that length holds more than \<open>n\<close> of them.
\<close>

definition spaced :: "int \<Rightarrow> nat \<Rightarrow> int list \<Rightarrow> bool" where
  "spaced w n ts \<longleftrightarrow> (\<forall>i. i + n < length ts \<longrightarrow> ts ! i + w < ts ! (i + n))"

text \<open>
  What the log says of the times accepted so far: it is what remains of them after a prefix older than the last
  call's window has been dropped.
\<close>

definition log_inv :: "int \<Rightarrow> int \<Rightarrow> int list \<Rightarrow> int list \<Rightarrow> bool" where
  "log_inv w prev acc log \<longleftrightarrow> (\<exists>old. acc = old @ log \<and> (\<forall>t \<in> set old. t + w < prev))"

lemma dropWhile_split:
  "\<exists>old. log = old @ dropWhile P log \<and> (\<forall>t \<in> set old. P t)"
  by (metis takeWhile_dropWhile_id set_takeWhileD)

lemma log_inv_prune:
  assumes "log_inv w prev acc log" and "prev \<le> now"
  shows "log_inv w now acc (dropWhile (\<lambda>t. t < now - w) log)"
proof -
  from assms(1) obtain old where old: "acc = old @ log" "\<forall>t \<in> set old. t + w < prev"
    by (auto simp: log_inv_def)
  obtain old' where old': "log = old' @ dropWhile (\<lambda>t. t < now - w) log" "\<forall>t \<in> set old'. t < now - w"
    using dropWhile_split [of log "\<lambda>t. t < now - w"] by blast
  have "acc = (old @ old') @ dropWhile (\<lambda>t. t < now - w) log"
    using old(1) old'(1) by (metis append.assoc)
  moreover have "\<forall>t \<in> set (old @ old'). t + w < now"
    using old(2) old'(2) assms(2) by auto
  ultimately show ?thesis unfolding log_inv_def by blast
qed

lemma spaced_snoc:
  assumes "spaced w n acc" and "log_inv w now acc log" and "length log < n"
  shows "spaced w n (acc @ [now])"
proof -
  from assms(2) obtain old where old: "acc = old @ log" "\<forall>t \<in> set old. t + w < now"
    by (auto simp: log_inv_def)
  show ?thesis
    unfolding spaced_def
  proof (intro allI impI)
    fix i assume i: "i + n < length (acc @ [now])"
    show "(acc @ [now]) ! i + w < (acc @ [now]) ! (i + n)"
    proof (cases "i + n < length acc")
      case True
      with assms(1) show ?thesis by (simp add: spaced_def nth_append)
    next
      case False
      with i have e: "i + n = length acc" by simp
      with assms(3) old(1) have "i < length old" by simp
      with old have "acc ! i + w < now" by (simp add: nth_append)
      with e assms(3) show ?thesis by (simp add: nth_append)
    qed
  qed
qed

lemma log_inv_snoc: "log_inv w now acc log \<Longrightarrow> log_inv w now (acc @ [now]) (log @ [now])"
  by (auto simp: log_inv_def)

text \<open>One call on the connection \<open>h\<close> whose guards are \<open>g\<close>, in terms of the log alone.\<close>

lemma checkGuards_log:
  assumes h: "qj_connectionHandle job = h" and g: "map_of (guards c) h = Some g"
    and on: "maxQueriesPerWindow g \<noteq> 0"
    and run: "checkGuards now pend job c = (r, c')"
  shows "map_of (guards c') h = Some g"
    and "r = NoReject \<Longrightarrow> length (dropWhile (\<lambda>t. t < now - rateWindow g * 1000000) (entry_or [] h (rateLog c))) <
           maxQueriesPerWindow g \<and>
         entry_or [] h (rateLog c') =
           dropWhile (\<lambda>t. t < now - rateWindow g * 1000000) (entry_or [] h (rateLog c)) @ [now]"
    and "r \<noteq> NoReject \<Longrightarrow> entry_or [] h (rateLog c') = entry_or [] h (rateLog c) \<or>
         entry_or [] h (rateLog c') = dropWhile (\<lambda>t. t < now - rateWindow g * 1000000) (entry_or [] h (rateLog c))"
  using assms by (auto simp: checkGuards_def entry_or_def Let_def split: if_splits)

lemma log_inv_later: "log_inv w prev acc log \<Longrightarrow> prev \<le> now \<Longrightarrow> log_inv w now acc log"
  by (force simp: log_inv_def)

lemma check_run_spaced:
  assumes "check_run calls c = (acc, c')"
    and "\<forall>(now, pend, job) \<in> set calls. qj_connectionHandle job = h"
    and "sorted_wrt (\<le>) (prev # map fst calls)"
    and "map_of (guards c) h = Some g" and "maxQueriesPerWindow g \<noteq> 0"
    and "log_inv (rateWindow g * 1000000) prev acc0 (entry_or [] h (rateLog c))"
    and "spaced (rateWindow g * 1000000) (maxQueriesPerWindow g) acc0"
  shows "spaced (rateWindow g * 1000000) (maxQueriesPerWindow g) (acc0 @ acc)"
  using assms
proof (induction calls arbitrary: c acc prev acc0)
  case Nil
  then show ?case by simp
next
  case (Cons call calls)
  obtain now pend job where call: "call = (now, pend, job)" by (cases call)
  obtain r c1 where one: "checkGuards now pend job c = (r, c1)" by (cases "checkGuards now pend job c")
  obtain acc1 where rest: "check_run calls c1 = (acc1, c')"
      "acc = (if r = NoReject then [now] else []) @ acc1"
    using Cons.prems(1) call one by (auto split: prod.splits)
  let ?w = "rateWindow g * 1000000"
  let ?log = "dropWhile (\<lambda>t. t < now - ?w) (entry_or [] h (rateLog c))"
  have h: "qj_connectionHandle job = h" and hs: "\<forall>(now, pend, job) \<in> set calls. qj_connectionHandle job = h"
    using Cons.prems(2) call by auto
  have le: "prev \<le> now" and sorted: "sorted_wrt (\<le>) (now # map fst calls)"
    using Cons.prems(3) call by auto
  note log = checkGuards_log [OF h Cons.prems(4,5) one]
  have pruned: "log_inv ?w now acc0 ?log"
    using log_inv_prune [OF Cons.prems(6) le] .
  show ?case
  proof (cases "r = NoReject")
    case True
    from spaced_snoc [OF Cons.prems(7) pruned] log(2) [OF True]
    have "spaced ?w (maxQueriesPerWindow g) (acc0 @ [now])" by simp
    moreover from log_inv_snoc [OF pruned] log(2) [OF True]
    have "log_inv ?w now (acc0 @ [now]) (entry_or [] h (rateLog c1))" by simp
    ultimately have "spaced ?w (maxQueriesPerWindow g) ((acc0 @ [now]) @ acc1)"
      using Cons.IH [OF rest(1) hs sorted log(1) Cons.prems(5)] by blast
    with rest(2) True show ?thesis by simp
  next
    case False
    have "log_inv ?w now acc0 (entry_or [] h (rateLog c1))"
      using log(3) [OF False] pruned log_inv_later [OF Cons.prems(6) le] by auto
    from Cons.IH [OF rest(1) hs sorted log(1) Cons.prems(5) this Cons.prems(7)] rest(2) False
    show ?thesis by simp
  qed
qed

section \<open>Enqueueing\<close>

lemma enqueueJob_cases:
  assumes "enqueueJob now pend job c = (r, c')"
  obtains (unknown) "map_of (workers c) (qj_connectionHandle job) = None" "r = UnknownHandle" "c' = c"
    | (rejected) w where "map_of (workers c) (qj_connectionHandle job) = Some w" "r \<noteq> NoReject"
        "checkGuards now pend job c = (r, c')"
    | (accepted) w c1 where "map_of (workers c) (qj_connectionHandle job) = Some w" "r = NoReject"
        "checkGuards now pend job c = (NoReject, c1)" "c' = push_worker (qj_connectionHandle job) w job c1"
  using assms by (auto simp: enqueueJob_def split: option.splits prod.splits if_splits)

section \<open>Properties\<close>

text \<open>
  C27: the rate limit holds: over any sequence of queries on one connection, in the order of time, with a limit of
  \<open>n\<close> per window, of any \<open>n + 1\<close> consecutive accepted queries the last is accepted more than a window after the
  first; so no window ever holds more than \<open>n\<close> accepted queries, whatever the other guards rejected in between.
\<close>

theorem rate_limit_window:
  assumes "check_run calls c = (acc, c')"
    and "\<forall>(now, pend, job) \<in> set calls. qj_connectionHandle job = h" and "sorted (map fst calls)"
    and "guardsFor h c = Some g" and "maxQueriesPerWindow g \<noteq> 0" and "map_of (rateLog c) h = None"
  shows "\<forall>i. i + maxQueriesPerWindow g < length acc \<longrightarrow>
    acc ! i + rateWindow g * 1000000 < acc ! (i + maxQueriesPerWindow g)"
proof (cases calls)
  case Nil
  with assms(1) show ?thesis by simp
next
  case (Cons call rest)
  let ?w = "rateWindow g * 1000000"
  have "sorted_wrt (\<le>) (fst call # map fst calls)"
    using assms(3) Cons by auto
  moreover have "log_inv ?w (fst call) [] (entry_or [] h (rateLog c))"
    using assms(6) by (simp add: log_inv_def entry_or_def)
  moreover have "spaced ?w (maxQueriesPerWindow g) []" by (simp add: spaced_def)
  ultimately have "spaced ?w (maxQueriesPerWindow g) ([] @ acc)"
    using assms(4,5) by (intro check_run_spaced [OF assms(1,2)]) (simp_all add: guardsFor_def)
  then show ?thesis by (simp add: spaced_def)
qed

definition limited :: "(nat, nat) component" where
  "limited = new_component\<lparr>guards := [(1, default_guards\<lparr>maxQueriesPerWindow := 2\<rparr>)]\<rparr>"

definition ping :: QueryJob where
  "ping = default_job\<lparr>qj_connectionHandle := 1, qj_sql := ''SELECT 1''\<rparr>"

lemma ping_run:
  "fst (check_run [(0, 0, ping), (5, 0, ping), (7, 0, ping), (1000000006, 0, ping)] limited) = [0, 5, 1000000006]"
  by (simp add: limited_def ping_def checkGuards_def default_guards_def default_job_def new_component_def entry_or_def
      emplace_def assign_def isMultiStatement_def c_isspace_def Let_def)

theorem rate_limit_window_witness:
  "[0, 5, 1000000006 :: int] ! 0 + 1000 * 1000000 < [0, 5, 1000000006] ! (0 + 2) \<and>
   fst (check_run [(0, 0, ping), (5, 0, ping), (7, 0, ping), (1000000006, 0, ping)] limited) = [0, 5, 1000000006]"
proof -
  let ?calls = "[(0, 0, ping), (5, 0, ping), (7, 0, ping), (1000000006, 0, ping)]"
  have run: "check_run ?calls limited = ([0, 5, 1000000006], snd (check_run ?calls limited))"
    using ping_run by (metis prod.collapse)
  have hs: "\<forall>(now, pend, job) \<in> set ?calls. qj_connectionHandle job = 1"
    by (simp add: ping_def)
  have g: "guardsFor 1 limited = Some (default_guards\<lparr>maxQueriesPerWindow := 2\<rparr>)"
    "map_of (rateLog limited) 1 = None"
    by (simp_all add: limited_def guardsFor_def new_component_def)
  from rate_limit_window [OF run hs _ g(1) _ g(2)]
  have "[0, 5, 1000000006 :: int] ! 0 + 1000 * 1000000 < [0, 5, 1000000006] ! (0 + 2)"
    by (auto simp: default_guards_def)
  with ping_run show ?thesis by blast
qed

text \<open>
  C8: nothing reaches a worker past the guards: a job is enqueued only on a registered connection, at the back of that
  connection's queue and nowhere else, and, unless it executes a prepared statement, only with SQL within the length
  limit that holds no second statement (or on a connection that allows several); a rejected job changes no queue.
\<close>

theorem enqueueJob_guarded:
  assumes "enqueueJob now pend job c = (r, c')"
  defines "h \<equiv> qj_connectionHandle job" and "g \<equiv> entry_or default_guards (qj_connectionHandle job) (guards c)"
  shows "if r = NoReject
    then (\<exists>w. map_of (workers c) h = Some w \<and>
             map_of (workers c') = (map_of (workers c))(h \<mapsto> w\<lparr>cw_jobs := cw_jobs w @ [job]\<rparr>)) \<and>
         (qj_statement job = None \<longrightarrow> (maxQueryLength g = 0 \<or> length (qj_sql job) \<le> maxQueryLength g) \<and>
            (multiStatementsAllowed h c \<or> \<not> isMultiStatement (qj_sql job))) \<and>
         (maxPendingQueries g = 0 \<or> pend < maxPendingQueries g)
    else workers c' = workers c"
  using assms(1)
proof (cases rule: enqueueJob_cases)
  case unknown
  then show ?thesis by simp
next
  case (rejected w)
  with checkGuards_frame [OF rejected(3)] show ?thesis by simp
next
  case (accepted w c1)
  from checkGuards_frame [OF accepted(3)] accepted(4)
  have "map_of (workers c') = (map_of (workers c))(h \<mapsto> w\<lparr>cw_jobs := cw_jobs w @ [job]\<rparr>)"
    by (simp add: push_worker_def h_def)
  with accepted checkGuards_passed [OF accepted(3)] show ?thesis
    by (auto simp: h_def g_def)
qed

theorem enqueueJob_guarded_witness:
  "fst (enqueueJob 0 0 (ping\<lparr>qj_sql := ''SELECT 1; DROP TABLE users''\<rparr>)
      (limited\<lparr>workers := [(1, \<lparr>cw_conn = 3, cw_jobs = []\<rparr>)]\<rparr>)) = MultiStatement \<and>
   workers (snd (enqueueJob 0 0 (ping\<lparr>qj_sql := ''SELECT 1; DROP TABLE users''\<rparr>)
      (limited\<lparr>workers := [(1, \<lparr>cw_conn = 3, cw_jobs = []\<rparr>)]\<rparr>))) = [(1, \<lparr>cw_conn = 3, cw_jobs = []\<rparr>)]"
  (is "fst ?e = _ \<and> _")
proof -
  have "fst ?e = MultiStatement"
    by (simp add: limited_def ping_def enqueueJob_def checkGuards_def default_guards_def default_job_def
        new_component_def entry_or_def emplace_def isMultiStatement_def c_isspace_def Let_def)
  with enqueueJob_guarded [OF prod.collapse [of ?e, symmetric]] show ?thesis by simp
qed

end
