(* ===== verification/Frames.thy ===== *)
theory Frames
  imports Guards
begin

text \<open>
  The operations of the component taken apart into their steps, and what they leave alone.  A frame is a relation between
  two states that holds wherever only bookkeeping differs, composes, and is respected by a worker at work and by the
  freeing of an object; the locale \<open>component_frame\<close> carries it through every operation built from these, up to the
  restart.  It is interpreted here for the script's own objects and the hashing pool (\<open>keeps_script\<close>), and in \<open>Binding\<close>
  for the parameters staged on a statement (\<open>stmt_frame\<close>).
\<close>

declare map_of_eq_Some_iff [simp del] Some_eq_map_of_iff [simp del]

section \<open>The operations taken apart\<close>

text \<open>What a worker at work does to the component.\<close>

lemma work_off_split:
  assumes "work_off api sapi elapsed h w n c = Some (Found (p, c'))"
  obtains e s where "run_jobs api sapi elapsed (cw_conn w) (take n (cw_jobs w)) (None, engine c, heap c) = Some (Found (p, e, s))"
    "c' = c\<lparr>engine := e, heap := s, workers := assign h (w\<lparr>cw_jobs := drop n (cw_jobs w)\<rparr>) (workers c)\<rparr>"
proof -
  obtain x where x: "run_jobs api sapi elapsed (cw_conn w) (take n (cw_jobs w)) (None, engine c, heap c) = Some x"
      "access_bind x (\<lambda>(p, e, s). Found (p, c\<lparr>engine := e, heap := s,
         workers := assign h (w\<lparr>cw_jobs := drop n (cw_jobs w)\<rparr>) (workers c)\<rparr>)) = Found (p, c')"
    using assms by (auto simp: work_off_def)
  then obtain q e s where "x = Found (q, e, s)" by (cases x) auto
  with x that show ?thesis by simp
qed

lemma stop_worker_split:
  assumes "stop_worker api sapi elapsed h w c = Some (Found c')"
  obtains p where "work_off api sapi elapsed h w (length (cw_jobs w)) c = Some (Found (p, c'))"
proof -
  obtain x where x: "work_off api sapi elapsed h w (length (cw_jobs w)) c = Some x"
      "access_bind x (\<lambda>(p, c'). Found c') = Found c'"
    using assms by (auto simp: stop_worker_def)
  then obtain p where "x = Found (p, c')" by (cases x) auto
  with x(1) that show ?thesis by simp
qed

lemma stop_all_split:
  assumes "stop_all api sapi elapsed ((h, w) # ws) c = Some (Found c')"
  obtains c1 where "stop_worker api sapi elapsed h w c = Some (Found c1)" "stop_all api sapi elapsed ws c1 = Some (Found c')"
  using assms by (auto split: option.splits access.splits)

lemma clearConnections_split:
  assumes "clearConnections api sapi elapsed c = Some (Found c')"
  obtains c1 where "stop_all api sapi elapsed (workers c) c = Some (Found c1)"
    "c' = (free_conns (connections c1) (c1\<lparr>workers := []\<rparr>))
       \<lparr>connections := [], multiStatementAllowed := [], guards := [], rateLog := []\<rparr>"
proof -
  obtain x where x: "stop_all api sapi elapsed (workers c) c = Some x"
      "access_bind x (\<lambda>c'. Found ((free_conns (connections c') (c'\<lparr>workers := []\<rparr>))
         \<lparr>connections := [], multiStatementAllowed := [], guards := [], rateLog := []\<rparr>)) = Found c'"
    using assms by (auto simp: clearConnections_def)
  then obtain c1 where "x = Found c1" by (cases x) auto
  with x that show ?thesis by simp
qed

lemma removeConnection_cases:
  assumes "removeConnection api sapi elapsed h c = Some (Found (b, c'))"
  obtains (unknown) "map_of (workers c) h = None" "drop_connection h c = (b, c')"
    | (stopped) w c1 where "map_of (workers c) h = Some w" "stop_worker api sapi elapsed h w c = Some (Found c1)"
        "drop_connection h (c1\<lparr>workers := erase h (workers c1)\<rparr>) = (b, c')"
proof (cases "map_of (workers c) h")
  case None
  with assms unknown show ?thesis by (simp add: removeConnection_def)
next
  case (Some w)
  with assms obtain x where x: "stop_worker api sapi elapsed h w c = Some x"
      "access_bind x (\<lambda>c'. Found (drop_connection h (c'\<lparr>workers := erase h (workers c')\<rparr>))) = Found (b, c')"
    by (auto simp: removeConnection_def)
  then obtain c1 where "x = Found c1" by (cases x) auto
  with Some x stopped show ?thesis by simp
qed

lemma clearStatements_split:
  assumes "clearStatements c = Found c'"
  obtains c1 where "remove_statements (map fst (statements c)) c = Found c1" "c' = c1\<lparr>statements := []\<rparr>"
  using assms by (cases "remove_statements (map fst (statements c)) c") (auto simp: clearStatements_def)

lemma remove_statements_split:
  assumes "remove_statements (h # hs) c = Found c'"
  obtains b c1 where "removeStatement h c = Found (b, c1)" "remove_statements hs c1 = Found c'"
  using assms by (cases "removeStatement h c") auto

lemma runJobSync_cases:
  assumes "runJobSync api sapi elapsed now pend job c = Some (Found (p, r, c'))"
  obtains (unknown) "map_of (workers c) (qj_connectionHandle job) = None" "c' = c" "p = None"
    | (rejected) w where "map_of (workers c) (qj_connectionHandle job) = Some w" "checkGuards now pend job c = (r, c')"
        "r \<noteq> NoReject" "p = None"
    | (ran) w c1 v where "map_of (workers c) (qj_connectionHandle job) = Some w" "checkGuards now pend job c = (NoReject, c1)"
        "v = w\<lparr>cw_jobs := cw_jobs w @ [job\<lparr>qj_syncSignal := True\<rparr>]\<rparr>"
        "work_off api sapi elapsed (qj_connectionHandle job) v (length (cw_jobs v)) c1 = Some (Found (p, c'))"
proof (cases "map_of (workers c) (qj_connectionHandle job)")
  case None
  show ?thesis by (rule unknown [OF None]) (use assms None in \<open>simp_all add: runJobSync_def\<close>)
next
  case (Some w)
  obtain g c1 where g: "checkGuards now pend job c = (g, c1)" by (cases "checkGuards now pend job c")
  show ?thesis
  proof (cases "g = NoReject")
    case False
    show ?thesis
      by (rule rejected [OF Some]) (use assms Some g False in \<open>auto simp: runJobSync_def\<close>)
  next
    case True
    let ?w = "w\<lparr>cw_jobs := cw_jobs w @ [job\<lparr>qj_syncSignal := True\<rparr>]\<rparr>"
    obtain x where x: "work_off api sapi elapsed (qj_connectionHandle job) ?w (length (cw_jobs ?w)) c1 = Some x"
        "access_bind x (\<lambda>(p, c''). Found (p, NoReject, c'')) = Found (p, r, c')"
      using assms Some g True by (auto simp: runJobSync_def Let_def)
    then have "x = Found (p, c')" by (cases x) auto
    with x(1) g True show ?thesis using ran [OF Some _ refl] by blast
  qed
qed

lemma reset_split:
  assumes "reset_component api sapi elapsed c = Some (Found c')"
  obtains c1 c3 where "clearStatements ((clearActiveCache c)\<lparr>savedCaches := [], nextCache := 1\<rparr>) = Found c1"
    "clearConnections api sapi elapsed ((clearModels (c1\<lparr>nextStatement := 1\<rparr>))\<lparr>nextModel := 1\<rparr>) = Some (Found c3)"
    "c' = (clearOptions c3)\<lparr>nextHandle := 1, nextOptions := 1\<rparr>"
proof -
  from assms obtain c1 where c1: "clearStatements ((clearActiveCache c)\<lparr>savedCaches := [], nextCache := 1\<rparr>) = Found c1"
    by (auto simp: reset_component_def Let_def split: access.splits)
  let ?c2 = "(clearModels (c1\<lparr>nextStatement := 1\<rparr>))\<lparr>nextModel := 1\<rparr>"
  from assms c1 obtain x where x: "clearConnections api sapi elapsed ?c2 = Some x"
      "access_bind x (\<lambda>c. Found ((clearOptions c)\<lparr>nextHandle := 1, nextOptions := 1\<rparr>)) = Found c'"
    by (auto simp: reset_component_def Let_def)
  then obtain c3 where "x = Found c3" by (cases x) auto
  with c1 x that show ?thesis by simp
qed

section \<open>Frames\<close>

text \<open>Only the registries of shared objects, the guards and the selected results may differ.\<close>

definition bookkeeping :: "('m, 'st) component \<Rightarrow> ('m, 'st) component \<Rightarrow> bool" where
  "bookkeeping c d \<longleftrightarrow> models d = models c \<and> options d = options c \<and> savedCaches d = savedCaches c \<and>
     activeCache d = activeCache c \<and> nextModel d = nextModel c \<and> engine d = engine c \<and> heap d = heap c"

locale component_frame =
  fixes api :: "'m client" and sapi :: "('m, 'st) stmt_client"
    and R :: "('m, 'st) component \<Rightarrow> ('m, 'st) component \<Rightarrow> bool"
  assumes R_trans: "R c d \<Longrightarrow> R d e \<Longrightarrow> R c e"
    and R_book: "bookkeeping c d \<Longrightarrow> R c d"
    and R_work: "work_off api sapi elapsed h w n c = Some (Found (x, c')) \<Longrightarrow> R c c'"
    and R_free_conn: "R c (put_conn a None c)"
    and R_free_stmt: "R c (put_stmt a None c)"
begin

lemma R_refl: "R c c"
  by (rule R_book) (simp add: bookkeeping_def)

lemma R_stop_worker: "stop_worker api sapi elapsed h w c = Some (Found c') \<Longrightarrow> R c c'"
  by (erule stop_worker_split) (rule R_work)

lemma R_stop_all: "stop_all api sapi elapsed ws c = Some (Found c') \<Longrightarrow> R c c'"
proof (induction ws arbitrary: c)
  case (Cons hw ws)
  then show ?case by (cases hw) (blast elim: stop_all_split intro: R_stop_worker R_trans)
qed (simp add: R_refl)

lemma R_free_conns: "R c (free_conns m c)"
  by (induction m c rule: free_conns.induct) (auto intro: R_refl R_trans R_free_conn)

lemma R_clearConnections: "clearConnections api sapi elapsed c = Some (Found c') \<Longrightarrow> R c c'"
proof (erule clearConnections_split)
  fix c1 :: "('m, 'st) component"
  let ?c1 = "c1\<lparr>workers := []\<rparr>"
  assume c1: "stop_all api sapi elapsed (workers c) c = Some (Found c1)"
    and c': "c' = (free_conns (connections c1) ?c1)
       \<lparr>connections := [], multiStatementAllowed := [], guards := [], rateLog := []\<rparr>"
  have "R c1 ?c1" "R (free_conns (connections c1) ?c1) c'" by (auto intro!: R_book simp: bookkeeping_def c')
  with R_stop_all [OF c1] R_free_conns [of ?c1 "connections c1"] R_trans show ?thesis by blast
qed

lemma R_push_worker: "R c (push_worker h w job c)"
  by (rule R_book) (simp add: bookkeeping_def push_worker_def)

lemma R_drop_connection: "R c (snd (drop_connection h c))"
proof -
  let ?c = "c\<lparr>multiStatementAllowed := erase h (multiStatementAllowed c), guards := erase h (guards c),
                 rateLog := erase h (rateLog c)\<rparr>"
  have book: "R c ?c" "R c (?c\<lparr>connections := erase h (connections c)\<rparr>)" by (auto intro!: R_book simp: bookkeeping_def)
  show ?thesis
    using book(1) R_trans [OF book(2) R_free_conn] by (auto simp: drop_connection_def Let_def split: option.split)
qed

lemma R_removeConnection: "removeConnection api sapi elapsed h c = Some (Found (b, c')) \<Longrightarrow> R c c'"
proof (erule removeConnection_cases)
  assume "drop_connection h c = (b, c')"
  with R_drop_connection [of c h] show ?thesis by simp
next
  fix w and c1 :: "('m, 'st) component"
  let ?c1 = "c1\<lparr>workers := erase h (workers c1)\<rparr>"
  assume c1: "stop_worker api sapi elapsed h w c = Some (Found c1)" "drop_connection h ?c1 = (b, c')"
  have "R c1 ?c1" by (rule R_book) (simp add: bookkeeping_def)
  with R_stop_worker [OF c1(1)] R_drop_connection [of ?c1 h] c1(2) R_trans show ?thesis by fastforce
qed

lemma R_removeStatement: "removeStatement h c = Found (b, c') \<Longrightarrow> R c c'"
proof (cases "map_of (statements c) h")
  case (Some a)
  let ?c = "c\<lparr>statements := erase h (statements c)\<rparr>"
  assume run: "removeStatement h c = Found (b, c')"
  have "R c ?c" by (rule R_book) (simp add: bookkeeping_def)
  moreover have "R ?c c'"
    using run Some R_free_stmt [of ?c a] R_push_worker
    by (auto simp: removeStatement_def Let_def split: option.splits if_splits)
  ultimately show ?thesis by (rule R_trans)
qed (simp add: removeStatement_def R_refl)

lemma R_remove_statements: "remove_statements hs c = Found c' \<Longrightarrow> R c c'"
proof (induction hs arbitrary: c)
  case (Cons h hs)
  then show ?case by (blast elim: remove_statements_split intro: R_removeStatement R_trans)
qed (simp add: R_refl)

lemma R_clearStatements: "clearStatements c = Found c' \<Longrightarrow> R c c'"
proof (erule clearStatements_split)
  fix c1 :: "('m, 'st) component" assume c1: "remove_statements (map fst (statements c)) c = Found c1" "c' = c1\<lparr>statements := []\<rparr>"
  have "R c1 c'" by (rule R_book) (simp add: bookkeeping_def c1(2))
  with R_remove_statements [OF c1(1)] show ?thesis by (rule R_trans)
qed

lemma R_checkGuards: "checkGuards now pend job c = (r, c') \<Longrightarrow> R c c'"
  by (rule R_book) (auto simp: checkGuards_def bookkeeping_def Let_def split: if_splits)

lemma R_enqueueJob: "enqueueJob now pend job c = (r, c') \<Longrightarrow> R c c'"
  by (erule enqueueJob_cases) (auto intro: R_refl R_checkGuards R_trans R_push_worker)

lemma R_runJobSync: "runJobSync api sapi elapsed now pend job c = Some (Found (p, r, c')) \<Longrightarrow> R c c'"
  by (erule runJobSync_cases) (auto intro: R_refl R_checkGuards R_trans R_work)

text \<open>A restart in three parts: what the script held, its statements and connections, the counters.\<close>

lemma R_reset:
  assumes "reset_component api sapi elapsed c = Some (Found c')"
  shows "\<exists>c1 c3. R ((clearActiveCache c)\<lparr>savedCaches := [], nextCache := 1\<rparr>) c1 \<and>
    R ((clearModels (c1\<lparr>nextStatement := 1\<rparr>))\<lparr>nextModel := 1\<rparr>) c3 \<and>
    c' = (clearOptions c3)\<lparr>nextHandle := 1, nextOptions := 1\<rparr>"
  using assms by (rule reset_split) (blast intro: R_clearStatements R_clearConnections)

end

section \<open>The script's own objects\<close>

lemma run_jobs_completed:
  "run_jobs api sapi elapsed ca js (p, e, s) = Some (Found (p', e', s')) \<Longrightarrow>
     \<exists>ks. e' = e\<lparr>completed := completed e @ ks\<rparr>"
proof (induction js arbitrary: p e s)
  case Nil
  then show ?case by (intro exI [of _ "[]"]) simp
next
  case (Cons j js)
  then obtain d s1 where d: "process_job api sapi (elapsed j) (Some ca) j s = Some (Found (d, s1))"
    by (auto split: option.splits access.splits)
  with Cons.prems Cons.IH [of _ e s1] Cons.IH [of _ "push_completed k e" s1 for k]
  show ?case by (cases d) (fastforce simp: push_completed_def)+
qed

text \<open>The hashing pool but for its input.\<close>

definition same_hashing :: "QueryEngine \<Rightarrow> QueryEngine \<Rightarrow> bool" where
  "same_hashing e f \<longleftrightarrow> hashWorkers f = hashWorkers e \<and> hashRunning f = hashRunning e \<and> hashOutput f = hashOutput e"

text \<open>The registries of the script's objects, the hashing pool, and the completed queue, which only grows.\<close>

definition keeps_script :: "('m, 'st) component \<Rightarrow> ('m, 'st) component \<Rightarrow> bool" where
  "keeps_script c d \<longleftrightarrow> models d = models c \<and> options d = options c \<and> savedCaches d = savedCaches c \<and>
     activeCache d = activeCache c \<and> nextModel d = nextModel c \<and>
     same_hashing (engine c) (engine d) \<and> hashInput (engine d) = hashInput (engine c) \<and>
     (\<exists>js. completed (engine d) = completed (engine c) @ js)"


interpretation script: component_frame api sapi keeps_script for api :: "'m client" and sapi :: "('m, 'st) stmt_client"
proof
  fix c d e :: "('m, 'st) component"
  show "keeps_script c d \<Longrightarrow> keeps_script d e \<Longrightarrow> keeps_script c e" by (auto simp: keeps_script_def same_hashing_def)
  show "bookkeeping c d \<Longrightarrow> keeps_script c d" by (simp add: bookkeeping_def keeps_script_def same_hashing_def)
next
  fix elapsed h w n x and c c' :: "('m, 'st) component"
  assume "work_off api sapi elapsed h w n c = Some (Found (x, c'))"
  then show "keeps_script c c'"
    by (rule work_off_split) (auto simp: keeps_script_def same_hashing_def dest!: run_jobs_completed)
qed (simp_all add: keeps_script_def same_hashing_def put_conn_def put_stmt_def)

lemma reset_frame:
  assumes "reset_component api sapi elapsed c = Some (Found c')"
  shows "\<exists>js. models c' = [] \<and> options c' = [] \<and> savedCaches c' = [] \<and> activeCache c' = None \<and> nextModel c' = 1 \<and>
    completed (engine c') = completed (engine c) @ js \<and> same_hashing (engine c) (engine c') \<and>
    hashInput (engine c') = hashInput (engine c)"
  using script.R_reset [OF assms]
  by (auto simp: keeps_script_def same_hashing_def clearActiveCache_def clearModels_def clearOptions_def)

end
