(* ===== verification/Lifetime.thy ===== *)
theory Lifetime
  imports Frames
begin

text \<open>
  Who may touch what and when: statements and connections are freed while jobs that point at them may still be
  queued on another thread.  The invariant says why no worker ever follows a dangling pointer: a statement is only
  used by jobs on the queue of its own connection, its teardown is a job behind them on the same queue, and a
  connection is only freed once its queue is drained.
\<close>

declare map_of_eq_Some_iff [simp del] Some_eq_map_of_iff [simp del]

section \<open>Which statements a queue uses\<close>

text \<open>The connection a live statement points to.\<close>

definition conn_of :: "('m, 'st) store \<Rightarrow> nat \<Rightarrow> nat option" where
  "conn_of s a = Option.bind (so_stmts s a) ps_conn"

lemma conn_of_conns [simp]: "conn_of (s\<lparr>so_conns := f\<rparr>) = conn_of s"
  by (simp add: conn_of_def fun_eq_iff)

text \<open>The statements whose teardown is queued.\<close>

definition closes :: "QueryJob list \<Rightarrow> nat set" where
  "closes js = {a. \<exists>j \<in> set js. qj_statementToClose j = Some a}"

text \<open>A queue of the connection \<open>ca\<close>: every statement a job uses or closes is that connection's, and not closed before.\<close>

fun jobs_ok :: "nat \<Rightarrow> (nat \<Rightarrow> nat option) \<Rightarrow> QueryJob list \<Rightarrow> bool" where
  "jobs_ok ca own [] = True"
| "jobs_ok ca own (j # js) = (case qj_statementToClose j of
       Some a \<Rightarrow> own a = Some ca \<and> jobs_ok ca (own(a := None)) js
     | None \<Rightarrow> (case qj_statement j of Some a \<Rightarrow> own a = Some ca | None \<Rightarrow> True) \<and> jobs_ok ca own js)"

definition own_after :: "(nat \<Rightarrow> nat option) \<Rightarrow> QueryJob list \<Rightarrow> nat \<Rightarrow> nat option" where
  "own_after own js a = (if a \<in> closes js then None else own a)"

lemma closes_simps [simp]:
  "closes [] = {}"
  "closes (j # js) = (case qj_statementToClose j of Some a \<Rightarrow> insert a (closes js) | None \<Rightarrow> closes js)"
  "closes (js @ ks) = closes js \<union> closes ks"
  by (auto simp: closes_def split: option.splits)

lemma jobs_ok_local:
  "(\<And>a. (own a = Some ca) = (own' a = Some ca)) \<Longrightarrow> jobs_ok ca own js = jobs_ok ca own' js"
proof (induction js arbitrary: own own')
  case (Cons j js)
  have IH: "jobs_ok ca (own(a := None)) js = jobs_ok ca (own'(a := None)) js" for a
    using Cons.prems by (intro Cons.IH) auto
  show ?case using IH Cons.IH [OF Cons.prems] Cons.prems by (auto split: option.splits)
qed simp

lemma jobs_ok_closes: "jobs_ok ca own js \<Longrightarrow> a \<in> closes js \<Longrightarrow> own a = Some ca"
proof (induction js arbitrary: own)
  case (Cons j js)
  then show ?case by (fastforce split: option.splits if_splits)
qed simp

lemma jobs_ok_append:
  "jobs_ok ca own (js @ ks) = (jobs_ok ca own js \<and> jobs_ok ca (own_after own js) ks)"
proof (induction js arbitrary: own)
  case Nil
  have "own_after own [] = own" by (simp add: own_after_def fun_eq_iff)
  then show ?case by simp
next
  case (Cons j js)
  show ?case
  proof (cases "qj_statementToClose j")
    case None
    then have "own_after own js = own_after own (j # js)" by (simp add: own_after_def fun_eq_iff)
    with None Cons.IH [of own] show ?thesis by simp
  next
    case (Some a)
    then have "own_after (own(a := None)) js = own_after own (j # js)" by (auto simp: own_after_def fun_eq_iff)
    with Some Cons.IH [of "own(a := None)"] show ?thesis by (simp add: fun_upd_def)
  qed
qed

lemma jobs_ok_grow: "own a = None \<Longrightarrow> jobs_ok ca own js \<Longrightarrow> jobs_ok ca (own(a \<mapsto> b)) js"
proof (induction js arbitrary: own)
  case (Cons j js)
  show ?case
  proof (cases "qj_statementToClose j")
    case None
    with Cons show ?thesis by (auto split: option.splits)
  next
    case (Some x)
    with Cons.prems have x: "x \<noteq> a" "jobs_ok ca (own(x := None)) js" "own x = Some ca" by auto
    have "jobs_ok ca ((own(x := None))(a \<mapsto> b)) js"
      by (rule Cons.IH) (use Cons.prems(1) x in \<open>simp_all add: fun_upd_def\<close>)
    then have "jobs_ok ca ((own(a \<mapsto> b))(x := None)) js"
      using x(1) by (simp only: fun_upd_twist [of a x])
    with Some x show ?thesis by (simp add: fun_upd_def)
  qed
qed simp

lemma jobs_ok_plain:
  "jobs_ok ca own js \<Longrightarrow> qj_statement j = None \<Longrightarrow> qj_statementToClose j = None \<Longrightarrow> jobs_ok ca own (js @ [j])"
  by (simp add: jobs_ok_append)

lemma jobs_ok_uses:
  "jobs_ok ca own js \<Longrightarrow> own a = Some ca \<Longrightarrow> a \<notin> closes js \<Longrightarrow>
     qj_statement j = Some a \<or> qj_statement j = None \<Longrightarrow>
     qj_statementToClose j = Some a \<or> qj_statementToClose j = None \<Longrightarrow> jobs_ok ca own (js @ [j])"
  by (auto simp: jobs_ok_append own_after_def split: option.splits)

section \<open>One job is safe\<close>

definition stmts_wf :: "('m, 'st) store \<Rightarrow> bool" where
  "stmts_wf s \<longleftrightarrow> (\<forall>a p. so_stmts s a = Some p \<longrightarrow> ps_wf p)"

definition same_conns :: "('m, 'st) store \<Rightarrow> ('m, 'st) store \<Rightarrow> bool" where
  "same_conns s t \<longleftrightarrow> (\<forall>a. (so_conns s a = None) = (so_conns t a = None))"

text \<open>The statement interface's documented bound: a parameter count fits in an \<^verbatim>\<open>int\<close> (the protocol has 16 bits).\<close>

definition small_counts :: "('m, 'st) stmt_client \<Rightarrow> bool" where
  "small_counts sapi \<longleftrightarrow> (\<forall>st. st_param_count sapi st < 2 ^ 31)"

lemma run_statement_safe:
  assumes n: "small_counts sapi" and own: "conn_of s a = Some ca" and live: "so_conns s ca \<noteq> None"
    and wf: "stmts_wf s" and run: "run_statement sapi elapsed a job s = Some r"
  shows "\<exists>k s'. r = Found (k, s') \<and> conn_of s' = conn_of s \<and> so_conns s' = so_conns s \<and> stmts_wf s'"
proof -
  from own obtain p where p: "so_stmts s a = Some p" "ps_conn p = Some ca"
    by (auto simp: conn_of_def Option.bind_eq_Some_conv)
  with wf have pwf: "ps_wf p" by (simp add: stmts_wf_def)
  from live p(2) have "\<exists>raw. raw_of s p = Found raw"
    by (auto simp: raw_of_def)
  then obtain raw where raw: "raw_of s p = Found raw" by blast
  from run p raw obtain b out p' where e:
      "execute sapi raw \<lparr>qr_sets = [], qr_execTimeMicros = 0, qr_queryString = qj_sql job\<rparr> p = Some (b, out, p')"
    and r: "r = (case b of
             Found ok \<Rightarrow> Found (finish_job ok (stmt_lastErrno sapi p') (stmt_lastError sapi p') elapsed out job,
                               s\<lparr>so_stmts := (so_stmts s)(a \<mapsto> p')\<rparr>)
           | _ \<Rightarrow> Undefined_Behaviour)"
    by (auto simp: run_statement_def)
  have w: "ps_wf p' \<and> b \<noteq> Undefined_Behaviour"
    by (rule execute_wf [OF pwf _ e]) (use n in \<open>simp add: small_counts_def\<close>)
  with execute_found [OF e] obtain ok where b: "b = Found ok" by blast
  have "conn_of (s\<lparr>so_stmts := (so_stmts s)(a \<mapsto> p')\<rparr>) = conn_of s"
    using p execute_conn [OF e] by (auto simp: conn_of_def fun_eq_iff)
  moreover have "stmts_wf (s\<lparr>so_stmts := (so_stmts s)(a \<mapsto> p')\<rparr>)"
    using wf w by (auto simp: stmts_wf_def)
  ultimately show ?thesis using r b by simp
qed

lemma run_query_safe:
  assumes live: "so_conns s ca \<noteq> None" and run: "run_query api elapsed ca job s = Some r"
  shows "\<exists>k s'. r = Found (k, s') \<and> so_stmts s' = so_stmts s \<and> same_conns s s'"
  using assms by (auto simp: run_query_def same_conns_def)

lemma same_conns_refl [simp]: "same_conns s s"
  by (simp add: same_conns_def)

lemma same_conns_live: "same_conns s t \<Longrightarrow> so_conns s a \<noteq> None \<Longrightarrow> so_conns t a \<noteq> None"
  by (simp add: same_conns_def del: not_None_eq)

lemma same_conns_trans: "same_conns s t \<Longrightarrow> same_conns t u \<Longrightarrow> same_conns s u"
  by (simp add: same_conns_def)

lemma process_job_safe:
  assumes n: "small_counts sapi" and ok: "jobs_ok ca (conn_of s) [j]" and live: "so_conns s ca \<noteq> None"
    and wf: "stmts_wf s" and run: "process_job api sapi elapsed (Some ca) j s = Some r"
  shows "\<exists>d s'. r = Found (d, s') \<and> conn_of s' = own_after (conn_of s) [j] \<and> same_conns s s' \<and> stmts_wf s'"
proof (cases "qj_statementToClose j")
  case (Some a)
  with ok have "so_stmts s a \<noteq> None" by (auto simp: conn_of_def Option.bind_eq_Some_conv)
  with Some run have r: "r = Found (Dropped, s\<lparr>so_stmts := (so_stmts s)(a := None)\<rparr>)"
    by (simp add: process_job_def)
  have "conn_of (s\<lparr>so_stmts := (so_stmts s)(a := None)\<rparr>) = own_after (conn_of s) [j]"
    using Some by (auto simp: conn_of_def own_after_def fun_eq_iff)
  with r wf show ?thesis by (auto simp: same_conns_def stmts_wf_def)
next
  case None
  then have own: "own_after (conn_of s) [j] = conn_of s" by (simp add: own_after_def fun_eq_iff)
  show ?thesis
  proof (cases "qj_statement j")
    case (Some a)
    with None run obtain r' where r': "run_statement sapi elapsed a j s = Some r'"
        "r = access_bind r' (\<lambda>(job', s'). Found (hand_over job', s'))"
      by (auto simp: process_job_def)
    from ok None Some have "conn_of s a = Some ca" by simp
    from run_statement_safe [OF n this live wf r'(1)] obtain k s' where
      "r' = Found (k, s')" "conn_of s' = conn_of s" "so_conns s' = so_conns s" "stmts_wf s'" by blast
    with r'(2) own show ?thesis by (auto simp: same_conns_def)
  next
    case None': None
    with None run obtain r' where r': "run_query api elapsed ca j s = Some r'"
        "r = access_bind r' (\<lambda>(job', s'). Found (hand_over job', s'))"
      by (auto simp: process_job_def)
    from run_query_safe [OF live r'(1)] obtain k s' where
      "r' = Found (k, s')" "so_stmts s' = so_stmts s" "same_conns s s'" by blast
    with r'(2) own wf show ?thesis by (auto simp: conn_of_def stmts_wf_def fun_eq_iff)
  qed
qed

lemma run_jobs_safe:
  assumes n: "small_counts sapi" and run: "run_jobs api sapi elapsed ca js (p, e, s) = Some r"
    and ok: "jobs_ok ca (conn_of s) js" and live: "so_conns s ca \<noteq> None" and wf: "stmts_wf s"
  shows "\<exists>p' e' s'. r = Found (p', e', s') \<and> conn_of s' = own_after (conn_of s) js \<and> same_conns s s' \<and> stmts_wf s'"
  using run ok live wf
proof (induction js arbitrary: p e s)
  case Nil
  then show ?case by (auto simp: own_after_def)
next
  case (Cons j js)
  have both: "jobs_ok ca (conn_of s) [j]" "jobs_ok ca (own_after (conn_of s) [j]) js"
    using Cons.prems(2) jobs_ok_append [of ca "conn_of s" "[j]" js] by simp_all
  obtain x where x: "process_job api sapi (elapsed j) (Some ca) j s = Some x"
    using Cons.prems(1) by (cases "process_job api sapi (elapsed j) (Some ca) j s") auto
  from process_job_safe [OF n both(1) Cons.prems(3,4) x] obtain d s1 where
    d: "x = Found (d, s1)" "conn_of s1 = own_after (conn_of s) [j]" "same_conns s s1" "stmts_wf s1" by blast
  obtain p1 e1 where rest: "run_jobs api sapi elapsed ca js (p1, e1, s1) = Some r"
    using Cons.prems(1) x d(1) by (cases d) auto
  have live1: "so_conns s1 ca \<noteq> None" by (rule same_conns_live [OF d(3) Cons.prems(3)])
  have ok1: "jobs_ok ca (conn_of s1) js" using both(2) d(2) by simp
  from Cons.IH [OF rest ok1 live1 d(4)] obtain p' e' s' where
    "r = Found (p', e', s')" "conn_of s' = own_after (conn_of s1) js" "same_conns s1 s'" "stmts_wf s'" by blast
  moreover have "own_after (own_after (conn_of s) [j]) js = own_after (conn_of s) (j # js)"
    by (auto simp: own_after_def fun_eq_iff split: option.splits)
  ultimately show ?case using d(2) same_conns_trans [OF d(3)] by auto
qed

section \<open>The component's invariant\<close>

definition conns_live :: "('m, 'st) component \<Rightarrow> bool" where
  "conns_live c \<longleftrightarrow> (\<forall>h a. map_of (connections c) h = Some a \<longrightarrow> so_conns (heap c) a \<noteq> None) \<and>
     (\<forall>h k a. map_of (connections c) h = Some a \<and> map_of (connections c) k = Some a \<longrightarrow> h = k)"

definition workers_match :: "('m, 'st) component \<Rightarrow> bool" where
  "workers_match c \<longleftrightarrow> (\<forall>h. map_option cw_conn (map_of (workers c) h) = map_of (connections c) h)"

definition queues_ok :: "('m, 'st) component \<Rightarrow> bool" where
  "queues_ok c \<longleftrightarrow> (\<forall>h w. map_of (workers c) h = Some w \<longrightarrow> jobs_ok (cw_conn w) (conn_of (heap c)) (cw_jobs w))"

definition stmts_live :: "('m, 'st) component \<Rightarrow> bool" where
  "stmts_live c \<longleftrightarrow>
     (\<forall>h a. map_of (statements c) h = Some a \<longrightarrow> conn_of (heap c) a \<noteq> None \<and>
        (\<forall>k w. map_of (workers c) k = Some w \<longrightarrow> a \<notin> closes (cw_jobs w))) \<and>
     (\<forall>h k a. map_of (statements c) h = Some a \<and> map_of (statements c) k = Some a \<longrightarrow> h = k)"

definition life :: "('m, 'st) component \<Rightarrow> bool" where
  "life c \<longleftrightarrow> connections_ok c \<and> statements_ok c \<and> distinct (map fst (workers c)) \<and> conns_live c \<and>
     workers_match c \<and> queues_ok c \<and> stmts_live c \<and> stmts_wf (heap c)"

lemmas life_defs = life_def conns_live_def workers_match_def queues_ok_def stmts_live_def

lemma life_new: "life new_component"
  by (simp add: life_defs new_component_def reg_ok_def stmts_wf_def)

lemma life_worker:
  "life c \<Longrightarrow> map_of (workers c) h = Some w \<Longrightarrow> map_of (connections c) h = Some (cw_conn w)"
proof -
  assume l: "life c" and w: "map_of (workers c) h = Some w"
  from l have "map_option cw_conn (map_of (workers c) h) = map_of (connections c) h"
    by (simp add: life_def workers_match_def)
  with w show ?thesis by simp
qed

lemma life_other_conn:
  "life c \<Longrightarrow> map_of (workers c) h = Some w \<Longrightarrow> map_of (workers c) k = Some v \<Longrightarrow> k \<noteq> h \<Longrightarrow> cw_conn v \<noteq> cw_conn w"
proof
  assume l: "life c" and w: "map_of (workers c) h = Some w" "map_of (workers c) k = Some v" "k \<noteq> h"
    and e: "cw_conn v = cw_conn w"
  from l have inj: "\<And>h k a. map_of (connections c) h = Some a \<Longrightarrow> map_of (connections c) k = Some a \<Longrightarrow> h = k"
    by (auto simp: life_def conns_live_def)
  from inj [OF life_worker [OF l w(1)]] life_worker [OF l w(2)] e w(3) show False by auto
qed

lemma life_registered: "life c \<Longrightarrow> map_of (statements c) h = Some a \<Longrightarrow> conn_of (heap c) a \<noteq> None"
  unfolding life_def stmts_live_def by blast

lemma life_conn: "life c \<Longrightarrow> map_of (connections c) h = Some a \<Longrightarrow> so_conns (heap c) a \<noteq> None"
  unfolding life_def conns_live_def by blast

lemma life_queue:
  "life c \<Longrightarrow> map_of (workers c) h = Some w \<Longrightarrow> jobs_ok (cw_conn w) (conn_of (heap c)) (cw_jobs w)"
  unfolding life_def queues_ok_def by blast

lemma life_not_closing:
  "life c \<Longrightarrow> map_of (statements c) k = Some a \<Longrightarrow> map_of (workers c) h = Some w \<Longrightarrow> a \<notin> closes (cw_jobs w)"
  unfolding life_def stmts_live_def by blast

text \<open>Two states that agree on what the invariant is about.\<close>

definition same_life :: "('m, 'st) component \<Rightarrow> ('m, 'st) component \<Rightarrow> bool" where
  "same_life c d \<longleftrightarrow> connections d = connections c \<and> workers d = workers c \<and> statements d = statements c \<and>
     heap d = heap c \<and> nextHandle d = nextHandle c \<and> nextStatement d = nextStatement c"

lemma life_same: "same_life c d \<Longrightarrow> life c = life d"
  by (simp add: same_life_def life_defs)

lemma checkGuards_life: "checkGuards now pend job c = (r, c') \<Longrightarrow> same_life c c'"
  using checkGuards_frame [of now pend job c r c'] by (simp add: same_life_def)

lemma distinct_assign: "distinct (map fst m) \<Longrightarrow> distinct (map fst (assign h v m))"
  by (simp add: assign_def distinct_update)

section \<open>Every operation keeps it\<close>

lemma push_worker_life:
  assumes l: "life c" and w: "map_of (workers c) h = Some w"
    and j: "jobs_ok (cw_conn w) (conn_of (heap c)) (cw_jobs w @ [job])"
    and cl: "\<And>k a. qj_statementToClose job = Some a \<Longrightarrow> map_of (statements c) k \<noteq> Some a"
  shows "life (push_worker h w job c)"
proof -
  have m: "workers_match (push_worker h w job c)"
    using l life_worker [OF l w] by (simp add: life_def workers_match_def push_worker_def)
  have q: "queues_ok (push_worker h w job c)"
    using l j unfolding life_def queues_ok_def push_worker_def by auto
  have s: "stmts_live (push_worker h w job c)"
    using l w cl unfolding life_def stmts_live_def push_worker_def by (auto split: option.splits)
  show ?thesis
    using l m q s distinct_assign unfolding life_def by (auto simp: push_worker_def conns_live_def)
qed

text \<open>A job that executes a registered statement on the handle that owns its connection.\<close>

lemma owner_worker:
  assumes l: "life c" and h: "connectionHandleOf (Some ca) c = h" "h \<noteq> 0"
  shows "\<exists>w. map_of (workers c) h = Some w \<and> cw_conn w = ca"
proof -
  from l h have "map_of (connections c) h = Some ca"
    by (intro owner_loop_found) (auto simp: connectionHandleOf_def life_def reg_ok_def)
  with l show ?thesis unfolding life_def workers_match_def by (metis map_option_eq_Some)
qed

lemma no_owner:
  assumes l: "life c" and h: "connectionHandleOf (Some ca) c = 0" and w: "map_of (workers c) k = Some w"
  shows "cw_conn w \<noteq> ca"
proof
  assume "cw_conn w = ca"
  with life_worker [OF l w] have "ca \<in> snd ` set (connections c)"
    by (force dest: map_of_SomeD)
  with l h owner_loop_none [of "connections c" ca] show False
    by (auto simp: connectionHandleOf_def life_def reg_ok_def)
qed

text \<open>What a job the natives enqueue may refer to.\<close>

definition job_safe :: "('m, 'st) component \<Rightarrow> QueryJob \<Rightarrow> bool" where
  "job_safe c job \<longleftrightarrow> qj_statementToClose job = None \<and> (case qj_statement job of
       None \<Rightarrow> True
     | Some a \<Rightarrow> (\<exists>k p. map_of (statements c) k = Some a \<and> so_stmts (heap c) a = Some p \<and> ps_conn p \<noteq> None \<and>
         connectionHandleOf (ps_conn p) c = qj_connectionHandle job \<and> qj_connectionHandle job \<noteq> 0))"

lemma job_safe_queue:
  assumes l: "life c" and j: "job_safe c job" and w: "map_of (workers c) (qj_connectionHandle job) = Some w"
  shows "jobs_ok (cw_conn w) (conn_of (heap c)) (cw_jobs w @ [job])"
proof -
  have q: "jobs_ok (cw_conn w) (conn_of (heap c)) (cw_jobs w)"
    using l w unfolding life_def queues_ok_def by blast
  show ?thesis
  proof (cases "qj_statement job")
    case None
    with q j show ?thesis by (simp add: job_safe_def jobs_ok_plain)
  next
    case (Some a)
    with j obtain k p ca where a: "map_of (statements c) k = Some a" "so_stmts (heap c) a = Some p"
        "ps_conn p = Some ca" "connectionHandleOf (Some ca) c = qj_connectionHandle job" "qj_connectionHandle job \<noteq> 0"
      by (auto simp: job_safe_def)
    from owner_worker [OF l a(4,5)] w have "cw_conn w = ca" by simp
    then have own: "conn_of (heap c) a = Some (cw_conn w)" using a by (simp add: conn_of_def)
    have "a \<notin> closes (cw_jobs w)" using l a(1) w unfolding life_def stmts_live_def by blast
    from jobs_ok_uses [OF q own this] Some j show ?thesis by (simp add: job_safe_def)
  qed
qed

lemma enqueueJob_life:
  assumes l: "life c" and j: "job_safe c job" and e: "enqueueJob now pend job c = (r, c')"
  shows "life c'"
  using e
proof (cases rule: enqueueJob_cases)
  case unknown
  with l show ?thesis by simp
next
  case (rejected w)
  with l life_same [OF checkGuards_life] show ?thesis by blast
next
  case (accepted w c1)
  have sl: "same_life c c1" using accepted(3) checkGuards_life by blast
  with l life_same have l1: "life c1" by blast
  from job_safe_queue [OF l j accepted(1)] sl
  have "jobs_ok (cw_conn w) (conn_of (heap c1)) (cw_jobs w @ [job])" by (simp add: same_life_def)
  moreover have "map_of (workers c1) (qj_connectionHandle job) = Some w"
    using accepted(1) sl by (simp add: same_life_def)
  ultimately have "life (push_worker (qj_connectionHandle job) w job c1)"
    by (intro push_worker_life [OF l1]) (use j in \<open>simp_all add: job_safe_def\<close>)
  with accepted(4) show ?thesis by simp
qed

lemma work_off_life:
  assumes n: "small_counts sapi" and l: "life c" and w: "map_of (workers c) h = Some w"
    and run: "work_off api sapi elapsed h w k c = Some r"
  shows "\<exists>p c'. r = Found (p, c') \<and> life c' \<and> connections c' = connections c \<and> statements c' = statements c \<and>
    map_of (workers c') = (map_of (workers c))(h \<mapsto> w\<lparr>cw_jobs := drop k (cw_jobs w)\<rparr>) \<and>
    nextHandle c' = nextHandle c \<and> nextStatement c' = nextStatement c"
proof -
  let ?ca = "cw_conn w" and ?take = "take k (cw_jobs w)" and ?drop = "drop k (cw_jobs w)"
  obtain x where x: "run_jobs api sapi elapsed ?ca ?take (None, engine c, heap c) = Some x"
      and r: "r = access_bind x (\<lambda>(p, e, s). Found (p, c\<lparr>engine := e, heap := s,
         workers := assign h (w\<lparr>cw_jobs := ?drop\<rparr>) (workers c)\<rparr>))"
    using run by (auto simp: work_off_def)
  have q: "jobs_ok ?ca (conn_of (heap c)) (?take @ ?drop)"
    using l w unfolding life_def queues_ok_def by simp
  then have qt: "jobs_ok ?ca (conn_of (heap c)) ?take" and qd: "jobs_ok ?ca (own_after (conn_of (heap c)) ?take) ?drop"
    by (simp_all only: jobs_ok_append)
  have live: "so_conns (heap c) ?ca \<noteq> None"
    using life_worker [OF l w] l unfolding life_def conns_live_def by blast
  have wf: "stmts_wf (heap c)" using l by (simp add: life_def)
  from run_jobs_safe [OF n x qt live wf] obtain p e s where
    s: "x = Found (p, e, s)" "conn_of s = own_after (conn_of (heap c)) ?take" "same_conns (heap c) s" "stmts_wf s"
    by blast
  let ?c = "c\<lparr>engine := e, heap := s, workers := assign h (w\<lparr>cw_jobs := ?drop\<rparr>) (workers c)\<rparr>"
  have cl: "closes ?drop \<subseteq> closes (cw_jobs w)" "closes ?take \<subseteq> closes (cw_jobs w)"
    using closes_simps(3) [of ?take ?drop] by auto
  have conns: "conns_live ?c"
    using l s(3) same_conns_live unfolding life_def conns_live_def by simp blast
  have match: "workers_match ?c"
    using l life_worker [OF l w] by (simp add: life_def workers_match_def)
  have queues: "queues_ok ?c"
    unfolding queues_ok_def
  proof (intro allI impI)
    fix k' v assume v: "map_of (workers ?c) k' = Some v"
    show "jobs_ok (cw_conn v) (conn_of (heap ?c)) (cw_jobs v)"
    proof (cases "k' = h")
      case True
      with v qd s(2) show ?thesis by auto
    next
      case False
      with v have v': "map_of (workers c) k' = Some v" by simp
      have ne: "cw_conn v \<noteq> ?ca" using life_other_conn [OF l w v' False] .
      have "jobs_ok (cw_conn v) (conn_of (heap c)) (cw_jobs v) = jobs_ok (cw_conn v) (conn_of s) (cw_jobs v)"
        by (rule jobs_ok_local) (use s(2) jobs_ok_closes [OF qt] ne in \<open>auto simp: own_after_def\<close>)
      with l v' show ?thesis unfolding life_def queues_ok_def by simp
    qed
  qed
  have stmts: "stmts_live ?c"
    unfolding stmts_live_def
  proof (intro conjI allI impI)
    fix k' a assume a: "map_of (statements ?c) k' = Some a"
    then have a': "conn_of (heap c) a \<noteq> None" "a \<notin> closes (cw_jobs w)"
      using l w unfolding life_def stmts_live_def by auto
    with s(2) cl(2) show "conn_of (heap ?c) a \<noteq> None" by (auto simp: own_after_def)
    show "a \<notin> closes (cw_jobs v)" if "map_of (workers ?c) j = Some v" for j v
      using that a a'(2) l cl unfolding life_def stmts_live_def by (auto split: if_splits)
  next
    fix k' j a assume "map_of (statements ?c) k' = Some a \<and> map_of (statements ?c) j = Some a"
    then show "k' = j" using l unfolding life_def stmts_live_def by simp
  qed
  have "life ?c"
    using l conns match queues stmts s(4) distinct_assign unfolding life_def by auto
  with r s(1) show ?thesis by auto
qed

text \<open>The synchronous run: the job behind the queue, then all of it executed.\<close>

lemma push_worker_work_off:
  "work_off api sapi elapsed h (w\<lparr>cw_jobs := cw_jobs w @ [job]\<rparr>) n (push_worker h w job c) =
   work_off api sapi elapsed h (w\<lparr>cw_jobs := cw_jobs w @ [job]\<rparr>) n c"
  by (simp add: work_off_def push_worker_def assign_def)

lemma runJobSync_life:
  assumes n: "small_counts sapi" and l: "life c" and j: "job_safe c job"
    and run: "runJobSync api sapi elapsed now pend job c = Some r"
  shows "\<exists>p reason c'. r = Found (p, reason, c') \<and> life c'"
proof (cases "map_of (workers c) (qj_connectionHandle job)")
  case None
  with l run show ?thesis by (auto simp: runJobSync_def)
next
  case (Some w)
  obtain g c1 where g: "checkGuards now pend job c = (g, c1)" by (cases "checkGuards now pend job c")
  have sl: "same_life c c1" using checkGuards_life [OF g] .
  with l have l1: "life c1" using life_same by blast
  show ?thesis
  proof (cases "g = NoReject")
    case False
    with Some g run l1 show ?thesis by (auto simp: runJobSync_def)
  next
    case True
    let ?h = "qj_connectionHandle job" and ?job = "job\<lparr>qj_syncSignal := True\<rparr>"
    let ?w = "w\<lparr>cw_jobs := cw_jobs w @ [?job]\<rparr>"
    have w1: "map_of (workers c1) ?h = Some w" using Some sl by (simp add: same_life_def)
    have js: "job_safe c1 ?job" and cl: "qj_statementToClose ?job = None"
      using j sl by (auto simp: job_safe_def same_life_def connectionHandleOf_def split: option.splits)
    have "jobs_ok (cw_conn w) (conn_of (heap c1)) (cw_jobs w @ [?job])"
      using job_safe_queue [OF l1 js] w1 by simp
    with cl have l2: "life (push_worker ?h w ?job c1)"
      by (intro push_worker_life [OF l1 w1]) simp_all
    from Some g True run obtain x where x: "work_off api sapi elapsed ?h ?w (length (cw_jobs ?w)) c1 = Some x"
        "r = access_bind x (\<lambda>(p, c''). Found (p, NoReject, c''))"
      by (auto simp: runJobSync_def Let_def)
    have "map_of (workers (push_worker ?h w ?job c1)) ?h = Some ?w" by (simp add: push_worker_def)
    from work_off_life [OF n l2 this] x(1) obtain p c2 where "x = Found (p, c2)" "life c2"
      by (metis push_worker_work_off)
    with x(2) show ?thesis by simp
  qed
qed

lemma stop_worker_life:
  assumes n: "small_counts sapi" and l: "life c" and w: "map_of (workers c) h = Some w"
    and run: "stop_worker api sapi elapsed h w c = Some r"
  shows "\<exists>c'. r = Found c' \<and> life c' \<and> connections c' = connections c \<and> statements c' = statements c \<and>
    map_of (workers c') = (map_of (workers c))(h \<mapsto> w\<lparr>cw_jobs := []\<rparr>) \<and>
    nextHandle c' = nextHandle c \<and> nextStatement c' = nextStatement c"
proof -
  from run obtain x where x: "work_off api sapi elapsed h w (length (cw_jobs w)) c = Some x"
      "r = access_bind x (\<lambda>(p, c'). Found c')"
    by (auto simp: stop_worker_def)
  from work_off_life [OF n l w x(1)] x(2) show ?thesis by auto
qed

subsection \<open>Statements\<close>

lemma addStatement_life:
  assumes l: "life c" and fresh: "so_stmts (heap c) a = None" and ca: "map_of (connections c) h = Some ca"
  shows "life (snd (addStatement (Some a) (put_stmt a (Some (new_statement (Some ca) sql)) c)))"
proof -
  let ?c = "snd (addStatement (Some a) (put_stmt a (Some (new_statement (Some ca) sql)) c))"
  have own: "conn_of (heap ?c) = (conn_of (heap c))(a \<mapsto> ca)"
    by (auto simp: conn_of_def addStatement_def put_stmt_def new_statement_def Let_def fun_eq_iff)
  have none: "conn_of (heap c) a = None" using fresh by (simp add: conn_of_def)
  have un: "a \<notin> closes (cw_jobs w)" if "map_of (workers c) k = Some w" for k w
    using l that none jobs_ok_closes [of "cw_conn w" "conn_of (heap c)" "cw_jobs w" a]
    unfolding life_def queues_ok_def by auto
  have queues: "queues_ok ?c"
    unfolding queues_ok_def
  proof (intro allI impI)
    fix k w assume w: "map_of (workers ?c) k = Some w"
    then have w': "map_of (workers c) k = Some w" by (simp add: addStatement_def put_stmt_def)
    with l have q: "jobs_ok (cw_conn w) (conn_of (heap c)) (cw_jobs w)" unfolding life_def queues_ok_def by blast
    with none show "jobs_ok (cw_conn w) (conn_of (heap ?c)) (cw_jobs w)"
      unfolding own by (rule jobs_ok_grow)
  qed
  have reg: "map_of (statements c) h \<noteq> Some a" for h
    using life_registered [OF l, of h a] none by blast
  have "stmts_live ?c"
    using l un own reg unfolding life_def stmts_live_def
    by (auto simp: addStatement_def put_stmt_def split: if_splits)
  moreover have "statements_ok ?c"
    using l by (simp add: life_def addStatement_def put_stmt_def reg_ok_emplace)
  moreover have "stmts_wf (heap ?c)"
    using l new_statement_wf by (auto simp: life_def stmts_wf_def addStatement_def put_stmt_def)
  ultimately show ?thesis
    using l queues by (simp add: life_def conns_live_def workers_match_def addStatement_def put_stmt_def)
qed

lemma put_stmt_same_conn_life:
  assumes l: "life c" and p: "so_stmts (heap c) a = Some p" and q: "ps_wf q" "ps_conn q = ps_conn p"
  shows "life (put_stmt a (Some q) c)"
proof -
  have own: "conn_of (heap (put_stmt a (Some q) c)) = conn_of (heap c)"
    using p q(2) by (auto simp: conn_of_def put_stmt_def fun_eq_iff)
  have "stmts_wf (heap (put_stmt a (Some q) c))"
    using l q(1) by (auto simp: life_def stmts_wf_def put_stmt_def)
  with l own show ?thesis
    by (simp add: life_def queues_ok_def stmts_live_def conns_live_def workers_match_def put_stmt_def)
qed

text \<open>Freeing a statement no queue uses.\<close>

lemma put_stmt_none_life:
  assumes l: "life c" and unreg: "\<And>k. map_of (statements c) k \<noteq> Some a"
    and unused: "\<And>k w. map_of (workers c) k = Some w \<Longrightarrow> conn_of (heap c) a \<noteq> Some (cw_conn w)"
  shows "life (put_stmt a None c)"
proof -
  have own: "conn_of (heap (put_stmt a None c)) = (conn_of (heap c))(a := None)"
    by (auto simp: conn_of_def put_stmt_def fun_eq_iff)
  have queues: "queues_ok (put_stmt a None c)"
    unfolding queues_ok_def
  proof (intro allI impI)
    fix k w assume "map_of (workers (put_stmt a None c)) k = Some w"
    then have w: "map_of (workers c) k = Some w" by (simp add: put_stmt_def)
    have "jobs_ok (cw_conn w) (conn_of (heap c)) (cw_jobs w) =
        jobs_ok (cw_conn w) (conn_of (heap (put_stmt a None c))) (cw_jobs w)"
      by (rule jobs_ok_local) (use unused [OF w] own in auto)
    with life_queue [OF l w] show "jobs_ok (cw_conn w) (conn_of (heap (put_stmt a None c))) (cw_jobs w)" by simp
  qed
  have "stmts_live (put_stmt a None c)"
    using l own unreg unfolding life_def stmts_live_def by (auto simp: put_stmt_def)
  moreover have "stmts_wf (heap (put_stmt a None c))"
    using l by (auto simp: life_def stmts_wf_def put_stmt_def)
  ultimately show ?thesis
    using l queues by (simp add: life_def conns_live_def workers_match_def put_stmt_def)
qed

text \<open>Taking a statement out of the registry.\<close>

lemma unregister_life:
  assumes l: "life c" and h: "map_of (statements c) h = Some a"
  shows "life (c\<lparr>statements := erase h (statements c)\<rparr>)"
    and "map_of (statements (c\<lparr>statements := erase h (statements c)\<rparr>)) k \<noteq> Some a"
proof -
  show "life (c\<lparr>statements := erase h (statements c)\<rparr>)"
    using l by (auto simp: life_defs reg_ok_erase split: if_splits)
  show "map_of (statements (c\<lparr>statements := erase h (statements c)\<rparr>)) k \<noteq> Some a"
    using l h unfolding life_def stmts_live_def by auto
qed

lemma removeStatement_life:
  assumes l: "life c"
  shows "\<exists>b c'. removeStatement h c = Found (b, c') \<and> life c' \<and> map_of (statements c') = (map_of (statements c))(h := None)"
proof (cases "map_of (statements c) h")
  case None
  with l show ?thesis by (auto simp: removeStatement_def fun_upd_idem)
next
  case (Some a)
  let ?c = "c\<lparr>statements := erase h (statements c)\<rparr>"
  note l' = unregister_life [OF l Some]
  from life_registered [OF l Some] obtain p ca where p: "so_stmts (heap c) a = Some p" "ps_conn p = Some ca"
    by (auto simp: conn_of_def Option.bind_eq_Some_conv)
  let ?ch = "connectionHandleOf (Some ca) ?c"
  show ?thesis
  proof (cases "?ch = 0")
    case True
    have "life (put_stmt a None ?c)"
    proof (rule put_stmt_none_life [OF l'(1) l'(2)])
      fix k w assume "map_of (workers ?c) k = Some w"
      from no_owner [OF l'(1) True this] p show "conn_of (heap ?c) a \<noteq> Some (cw_conn w)"
        by (auto simp: conn_of_def)
    qed
    with Some p True show ?thesis by (auto simp: removeStatement_def put_stmt_def)
  next
    case False
    from owner_worker [OF l'(1) refl False] obtain w where
      w: "map_of (workers ?c) ?ch = Some w" "cw_conn w = ca" by blast
    let ?job = "default_job\<lparr>qj_connectionHandle := ?ch, qj_statementToClose := Some a\<rparr>"
    have q: "jobs_ok (cw_conn w) (conn_of (heap ?c)) (cw_jobs w @ [?job])"
      by (rule jobs_ok_uses [OF life_queue [OF l'(1) w(1)], of a])
         (use p w(1,2) life_not_closing [OF l Some, of ?ch w] in \<open>simp_all add: conn_of_def default_job_def\<close>)
    have "life (push_worker ?ch w ?job ?c)"
      by (rule push_worker_life [OF l'(1) w(1) q]) (use l'(2) in \<open>simp add: default_job_def\<close>)
    moreover have "removeStatement h c = Found (True, push_worker ?ch w ?job ?c)"
      using Some p w(1) False by (simp add: removeStatement_def Let_def)
    ultimately show ?thesis by (auto simp: push_worker_def)
  qed
qed

lemma remove_statements_life:
  "life c \<Longrightarrow> \<exists>c'. remove_statements hs c = Found c' \<and> life c' \<and>
     (\<forall>k. map_of (statements c') k = (if k \<in> set hs then None else map_of (statements c) k))"
proof (induction hs arbitrary: c)
  case Nil
  then show ?case by simp
next
  case (Cons h hs)
  from removeStatement_life [OF Cons.prems, of h] obtain b c1 where c1: "removeStatement h c = Found (b, c1)" "life c1"
      "map_of (statements c1) = (map_of (statements c))(h := None)" by blast
  from Cons.IH [OF c1(2)] c1 show ?case by auto
qed

lemma clearStatements_life:
  assumes l: "life c"
  shows "\<exists>c'. clearStatements c = Found c' \<and> life c' \<and> statements c' = []"
proof -
  from remove_statements_life [OF l, of "map fst (statements c)"] obtain c' where
    c': "remove_statements (map fst (statements c)) c = Found c'" "life c'" by blast
  from c'(2) have "life (c'\<lparr>statements := []\<rparr>)"
    by (simp add: life_defs reg_ok_def)
  with c'(1) show ?thesis by (simp add: clearStatements_def)
qed

subsection \<open>Connections\<close>

lemma addConnection_life:
  assumes l: "life c" and fresh: "so_conns (heap c) a = None"
  shows "life (snd (addConnection (Some a) multi (put_conn a (Some conn) c)))"
proof -
  let ?c = "snd (addConnection (Some a) multi (put_conn a (Some conn) c))"
  have nw: "map_of (workers c) (nextHandle c) = None" "map_of (connections c) (nextHandle c) = None"
    using l reg_ok_fresh [of "nextHandle c" "connections c"] life_worker [OF l, of "nextHandle c"]
    by (cases "map_of (workers c) (nextHandle c)"; force simp: life_def)+
  have unreg: "map_of (connections c) h \<noteq> Some a" for h
    using life_conn [OF l, of h a] fresh by blast
  have conns: "conns_live ?c"
    using l unreg nw unfolding life_def conns_live_def
    by (auto simp: addConnection_def put_conn_def Let_def split: if_splits)
  have match: "workers_match ?c"
    using l nw unfolding life_def workers_match_def by (auto simp: addConnection_def put_conn_def Let_def)
  have queues: "queues_ok ?c"
    using l nw unfolding life_def queues_ok_def
    by (auto simp: addConnection_def put_conn_def Let_def split: if_splits)
  have stmts: "stmts_live ?c"
    using l nw unfolding life_def stmts_live_def
    by (auto simp: addConnection_def put_conn_def Let_def split: if_splits)
  have "distinct (map fst (workers ?c))"
    using l nw by (auto simp: life_def addConnection_def put_conn_def Let_def emplace_def map_of_eq_None_iff)
  moreover have "stmts_wf (heap ?c)"
    using l by (simp add: life_def stmts_wf_def addConnection_def put_conn_def Let_def)
  ultimately show ?thesis
    using l conns match queues stmts
    by (simp add: life_def addConnection_def put_conn_def Let_def reg_ok_emplace)
qed

lemma drop_connection_life:
  assumes l: "life c" and w: "map_of (workers c) h = Some w" and idle: "cw_jobs w = []"
  shows "life (snd (drop_connection h (c\<lparr>workers := erase h (workers c)\<rparr>)))"
proof -
  let ?c = "snd (drop_connection h (c\<lparr>workers := erase h (workers c)\<rparr>))"
  let ?a = "cw_conn w"
  have a: "map_of (connections c) h = Some ?a" using life_worker [OF l w] .
  have other: "map_of (connections c) k \<noteq> Some ?a" if "k \<noteq> h" for k
    using l a that unfolding life_def conns_live_def by blast
  have conns: "conns_live ?c"
    using l other a unfolding life_def conns_live_def
    by (auto simp: drop_connection_def put_conn_def Let_def split: if_splits)
  have match: "workers_match ?c"
    using l a unfolding life_def workers_match_def
    by (auto simp: drop_connection_def put_conn_def Let_def split: if_splits)
  have "queues_ok ?c" "stmts_live ?c" "stmts_wf (heap ?c)"
    using l a unfolding life_def queues_ok_def stmts_live_def stmts_wf_def
    by (auto simp: drop_connection_def put_conn_def Let_def split: if_splits)
  moreover have "distinct (map fst (workers ?c))"
    using l a by (auto simp: life_def drop_connection_def put_conn_def Let_def erase_def delete_keys distinct_removeAll)
  ultimately show ?thesis
    using l a conns match by (simp add: life_def drop_connection_def put_conn_def Let_def reg_ok_erase)
qed

lemma removeConnection_life:
  assumes n: "small_counts sapi" and l: "life c" and run: "removeConnection api sapi elapsed h c = Some r"
  shows "\<exists>b c'. r = Found (b, c') \<and> life c'"
proof (cases "map_of (workers c) h")
  case None
  with l have none: "map_of (connections c) h = None" unfolding life_def workers_match_def by (metis option.simps(8))
  obtain b c' where d: "drop_connection h c = (b, c')" by (cases "drop_connection h c")
  then have "same_life c c'" using none by (auto simp: drop_connection_def same_life_def Let_def)
  with l life_same have "life c'" by blast
  with run None d show ?thesis by (auto simp: removeConnection_def)
next
  case (Some w)
  with run obtain x where x: "stop_worker api sapi elapsed h w c = Some x"
      "r = access_bind x (\<lambda>c'. Found (drop_connection h (c'\<lparr>workers := erase h (workers c')\<rparr>)))"
    by (auto simp: removeConnection_def)
  from stop_worker_life [OF n l Some x(1)] obtain c1 where c1: "x = Found c1" "life c1"
      "map_of (workers c1) = (map_of (workers c))(h \<mapsto> w\<lparr>cw_jobs := []\<rparr>)" by blast
  then have w1: "map_of (workers c1) h = Some (w\<lparr>cw_jobs := []\<rparr>)" by simp
  have "life (snd (drop_connection h (c1\<lparr>workers := erase h (workers c1)\<rparr>)))"
    by (rule drop_connection_life [OF c1(2) w1]) simp
  with x(2) c1(1) show ?thesis
    by (cases "drop_connection h (c1\<lparr>workers := erase h (workers c1)\<rparr>)") simp
qed

text \<open>Stopping every worker: the list walked is the registry itself, whose entries change only when their turn comes.\<close>

lemma stop_all_life:
  assumes n: "small_counts sapi"
  shows "life c \<Longrightarrow> distinct (map fst ws) \<Longrightarrow> (\<forall>(h, w) \<in> set ws. map_of (workers c) h = Some w) \<Longrightarrow>
    stop_all api sapi elapsed ws c = Some r \<Longrightarrow>
    \<exists>c'. r = Found c' \<and> life c' \<and> statements c' = statements c"
proof (induction ws arbitrary: c)
  case Nil
  then show ?case by auto
next
  case (Cons hw ws)
  obtain h w where hw: "hw = (h, w)" by (cases hw)
  with Cons.prems(3) have w: "map_of (workers c) h = Some w" by simp
  from Cons.prems(4) hw obtain x where x: "stop_worker api sapi elapsed h w c = Some x"
    by (cases "stop_worker api sapi elapsed h w c") auto
  from stop_worker_life [OF n Cons.prems(1) w x] obtain c1 where c1: "x = Found c1" "life c1"
      "statements c1 = statements c" "map_of (workers c1) = (map_of (workers c))(h \<mapsto> w\<lparr>cw_jobs := []\<rparr>)" by blast
  have "\<forall>(k, v) \<in> set ws. map_of (workers c1) k = Some v"
    using Cons.prems(2,3) hw c1(4) by (force simp: image_iff)
  moreover have "stop_all api sapi elapsed ws c1 = Some r"
    using Cons.prems(4) hw x c1(1) by simp
  moreover have "distinct (map fst ws)" using Cons.prems(2) by simp
  ultimately show ?case using Cons.IH [OF c1(2)] c1(3) by auto
qed

lemma free_conns_frame:
  "so_stmts (heap (free_conns m c)) = so_stmts (heap c) \<and> statements (free_conns m c) = statements c \<and>
   workers (free_conns m c) = workers c \<and> nextHandle (free_conns m c) = nextHandle c \<and>
   nextStatement (free_conns m c) = nextStatement c"
  by (induction m c rule: free_conns.induct) (simp_all add: put_conn_def)

lemma clearConnections_life:
  assumes n: "small_counts sapi" and l: "life c" and run: "clearConnections api sapi elapsed c = Some r"
  shows "\<exists>c'. r = Found c' \<and> life c' \<and> statements c' = statements c \<and> connections c' = [] \<and> workers c' = []"
proof -
  from run obtain x where x: "stop_all api sapi elapsed (workers c) c = Some x"
      "r = access_bind x (\<lambda>c'. Found ((free_conns (connections c') (c'\<lparr>workers := []\<rparr>))
         \<lparr>connections := [], multiStatementAllowed := [], guards := [], rateLog := []\<rparr>))"
    by (auto simp: clearConnections_def)
  have "\<forall>(h, w) \<in> set (workers c). map_of (workers c) h = Some w"
    using l by (auto simp: life_def)
  from stop_all_life [OF n l _ this x(1)] l obtain c1 where c1: "x = Found c1" "life c1" "statements c1 = statements c"
    by (auto simp: life_def)
  let ?c = "(free_conns (connections c1) (c1\<lparr>workers := []\<rparr>))
         \<lparr>connections := [], multiStatementAllowed := [], guards := [], rateLog := []\<rparr>"
  note fr = free_conns_frame [of "connections c1" "c1\<lparr>workers := []\<rparr>"]
  have own: "conn_of (heap ?c) = conn_of (heap c1)"
    using fr by (simp add: conn_of_def fun_eq_iff)
  have "life ?c"
    using c1(2) fr own by (auto simp: life_defs reg_ok_def stmts_wf_def)
  with x(2) c1 fr show ?thesis by simp
qed

lemma reset_life:
  assumes n: "small_counts sapi" and l: "life c" and run: "reset_component api sapi elapsed c = Some r"
  shows "\<exists>c'. r = Found c' \<and> life c' \<and> statements c' = [] \<and> connections c' = [] \<and> workers c' = []"
proof -
  let ?c0 = "(clearActiveCache c)\<lparr>savedCaches := [], nextCache := 1\<rparr>"
  have "same_life c ?c0" by (simp add: same_life_def clearActiveCache_def)
  with l life_same have "life ?c0" by blast
  from clearStatements_life [OF this] obtain c1 where c1: "clearStatements ?c0 = Found c1" "life c1" "statements c1 = []"
    by blast
  let ?c2 = "(clearModels (c1\<lparr>nextStatement := 1\<rparr>))\<lparr>nextModel := 1\<rparr>"
  have l2: "life ?c2" and s2: "statements ?c2 = []"
    using c1(2,3) by (auto simp: life_defs reg_ok_def clearModels_def)
  from run c1(1) obtain x where x: "clearConnections api sapi elapsed ?c2 = Some x"
      "r = access_bind x (\<lambda>c. Found ((clearOptions c)\<lparr>nextHandle := 1, nextOptions := 1\<rparr>))"
    by (auto simp: reset_component_def Let_def)
  from clearConnections_life [OF n l2 x(1)] obtain c3 where c3: "x = Found c3" "life c3" "statements c3 = []"
      "connections c3 = []" "workers c3 = []" using s2 by auto
  have "life ((clearOptions c3)\<lparr>nextHandle := 1, nextOptions := 1\<rparr>)"
    using c3 by (auto simp: life_defs reg_ok_def clearOptions_def)
  with x(2) c3 show ?thesis by (simp add: clearOptions_def)
qed

section \<open>Every history\<close>

lemma put_conn_live_life: "life c \<Longrightarrow> so_conns (heap c) a \<noteq> None \<Longrightarrow> life (put_conn a (Some conn) c)"
  unfolding life_def conns_live_def workers_match_def queues_ok_def stmts_live_def stmts_wf_def
  by (auto simp: put_conn_def)

text \<open>The results a script can come to read: those waiting in the completed queue, those retained, the active one.\<close>

definition same_results :: "('m, 'st) component \<Rightarrow> ('m, 'st) component \<Rightarrow> bool" where
  "same_results c d \<longleftrightarrow> completed (engine d) = completed (engine c) \<and> savedCaches d = savedCaches c \<and>
     activeCache d = activeCache c \<and> activeResultIndex d = activeResultIndex c \<and> nextCache d = nextCache c"

text \<open>The main thread and the workers only put password jobs at the back of the hashing pool's input.\<close>

definition hashes_grow :: "('m, 'st) component \<Rightarrow> ('m, 'st) component \<Rightarrow> bool" where
  "hashes_grow c d \<longleftrightarrow> same_hashing (engine c) (engine d) \<and>
     (\<exists>js. hashInput (engine d) = hashInput (engine c) @ js)"

lemma hashes_grow_same: "engine d = engine c \<Longrightarrow> hashes_grow c d"
  by (simp add: hashes_grow_def same_hashing_def)

text \<open>
  What can happen to the component: the natives' operations on the main thread, a dispatch making a result active, and
  the workers executing jobs, in any order.  New objects are allocated where no live one is.  \<open>internal\<close> is everything
  that touches neither the objects shared with the workers nor the results (options, models, limits, password hashes).
  Two things are no steps of these: at the start of a tick the completed jobs are taken; and the hashing threads are
  started, and they and the tick after its jobs take from the hash queues and add to them (how is \<open>HashDelivery\<close>'s
  concern).
\<close>

inductive comp_step ::
    "'m client \<Rightarrow> ('m, 'st) stmt_client \<Rightarrow> ('m, 'st) component \<Rightarrow> ('m, 'st) component \<Rightarrow> bool"
  for api :: "'m client" and sapi :: "('m, 'st) stmt_client" where
  connect: "so_conns (heap c) a = None \<Longrightarrow>
    comp_step api sapi c (snd (addConnection (Some a) multi (put_conn a (Some conn) c)))"
| disconnect: "removeConnection api sapi elapsed h c = Some (Found (b, c')) \<Longrightarrow> comp_step api sapi c c'"
| prepare: "so_stmts (heap c) a = None \<Longrightarrow> map_of (connections c) h = Some ca \<Longrightarrow>
    comp_step api sapi c (snd (addStatement (Some a) (put_stmt a (Some (new_statement (Some ca) sql)) c)))"
| bind_param: "map_of (statements c) h = Some a \<Longrightarrow> so_stmts (heap c) a = Some p \<Longrightarrow>
    q \<in> {bindInt i v p, bindFloat i x p, bindString i t p, bindNull i p} \<Longrightarrow>
    comp_step api sapi c (put_stmt a (Some q) c)"
| stmt_close: "removeStatement h c = Found (b, c') \<Longrightarrow> comp_step api sapi c c'"
| enqueue: "job_safe c job \<Longrightarrow> job_fresh job \<Longrightarrow> enqueueJob now pend job c = (r, c') \<Longrightarrow> comp_step api sapi c c'"
| sync: "job_safe c job \<Longrightarrow> job_fresh job \<Longrightarrow>
    runJobSync api sapi elapsed now pend job c = Some (Found (x, r, c')) \<Longrightarrow> comp_step api sapi c c'"
| work: "map_of (workers c) h = Some w \<Longrightarrow> work_off api sapi elapsed h w n c = Some (Found (x, c')) \<Longrightarrow>
    comp_step api sapi c c'"
| use_conn: "map_of (connections c) h = Some a \<Longrightarrow> comp_step api sapi c (put_conn a (Some conn) c)"
| restart: "reset_component api sapi elapsed c = Some (Found c') \<Longrightarrow> comp_step api sapi c c'"
| activate: "rectangular_result r \<Longrightarrow> comp_step api sapi c (setActiveCache (Some r) 0 c)"
| deactivate: "comp_step api sapi c (clearActiveCache c)"
| select: "comp_step api sapi c (snd (setActiveResultIndex i c))"
| retain: "comp_step api sapi c (snd (saveActiveCache c))"
| reactivate: "comp_step api sapi c (snd (activateSavedCache i c))"
| release: "comp_step api sapi c (snd (deleteSavedCache i c))"
| internal: "same_life c c' \<Longrightarrow> same_results c c' \<Longrightarrow> hashes_grow c c' \<Longrightarrow> comp_step api sapi c c'"

inductive comp_reach ::
    "'m client \<Rightarrow> ('m, 'st) stmt_client \<Rightarrow> ('m, 'st) component \<Rightarrow> bool"
  for api :: "'m client" and sapi :: "('m, 'st) stmt_client" where
  init: "comp_reach api sapi new_component"
| step: "comp_reach api sapi c \<Longrightarrow> comp_step api sapi c c' \<Longrightarrow> comp_reach api sapi c'"
| drain: "comp_reach api sapi c \<Longrightarrow> drainCompleted (engine c) = (js, e) \<Longrightarrow> comp_reach api sapi (c\<lparr>engine := e\<rparr>)"
| hashing: "comp_reach api sapi c \<Longrightarrow> completed e = completed (engine c) \<Longrightarrow> comp_reach api sapi (c\<lparr>engine := e\<rparr>)"

lemma comp_step_life:
  assumes n: "small_counts sapi" and st: "comp_step api sapi c c'" and l: "life c"
  shows "life c'"
  using st
proof cases
  case (connect a multi conn)
  then show ?thesis using addConnection_life [OF l] by blast
next
  case (disconnect elapsed h b)
  then show ?thesis using removeConnection_life [OF n l] by blast
next
  case (prepare a h ca sql)
  then show ?thesis using addStatement_life [OF l] by blast
next
  case (bind_param h a p q i v x t)
  from l bind_param(3) have "ps_wf p" by (auto simp: life_def stmts_wf_def)
  with bind_param(4) have "ps_wf q" "ps_conn q = ps_conn p" using bind_wf bind_conn by auto
  with bind_param(1,3) put_stmt_same_conn_life [OF l] show ?thesis by blast
next
  case (stmt_close h b)
  then show ?thesis using removeStatement_life [OF l, of h] by auto
next
  case (enqueue job now pend r)
  then show ?thesis using enqueueJob_life [OF l] by blast
next
  case (sync job elapsed now pend x r)
  then show ?thesis using runJobSync_life [OF n l] by blast
next
  case (work h w elapsed k x)
  then show ?thesis using work_off_life [OF n l] by blast
next
  case (use_conn h a conn)
  then show ?thesis using put_conn_live_life [OF l life_conn [OF l]] by blast
next
  case (restart elapsed)
  then show ?thesis using reset_life [OF n l] by blast
next
  case (activate r)
  then have "same_life c c'" by (simp add: same_life_def setActiveCache_def)
  then show ?thesis using l life_same by blast
next
  case deactivate
  then have "same_life c c'" by (simp add: same_life_def clearActiveCache_def)
  then show ?thesis using l life_same by blast
next
  case (select i)
  then have "same_life c c'" by (simp add: same_life_def setActiveResultIndex_def split: option.split)
  then show ?thesis using l life_same by blast
next
  case retain
  then have "same_life c c'" by (simp add: same_life_def saveActiveCache_def split: option.split)
  then show ?thesis using l life_same by blast
next
  case (reactivate i)
  then have "same_life c c'" by (simp add: same_life_def activateSavedCache_def split: option.split)
  then show ?thesis using l life_same by blast
next
  case (release i)
  then have "same_life c c'" by (simp add: same_life_def deleteSavedCache_def)
  then show ?thesis using l life_same by blast
next
  case internal
  then show ?thesis using l life_same by blast
qed

lemma comp_reach_life: "comp_reach api sapi c \<Longrightarrow> small_counts sapi \<Longrightarrow> life c"
proof (induction rule: comp_reach.induct)
  case init
  show ?case by (rule life_new)
next
  case (step c c')
  then show ?case using comp_step_life by blast
next
  case (drain c js e)
  have "same_life c (c\<lparr>engine := e\<rparr>)" by (simp add: same_life_def)
  with drain show ?case using life_same by blast
next
  case (hashing c e)
  have "same_life c (c\<lparr>engine := e\<rparr>)" by (simp add: same_life_def)
  with hashing show ?case using life_same by blast
qed

lemma one_row_small: "small_counts one_row_client"
  by (simp add: small_counts_def one_row_client_def)

section \<open>Properties\<close>

text \<open>
  C5: no use after free on any worker: after any history of connecting, preparing, binding, executing, closing,
  disconnecting, restarting and work done by the workers, in any order, a worker that executes any number of its
  queued jobs follows no dangling pointer to a statement or a connection and reads no parameter out of bounds.
\<close>

theorem no_use_after_free:
  assumes "comp_reach api sapi c" and "small_counts sapi" and "map_of (workers c) h = Some w"
    and "work_off api sapi elapsed h w n c = Some r"
  shows "\<exists>p c'. r = Found (p, c')"
  using work_off_life [OF assms(2) comp_reach_life [OF assms(1,2)] assms(3,4)] by blast

definition connected :: "(nat, nat) component" where
  "connected = snd (addConnection (Some 0) False (put_conn 0 (Some new_Connection) new_component))"

definition with_stmt :: "(nat, nat) component" where
  "with_stmt = snd (addStatement (Some 5) (put_stmt 5 (Some (new_statement (Some 0) ''SELECT ?'')) connected))"

lemma with_stmt_reach: "comp_reach countdown_client one_row_client with_stmt"
  unfolding with_stmt_def connected_def
  by (rule comp_reach.step [OF comp_reach.step [OF comp_reach.init]], rule comp_step.connect)
     (auto intro!: comp_step.prepare [of _ _ 1] simp: new_component_def put_conn_def addConnection_def Let_def emplace_def)

lemma with_stmt_closed:
  "removeStatement 1 with_stmt = Found (True, with_stmt\<lparr>statements := [], workers := [(1, \<lparr>cw_conn = 0,
     cw_jobs = [default_job\<lparr>qj_connectionHandle := 1, qj_statementToClose := Some 5\<rparr>]\<rparr>)]\<rparr>)"
  by (simp add: removeStatement_def with_stmt_def connected_def addStatement_def put_stmt_def put_conn_def
      addConnection_def new_component_def emplace_def erase_def assign_def connectionHandleOf_def push_worker_def
      new_statement_def Let_def)

theorem no_use_after_free_witness:
  "\<exists>p c'. work_off countdown_client one_row_client (\<lambda>_. 0) 1
     \<lparr>cw_conn = 0, cw_jobs = [default_job\<lparr>qj_connectionHandle := 1, qj_statementToClose := Some 5\<rparr>]\<rparr> 1
     (with_stmt\<lparr>statements := [], workers := [(1, \<lparr>cw_conn = 0,
     cw_jobs = [default_job\<lparr>qj_connectionHandle := 1, qj_statementToClose := Some 5\<rparr>]\<rparr>)]\<rparr>) = Some (Found (p, c'))"
  (is "\<exists>p c'. work_off _ _ _ _ ?w _ ?c = _")
proof -
  have r: "comp_reach countdown_client one_row_client ?c"
    by (rule comp_reach.step [OF with_stmt_reach], rule comp_step.stmt_close, rule with_stmt_closed)
  have w: "map_of (workers ?c) 1 = Some ?w" by simp
  have "\<exists>x. work_off countdown_client one_row_client (\<lambda>_. 0) 1 ?w 1 ?c = Some x"
    by (cases "so_stmts (heap with_stmt) 5") (simp_all add: work_off_def process_job_def)
  then obtain x where x: "work_off countdown_client one_row_client (\<lambda>_. 0) 1 ?w 1 ?c = Some x" by blast
  from no_use_after_free [OF r one_row_small w x] x show ?thesis by blast
qed

text \<open>
  The main thread follows no dangling pointer either: after any such history every registered statement is live,
  \<^verbatim>\<open>removeStatement\<close> (which reads the statement) succeeds for every handle, and where a statement is still
  queued to be closed its handle is no longer registered.
\<close>

theorem registered_statements_live:
  assumes "comp_reach api sapi c" and "small_counts sapi"
  shows "(getStatement h c = Some a \<longrightarrow> so_stmts (heap c) a \<noteq> None \<and>
      (\<forall>k w. map_of (workers c) k = Some w \<longrightarrow> a \<notin> closes (cw_jobs w))) \<and>
    (\<exists>b c'. removeStatement h c = Found (b, c') \<and> getStatement h c' = None)"
proof -
  have l: "life c" using comp_reach_life [OF assms] .
  from removeStatement_life [OF l, of h] life_registered [OF l, of h a] life_not_closing [OF l, of h a]
  show ?thesis by (auto simp: getStatement_def conn_of_def Option.bind_eq_Some_conv)
qed

theorem registered_statements_live_witness: "so_stmts (heap with_stmt) 5 \<noteq> None"
  using registered_statements_live [OF with_stmt_reach one_row_small, of 1 5]
  by (simp add: getStatement_def with_stmt_def addStatement_def put_stmt_def connected_def put_conn_def addConnection_def
      new_component_def emplace_def Let_def)

text \<open>
  A restart leaves nothing behind that points anywhere: from any reachable state it succeeds, and afterwards no
  connection, worker, statement, model, options set or saved result is registered, and none is active; but the jobs
  completed before it are still waiting to be dispatched, while the handles start again at 1.
\<close>

theorem reset_clean:
  assumes "comp_reach api sapi c" and "small_counts sapi" and "reset_component api sapi elapsed c = Some r"
  shows "\<exists>c' js. r = Found c' \<and> connections c' = [] \<and> workers c' = [] \<and> statements c' = [] \<and> models c' = [] \<and>
    options c' = [] \<and> savedCaches c' = [] \<and> activeCache c' = None \<and> nextModel c' = 1 \<and>
    completed (engine c') = completed (engine c) @ js"
proof -
  from reset_life [OF assms(2) comp_reach_life [OF assms(1,2)] assms(3)] obtain c' where
    "r = Found c'" "connections c' = []" "workers c' = []" "statements c' = []" by blast
  with reset_frame [of api sapi elapsed c c'] assms(3) show ?thesis by blast
qed

theorem reset_clean_witness:
  "\<exists>c'. reset_component countdown_client one_row_client (\<lambda>_. 0) new_component = Some (Found c') \<and> models c' = []"
proof -
  have "\<exists>r. reset_component countdown_client one_row_client (\<lambda>_. 0) new_component = Some r"
    by (simp add: reset_component_def clearStatements_def clearConnections_def new_component_def clearActiveCache_def
        clearModels_def)
  then obtain r where r: "reset_component countdown_client one_row_client (\<lambda>_. 0) new_component = Some r" by blast
  from reset_clean [OF comp_reach.init one_row_small r] r show ?thesis by blast
qed

end
