(* ===== verification/ResultNatives.thy ===== *)
theory ResultNatives
  imports Component
begin

text \<open>
  The natives that read the active result, \<^verbatim>\<open>mysql_rs_*\<close> of \<^verbatim>\<open>src/natives.cpp\<close>, over the component's active result
  set.  Each stores into its output parameter and answers whether there was something to read.
\<close>

section \<open>Shape of the result\<close>

definition rs_row_count :: "('m, 'st) component \<Rightarrow> (int \<times> bool) access" where
  "rs_row_count c = access_bind (activeSet c)
     (\<lambda>s. Found (case s of Some t \<Rightarrow> (rowCount t, True) | None \<Rightarrow> (0, False)))"

definition rs_field_count :: "('m, 'st) component \<Rightarrow> (int \<times> bool) access" where
  "rs_field_count c = access_bind (activeSet c)
     (\<lambda>s. Found (case s of Some t \<Rightarrow> (fieldCount t, True) | None \<Rightarrow> (0, False)))"

definition rs_set_count :: "('m, 'st) component \<Rightarrow> int \<times> bool" where
  "rs_set_count c = (case activeCache c of Some r \<Rightarrow> (resultCount r, True) | None \<Rightarrow> (0, False))"

definition rs_field_name :: "int \<Rightarrow> ('m, 'st) component \<Rightarrow> (string \<times> bool) access" where
  "rs_field_name i c = access_bind (activeSet c) (\<lambda>s. case fieldName s i of
       Found f \<Rightarrow> Found (rf_name f, True)
     | Null \<Rightarrow> Found ([], False)
     | Undefined_Behaviour \<Rightarrow> Undefined_Behaviour)"

definition rs_field_type :: "int \<Rightarrow> ('m, 'st) component \<Rightarrow> int access" where
  "rs_field_type i c = access_bind (activeSet c) (\<lambda>s. case fieldName s i of
       Found f \<Rightarrow> Found (rf_type f)
     | Null \<Rightarrow> Found (- 1)
     | Undefined_Behaviour \<Rightarrow> Undefined_Behaviour)"

definition rs_select_set :: "int \<Rightarrow> ('m, 'st) component \<Rightarrow> bool \<times> ('m, 'st) component" where
  "rs_select_set result_index c = setActiveResultIndex result_index c"

definition MySQL_Count :: "int \<Rightarrow> ('m, 'st) component \<Rightarrow> int access" where
  "MySQL_Count what c =
     (if what = 2 then Found (case activeCache c of Some r \<Rightarrow> resultCount r | None \<Rightarrow> 0)
      else access_bind (activeSet c) (\<lambda>s. Found (case s of
          None \<Rightarrow> 0 | Some t \<Rightarrow> if what = 1 then fieldCount t else rowCount t)))"

section \<open>Values\<close>

text \<open>The cell a getter reads, by column index and by column name.\<close>

definition active_cell :: "int \<Rightarrow> int \<Rightarrow> ('m, 'st) component \<Rightarrow> ResultValue access" where
  "active_cell row column c = access_bind (activeSet c) (\<lambda>s. cellAt s row column)"

definition active_cell_by :: "int \<Rightarrow> string \<Rightarrow> ('m, 'st) component \<Rightarrow> ResultValue access" where
  "active_cell_by row column c = access_bind (activeSet c) (\<lambda>s. cellByName s row column)"

definition get_string :: "int \<Rightarrow> int \<Rightarrow> ('m, 'st) component \<Rightarrow> (string \<times> bool) access" where
  "get_string row column c = rs_get_string (active_cell row column c)"

definition get_int :: "nat \<Rightarrow> int \<Rightarrow> int \<Rightarrow> ('m, 'st) component \<Rightarrow> (cell \<times> bool) access" where
  "get_int w row column c = rs_get_int w (active_cell row column c)"

definition get_float :: "(string \<Rightarrow> cell) \<Rightarrow> int \<Rightarrow> int \<Rightarrow> ('m, 'st) component \<Rightarrow> (cell \<times> bool) access" where
  "get_float atof row column c = rs_get_float atof (active_cell row column c)"

definition get_bool :: "nat \<Rightarrow> int \<Rightarrow> int \<Rightarrow> ('m, 'st) component \<Rightarrow> (bool \<times> bool) access" where
  "get_bool w row column c = rs_get_bool w (active_cell row column c)"

definition get_is_null :: "int \<Rightarrow> int \<Rightarrow> ('m, 'st) component \<Rightarrow> (bool \<times> bool) access" where
  "get_is_null row column c = rs_is_null (active_cell row column c)"

definition get_string_by :: "int \<Rightarrow> string \<Rightarrow> ('m, 'st) component \<Rightarrow> (string \<times> bool) access" where
  "get_string_by row column c = rs_get_string (active_cell_by row column c)"

definition get_int_by :: "nat \<Rightarrow> int \<Rightarrow> string \<Rightarrow> ('m, 'st) component \<Rightarrow> (cell \<times> bool) access" where
  "get_int_by w row column c = rs_get_int w (active_cell_by row column c)"

definition get_float_by :: "(string \<Rightarrow> cell) \<Rightarrow> int \<Rightarrow> string \<Rightarrow> ('m, 'st) component \<Rightarrow> (cell \<times> bool) access" where
  "get_float_by atof row column c = rs_get_float atof (active_cell_by row column c)"

definition get_bool_by :: "nat \<Rightarrow> int \<Rightarrow> string \<Rightarrow> ('m, 'st) component \<Rightarrow> (bool \<times> bool) access" where
  "get_bool_by w row column c = rs_get_bool w (active_cell_by row column c)"

definition get_is_null_by :: "int \<Rightarrow> string \<Rightarrow> ('m, 'st) component \<Rightarrow> (bool \<times> bool) access" where
  "get_is_null_by row column c = rs_is_null (active_cell_by row column c)"

section \<open>Retaining and metadata\<close>

definition rs_retain :: "('m, 'st) component \<Rightarrow> int \<times> ('m, 'st) component" where
  "rs_retain c = saveActiveCache c"

definition rs_release :: "int \<Rightarrow> ('m, 'st) component \<Rightarrow> bool \<times> ('m, 'st) component" where
  "rs_release rs_id c = deleteSavedCache rs_id c"

definition rs_activate :: "int \<Rightarrow> ('m, 'st) component \<Rightarrow> bool \<times> ('m, 'st) component" where
  "rs_activate rs_id c = activateSavedCache rs_id c"

definition rs_deactivate :: "('m, 'st) component \<Rightarrow> bool \<times> ('m, 'st) component" where
  "rs_deactivate c = (True, clearActiveCache c)"

definition rs_is_active :: "('m, 'st) component \<Rightarrow> bool" where
  "rs_is_active c \<longleftrightarrow> activeCache c \<noteq> None"

definition rs_is_valid :: "int \<Rightarrow> ('m, 'st) component \<Rightarrow> bool" where
  "rs_is_valid rs_id c = isValidCache rs_id c"

text \<open>\<^verbatim>\<open>static_cast<int>\<close> of the 64-bit counters keeps their low 32 bits.\<close>

definition rs_affected_rows :: "('m, 'st) component \<Rightarrow> int access" where
  "rs_affected_rows c = access_bind (activeSet c)
     (\<lambda>s. Found (case s of Some t \<Rightarrow> wrap32 (uint (rs_affectedRows t)) | None \<Rightarrow> 0))"

definition rs_insert_id :: "('m, 'st) component \<Rightarrow> int access" where
  "rs_insert_id c = access_bind (activeSet c)
     (\<lambda>s. Found (case s of Some t \<Rightarrow> wrap32 (uint (rs_insertId t)) | None \<Rightarrow> 0))"

definition rs_warning_count :: "('m, 'st) component \<Rightarrow> int access" where
  "rs_warning_count c = access_bind (activeSet c)
     (\<lambda>s. Found (case s of Some t \<Rightarrow> sint (rs_warningCount t) | None \<Rightarrow> 0))"

text \<open>The elapsed time is never negative, so the division by 1000 is that of the integers.\<close>

definition rs_exec_time :: "int \<Rightarrow> ('m, 'st) component \<Rightarrow> int" where
  "rs_exec_time unit c = (case activeCache c of
       None \<Rightarrow> 0
     | Some r \<Rightarrow> wrap32 (if unit = 1 then qr_execTimeMicros r div 1000 else qr_execTimeMicros r))"

definition rs_query :: "('m, 'st) component \<Rightarrow> string \<times> bool" where
  "rs_query c = (case activeCache c of Some r \<Rightarrow> (qr_queryString r, True) | None \<Rightarrow> ([], False))"

end
