(* ===== verification/Rectangular.thy ===== *)
theory Rectangular
  imports Lifetime ResultNatives
begin

text \<open>
  What the natives that read results rely on: after any history of the component's steps, every result that is active,
  retained or waiting for its callback is rectangular.
\<close>

declare map_of_eq_Some_iff [simp del] Some_eq_map_of_iff [simp del]

section \<open>Every result a script can read is rectangular\<close>

definition job_ok :: "QueryJob \<Rightarrow> bool" where
  "job_ok j \<longleftrightarrow> (\<forall>r. qj_result j = Some r \<longrightarrow> rectangular_result r)"

definition queues_fresh :: "('m, 'st) component \<Rightarrow> bool" where
  "queues_fresh c \<longleftrightarrow> (\<forall>h w. map_of (workers c) h = Some w \<longrightarrow> (\<forall>j \<in> set (cw_jobs w). job_fresh j))"

definition results_ok :: "('m, 'st) component \<Rightarrow> bool" where
  "results_ok c \<longleftrightarrow> queues_fresh c \<and> (\<forall>j \<in> set (completed (engine c)). job_ok j) \<and>
     (\<forall>h r. map_of (savedCaches c) h = Some r \<longrightarrow> rectangular_result r) \<and>
     (\<forall>r. activeCache c = Some r \<longrightarrow> rectangular_result r)"

lemma job_done_ok: "job_done j \<Longrightarrow> job_ok j"
  by (auto simp: job_done_def job_ok_def)

lemma run_jobs_ok:
  assumes "run_jobs api sapi elapsed ca js (p, e, s) = Some (Found (p', e', s'))"
    and "\<forall>j \<in> set js. job_fresh j" and "\<forall>j \<in> set (completed e). job_ok j" and "\<forall>k. p = Some k \<longrightarrow> job_ok k"
  shows "(\<forall>j \<in> set (completed e'). job_ok j) \<and> (\<forall>k. p' = Some k \<longrightarrow> job_ok k)"
  using assms
proof (induction js arbitrary: p e s)
  case (Cons j js)
  then obtain d s1 where d: "process_job api sapi (elapsed j) (Some ca) j s = Some (Found (d, s1))"
    by (auto split: option.splits access.splits)
  have k: "job_ok k" if "delivered d = Some k" for k
    using process_job_done [OF _ d that] Cons.prems(2) job_done_ok by auto
  show ?case
  proof (cases d)
    case Dropped
    with d Cons.prems(1) have "run_jobs api sapi elapsed ca js (p, e, s1) = Some (Found (p', e', s'))" by simp
    then show ?thesis by (rule Cons.IH) (use Cons.prems in auto)
  next
    case (ToPromise q)
    with d Cons.prems(1) have "run_jobs api sapi elapsed ca js (Some q, e, s1) = Some (Found (p', e', s'))" by simp
    then show ?thesis by (rule Cons.IH) (use Cons.prems k ToPromise in auto)
  next
    case (ToSink q)
    with d Cons.prems(1) have "run_jobs api sapi elapsed ca js (p, push_completed q e, s1) = Some (Found (p', e', s'))"
      by simp
    then show ?thesis
      by (rule Cons.IH) (use Cons.prems k ToSink in \<open>auto simp: push_completed_def\<close>)
  qed
qed simp

lemma work_off_results:
  assumes run: "work_off api sapi elapsed h w n c = Some (Found (p, c'))" and ok: "results_ok c"
    and fresh: "\<forall>j \<in> set (cw_jobs w). job_fresh j"
  shows "results_ok c' \<and> (\<forall>j. p = Some j \<longrightarrow> job_ok j)"
  using run
proof (rule work_off_split)
  fix e s
  assume x: "run_jobs api sapi elapsed (cw_conn w) (take n (cw_jobs w)) (None, engine c, heap c) = Some (Found (p, e, s))"
    and c': "c' = c\<lparr>engine := e, heap := s, workers := assign h (w\<lparr>cw_jobs := drop n (cw_jobs w)\<rparr>) (workers c)\<rparr>"
  have "(\<forall>j \<in> set (completed e). job_ok j) \<and> (\<forall>k. p = Some k \<longrightarrow> job_ok k)"
    using run_jobs_ok [OF x] fresh ok by (auto simp: results_ok_def dest: in_set_takeD)
  with ok fresh show ?thesis
    unfolding results_ok_def queues_fresh_def c' by (auto dest: in_set_dropD)
qed

text \<open>Two states that agree on what the invariant is about.\<close>

definition same_view :: "('m, 'st) component \<Rightarrow> ('m, 'st) component \<Rightarrow> bool" where
  "same_view c d \<longleftrightarrow> workers d = workers c \<and> completed (engine d) = completed (engine c) \<and>
     savedCaches d = savedCaches c \<and> activeCache d = activeCache c"

lemma results_same: "same_view c d \<Longrightarrow> results_ok c = results_ok d"
  by (simp add: same_view_def results_ok_def queues_fresh_def)

lemma checkGuards_view: "checkGuards now pend job c = (r, c') \<Longrightarrow> same_view c c'"
  by (auto simp: checkGuards_def same_view_def Let_def split: if_splits)

lemma push_worker_results:
  "results_ok c \<Longrightarrow> map_of (workers c) h = Some w \<Longrightarrow> job_fresh job \<Longrightarrow> results_ok (push_worker h w job c)"
  unfolding results_ok_def queues_fresh_def push_worker_def by auto

lemma enqueueJob_results:
  assumes "enqueueJob now pend job c = (r, c')" and "results_ok c" and "job_fresh job"
  shows "results_ok c'"
  using assms(1)
proof (cases rule: enqueueJob_cases)
  case unknown
  with assms(2) show ?thesis by simp
next
  case (rejected w)
  with assms(2) results_same [OF checkGuards_view] show ?thesis by blast
next
  case (accepted w c1)
  have v: "same_view c c1" using accepted(3) by (rule checkGuards_view)
  with assms(2) results_same have "results_ok c1" by blast
  with accepted v assms(3) push_worker_results [of c1 "qj_connectionHandle job" w job] show ?thesis
    by (simp add: same_view_def)
qed

lemma runJobSync_results:
  assumes "runJobSync api sapi elapsed now pend job c = Some (Found (p, r, c'))" and "results_ok c" and "job_fresh job"
  shows "results_ok c' \<and> (\<forall>j. p = Some j \<longrightarrow> job_ok j)"
  using assms(1)
proof (cases rule: runJobSync_cases)
  case unknown
  with assms(2) show ?thesis by simp
next
  case (rejected w)
  with assms(2) results_same [OF checkGuards_view [OF rejected(2)]] show ?thesis by simp
next
  case (ran w c1 v)
  have ok1: "results_ok c1" using assms(2) results_same [OF checkGuards_view [OF ran(2)]] by simp
  have "\<forall>j \<in> set (cw_jobs v). job_fresh j"
    using assms(2,3) ran(1,3) by (auto simp: results_ok_def queues_fresh_def job_fresh_def)
  with work_off_results [OF ran(4) ok1] show ?thesis by blast
qed

lemma stop_worker_results:
  assumes "stop_worker api sapi elapsed h w c = Some (Found c')" and "results_ok c" and "\<forall>j \<in> set (cw_jobs w). job_fresh j"
  shows "results_ok c'"
  using assms(1) by (rule stop_worker_split) (use work_off_results assms(2,3) in blast)

lemma stop_all_results:
  "stop_all api sapi elapsed ws c = Some (Found c') \<Longrightarrow> results_ok c \<Longrightarrow>
    \<forall>(h, w) \<in> set ws. \<forall>j \<in> set (cw_jobs w). job_fresh j \<Longrightarrow> results_ok c'"
proof (induction ws arbitrary: c)
  case (Cons hw ws)
  obtain h w where hw: "hw = (h, w)" by (cases hw)
  from Cons.prems(1) [unfolded hw] obtain c1 where c1: "stop_worker api sapi elapsed h w c = Some (Found c1)"
      "stop_all api sapi elapsed ws c1 = Some (Found c')"
    by (rule stop_all_split)
  have "results_ok c1" using stop_worker_results [OF c1(1) Cons.prems(2)] Cons.prems(3) hw by auto
  with Cons.IH [OF c1(2)] Cons.prems(3) show ?case by auto
qed simp

lemma workers_fresh:
  assumes "results_ok c" and "life c"
  shows "\<forall>(h, w) \<in> set (workers c). \<forall>j \<in> set (cw_jobs w). job_fresh j"
  using assms unfolding results_ok_def queues_fresh_def life_def by (auto dest: map_of_is_SomeI)

lemma drop_connection_results:
  "drop_connection h (c\<lparr>workers := erase h (workers c)\<rparr>) = (b, c') \<Longrightarrow> results_ok c \<Longrightarrow> results_ok c'"
  unfolding results_ok_def queues_fresh_def
  by (auto simp: drop_connection_def put_conn_def Let_def split: option.splits if_splits)

lemma removeConnection_results:
  assumes "removeConnection api sapi elapsed h c = Some (Found (b, c'))" and "results_ok c"
  shows "results_ok c'"
  using assms(1)
proof (cases rule: removeConnection_cases)
  case unknown
  with assms(2) show ?thesis
    unfolding results_ok_def queues_fresh_def
    by (auto simp: drop_connection_def put_conn_def Let_def split: option.splits)
next
  case (stopped w c1)
  have "\<forall>j \<in> set (cw_jobs w). job_fresh j"
    using assms(2) stopped(1) unfolding results_ok_def queues_fresh_def by blast
  from stop_worker_results [OF stopped(2) assms(2) this] stopped(3) drop_connection_results show ?thesis by blast
qed

lemma removeStatement_results: "removeStatement h c = Found (b, c') \<Longrightarrow> results_ok c \<Longrightarrow> results_ok c'"
  unfolding removeStatement_def results_ok_def queues_fresh_def
  by (auto simp: push_worker_def put_stmt_def Let_def job_fresh_def default_job_def split: option.splits if_splits)

lemma remove_statements_results: "remove_statements hs c = Found c' \<Longrightarrow> results_ok c \<Longrightarrow> results_ok c'"
proof (induction hs arbitrary: c)
  case (Cons h hs)
  then show ?case by (blast elim: remove_statements_split intro: removeStatement_results)
qed simp

lemma clearStatements_results:
  assumes "clearStatements c = Found c'" and "results_ok c"
  shows "results_ok c'"
proof -
  from assms(1) obtain c1 where c1: "remove_statements (map fst (statements c)) c = Found c1" "c' = c1\<lparr>statements := []\<rparr>"
    by (rule clearStatements_split)
  have "same_view c1 c'" by (simp add: c1(2) same_view_def)
  with results_same remove_statements_results [OF c1(1) assms(2)] show ?thesis by blast
qed

lemma free_conns_view: "same_view c (free_conns m c)"
  by (induction m c rule: free_conns.induct) (auto simp: same_view_def put_conn_def)

lemma clearConnections_results:
  assumes "clearConnections api sapi elapsed c = Some (Found c')" and "results_ok c"
    and "\<forall>(h, w) \<in> set (workers c). \<forall>j \<in> set (cw_jobs w). job_fresh j"
  shows "results_ok c'"
proof -
  from assms(1) obtain c1 where c1: "stop_all api sapi elapsed (workers c) c = Some (Found c1)"
      and c': "c' = (free_conns (connections c1) (c1\<lparr>workers := []\<rparr>))
        \<lparr>connections := [], multiStatementAllowed := [], guards := [], rateLog := []\<rparr>"
    by (rule clearConnections_split)
  let ?c2 = "c1\<lparr>workers := []\<rparr>"
  have "results_ok ?c2" using stop_all_results [OF c1 assms(2,3)] by (simp add: results_ok_def queues_fresh_def)
  moreover have "same_view ?c2 c'"
    using free_conns_view [of ?c2 "connections c1"] by (auto simp: same_view_def c')
  ultimately show ?thesis using results_same by blast
qed

lemma clear_life: "life c \<Longrightarrow> life ((clearActiveCache c)\<lparr>savedCaches := [], nextCache := 1\<rparr>)"
  using life_same [of c "(clearActiveCache c)\<lparr>savedCaches := [], nextCache := 1\<rparr>"]
  by (simp add: same_life_def clearActiveCache_def)

lemma reset_results:
  assumes "reset_component api sapi elapsed c = Some (Found c')" and "results_ok c" and "life c"
  shows "results_ok c'"
proof -
  let ?c0 = "(clearActiveCache c)\<lparr>savedCaches := [], nextCache := 1\<rparr>"
  from assms(1) obtain c1 c3 where c1: "clearStatements ?c0 = Found c1"
      and c3: "clearConnections api sapi elapsed ((clearModels (c1\<lparr>nextStatement := 1\<rparr>))\<lparr>nextModel := 1\<rparr>) = Some (Found c3)"
      and c': "c' = (clearOptions c3)\<lparr>nextHandle := 1, nextOptions := 1\<rparr>"
    by (rule reset_split)
  let ?c2 = "(clearModels (c1\<lparr>nextStatement := 1\<rparr>))\<lparr>nextModel := 1\<rparr>"
  have "results_ok ?c0" using assms(2) by (simp add: results_ok_def queues_fresh_def clearActiveCache_def)
  then have ok1: "results_ok c1" using clearStatements_results c1 by blast
  have "life c1" using clearStatements_life [OF clear_life [OF assms(3)]] c1 by auto
  with ok1 have fresh: "\<forall>(h, w) \<in> set (workers ?c2). \<forall>j \<in> set (cw_jobs w). job_fresh j"
    using workers_fresh [of c1] by (simp add: clearModels_def)
  have "results_ok ?c2"
    using ok1 results_same [of c1 ?c2] by (simp add: same_view_def clearModels_def)
  with fresh c3 have "results_ok c3" using clearConnections_results by blast
  moreover have "same_view c3 c'"
    by (simp add: same_view_def clearOptions_def c')
  ultimately show ?thesis using results_same by blast
qed

section \<open>Every step keeps it\<close>

lemmas results_defs = results_ok_def queues_fresh_def

lemma comp_step_results:
  assumes st: "comp_step api sapi c c'" and ok: "results_ok c" and l: "life c"
  shows "results_ok c'"
  using st
proof cases
  case (connect a multi conn)
  then show ?thesis
    using ok unfolding results_defs by (auto simp: addConnection_def put_conn_def Let_def split: if_splits)
next
  case (disconnect elapsed h b)
  then show ?thesis using removeConnection_results ok by blast
next
  case (prepare a h ca sql)
  then show ?thesis using ok by (simp add: results_defs addStatement_def put_stmt_def)
next
  case (bind_param h a p q i v x t)
  then show ?thesis using ok by (simp add: results_defs put_stmt_def)
next
  case (stmt_close h b)
  then show ?thesis using removeStatement_results ok by blast
next
  case (enqueue job now pend r)
  then show ?thesis using enqueueJob_results ok by blast
next
  case (sync job elapsed now pend x r)
  then show ?thesis using runJobSync_results ok by blast
next
  case (work h w elapsed k x)
  moreover have "\<forall>j \<in> set (cw_jobs w). job_fresh j" using work(1) ok unfolding results_defs by blast
  ultimately show ?thesis using work_off_results ok by blast
next
  case (use_conn h a conn)
  then show ?thesis using ok by (simp add: results_defs put_conn_def)
next
  case (restart elapsed)
  then show ?thesis using reset_results ok l by blast
next
  case (activate r)
  then show ?thesis using ok by (auto simp: results_defs setActiveCache_def)
next
  case deactivate
  then show ?thesis using ok by (simp add: results_defs clearActiveCache_def)
next
  case (select i)
  then show ?thesis using ok by (simp add: results_defs setActiveResultIndex_def split: option.split)
next
  case retain
  then show ?thesis using ok unfolding results_defs by (auto simp: saveActiveCache_def split: option.split if_splits)
next
  case (reactivate i)
  then show ?thesis using ok unfolding results_defs by (auto simp: activateSavedCache_def split: option.split)
next
  case (release i)
  then show ?thesis using ok unfolding results_defs by (auto simp: deleteSavedCache_def split: if_splits)
next
  case internal
  then have "same_view c c'" by (simp add: same_life_def same_results_def same_view_def)
  with ok show ?thesis using results_same by blast
qed

lemma results_new: "results_ok new_component"
  by (simp add: results_defs new_component_def new_engine_def)

lemma comp_reach_results: "comp_reach api sapi c \<Longrightarrow> small_counts sapi \<Longrightarrow> results_ok c"
proof (induction rule: comp_reach.induct)
  case init
  show ?case by (rule results_new)
next
  case (step c c')
  then show ?case using comp_step_results comp_reach_life by blast
next
  case (drain c js e)
  then show ?case by (auto simp: results_defs drainCompleted_def)
next
  case (hashing c e)
  then show ?case by (simp add: results_defs)
qed

section \<open>Reading the active result\<close>

lemma activeSet_ok:
  assumes "results_ok c"
  shows "\<exists>s. activeSet c = Found s \<and> active_ok s"
proof (cases "activeCache c")
  case None
  then show ?thesis by (simp add: activeSet_def)
next
  case (Some r)
  then have rect: "rectangular_result r" using assms by (simp add: results_ok_def)
  show ?thesis
  proof (cases "activeResultIndex c < 0 \<or> resultCount r \<le> activeResultIndex c")
    case True
    with Some show ?thesis by (simp add: activeSet_def)
  next
    case False
    then have i: "0 \<le> activeResultIndex c" "activeResultIndex c < wrap32 (int (length (qr_sets r)))"
      by (auto simp: resultCount_def)
    then have "nat (activeResultIndex c) < length (qr_sets r)"
      using wrap32_le [of "int (length (qr_sets r))"] by linarith
    with rect have "rectangular (qr_sets r ! nat (activeResultIndex c))"
      by (simp add: rectangular_result_def)
    with Some False at_unchecked_in [OF i] show ?thesis by (simp add: activeSet_def)
  qed
qed

lemma rs_getters_found: "v \<noteq> Undefined_Behaviour \<Longrightarrow> rs_get_string v \<noteq> Undefined_Behaviour \<and>
    rs_get_int w v \<noteq> Undefined_Behaviour \<and> rs_get_float atof v \<noteq> Undefined_Behaviour \<and>
    rs_get_bool w v \<noteq> Undefined_Behaviour \<and> rs_is_null v \<noteq> Undefined_Behaviour"
  by (cases v) (simp_all add: rs_get_string_def rs_get_int_def rs_get_float_def rs_get_bool_def rs_is_null_def get_with_def)

lemma active_cell_safe: "results_ok c \<Longrightarrow> active_cell row column c \<noteq> Undefined_Behaviour"
  using activeSet_ok [of c] cellAt_total by (auto simp: active_cell_def)

lemma active_cell_by_safe: "results_ok c \<Longrightarrow> active_cell_by row name c \<noteq> Undefined_Behaviour"
  using activeSet_ok [of c] cellByName_total by (auto simp: active_cell_by_def)

lemma fieldName_total: "active_ok s \<Longrightarrow> fieldName s i \<noteq> Undefined_Behaviour"
  using wrap32_le [of "int (length (rs_fields (the s)))"]
  by (cases s) (auto simp: fieldName_def fieldCount_def at_unchecked_def)

end
