(* ===== verification/Logging.thy ===== *)
theory Logging
  imports Prelude
begin

text \<open>
  The two sinks of diagnostics of \<^verbatim>\<open>src/MySQLComponent.cpp\<close>: \<^verbatim>\<open>log\<close> (the server's logger) and \<^verbatim>\<open>debugLog\<close>
  (opt-in, to the logger and a file).  What has been written is recorded; the clock's text and which files can be
  opened for appending are parameters.
\<close>

datatype LogLevel = LogDebug | LogMessage | LogWarning | LogError

record logger =
  lg_core :: bool
  lg_debug :: bool
  lg_debugFile :: string
  lg_console :: "(LogLevel \<times> string) list"
  lg_mirror :: "(string \<times> string) list"

record log_env =
  le_time :: string
  le_can_append :: "string \<Rightarrow> bool"

text \<open>\<^verbatim>\<open>%.*s\<close> and \<^verbatim>\<open>%s\<close> stop at the first NUL.\<close>

definition log_line :: "LogLevel \<Rightarrow> string \<Rightarrow> logger \<Rightarrow> logger" where
  "log_line level message lg = (if \<not> lg_core lg then lg
     else lg\<lparr>lg_console := lg_console lg @ [(level, c_str (''[MySQL] '' @ message))]\<rparr>)"

definition debugLog :: "log_env \<Rightarrow> string \<Rightarrow> logger \<Rightarrow> logger" where
  "debugLog env message lg = (if \<not> lg_debug lg then lg
     else
      (let lg1 = (if lg_core lg then lg\<lparr>lg_console := lg_console lg @ [(LogDebug, c_str (''[omp-MySQL] '' @ message))]\<rparr>
                  else lg)
       in if lg_debugFile lg \<noteq> [] \<and> le_can_append env (c_str (lg_debugFile lg))
          then lg1\<lparr>lg_mirror := lg_mirror lg @
                 [(c_str (lg_debugFile lg), ''['' @ le_time env @ ''] [omp-MySQL] '' @ c_str message @ [CHR 0x0A])]\<rparr>
          else lg1))"

definition setDebug :: "log_env \<Rightarrow> bool \<Rightarrow> string \<Rightarrow> logger \<Rightarrow> logger" where
  "setDebug env on file lg =
     (let lg1 = lg\<lparr>lg_debug := on, lg_debugFile := file\<rparr>
      in if on then debugLog env (if file \<noteq> [] then ''debug logging ENABLED (mirroring to '' @ [SQ] @ file @ [SQ] @ '')''
                                   else ''debug logging ENABLED'') lg1
         else lg1)"

definition mysql_debug :: "log_env \<Rightarrow> bool \<Rightarrow> string \<Rightarrow> logger \<Rightarrow> bool \<times> logger" where
  "mysql_debug env enable logfile lg =
     (let lg1 = setDebug env enable logfile lg
      in (True, if enable then lg1 else log_line LogMessage ''debug logging disabled'' lg1))"

definition mysql_debug_enabled :: "logger \<Rightarrow> bool" where
  "mysql_debug_enabled lg = lg_debug lg"

definition mysql_log :: "log_env \<Rightarrow> string \<Rightarrow> logger \<Rightarrow> bool \<times> logger" where
  "mysql_log env message lg = (True, debugLog env message lg)"

text \<open>What a sink can change: only what was written, and only by appending.\<close>

definition appends :: "logger \<Rightarrow> logger \<Rightarrow> bool" where
  "appends lg lg' \<longleftrightarrow> (\<exists>out ms. lg' = lg\<lparr>lg_console := lg_console lg @ out, lg_mirror := lg_mirror lg @ ms\<rparr> \<and>
     (\<not> lg_debug lg \<longrightarrow> ms = [] \<and> (\<forall>e \<in> set out. fst e \<noteq> LogDebug)))"

lemma appends_refl [intro]: "appends lg lg"
  unfolding appends_def by (rule exI [of _ "[]"], rule exI [of _ "[]"]) simp

lemma appends_trans [trans]: "appends a b \<Longrightarrow> appends b c \<Longrightarrow> appends a c"
  unfolding appends_def
proof (elim exE conjE)
  fix o1 m1 o2 m2
  assume b: "b = a\<lparr>lg_console := lg_console a @ o1, lg_mirror := lg_mirror a @ m1\<rparr>"
    and c: "c = b\<lparr>lg_console := lg_console b @ o2, lg_mirror := lg_mirror b @ m2\<rparr>"
    and off: "\<not> lg_debug a \<longrightarrow> m1 = [] \<and> (\<forall>e \<in> set o1. fst e \<noteq> LogDebug)"
      "\<not> lg_debug b \<longrightarrow> m2 = [] \<and> (\<forall>e \<in> set o2. fst e \<noteq> LogDebug)"
  show "\<exists>out ms. c = a\<lparr>lg_console := lg_console a @ out, lg_mirror := lg_mirror a @ ms\<rparr> \<and>
     (\<not> lg_debug a \<longrightarrow> ms = [] \<and> (\<forall>e \<in> set out. fst e \<noteq> LogDebug))"
    using off b c by (intro exI [of _ "o1 @ o2"] exI [of _ "m1 @ m2"]) auto
qed

lemma log_line_appends: "level \<noteq> LogDebug \<Longrightarrow> appends lg (log_line level message lg)"
  unfolding appends_def log_line_def
  by (rule exI [of _ "if lg_core lg then [(level, c_str (''[MySQL] '' @ message))] else []"], rule exI [of _ "[]"]) simp

lemma debugLog_appends: "appends lg (debugLog env message lg)"
proof (cases "lg_debug lg")
  case True
  then show ?thesis
    unfolding appends_def debugLog_def Let_def
    by (intro exI [of _ "if lg_core lg then [(LogDebug, c_str (''[omp-MySQL] '' @ message))] else []"]
        exI [of _ "if lg_debugFile lg \<noteq> [] \<and> le_can_append env (c_str (lg_debugFile lg))
          then [(c_str (lg_debugFile lg), ''['' @ le_time env @ ''] [omp-MySQL] '' @ c_str message @ [CHR 0x0A])] else []"])
      simp
next
  case False
  then show ?thesis by (simp add: debugLog_def appends_refl)
qed

end
