(* ===== verification/Config.thy ===== *)
theory Config
  imports Component Logging
begin

text \<open>
  How a connection comes to be, \<^verbatim>\<open>src/natives.cpp\<close>: option sets, \<^verbatim>\<open>ExpandEnv\<close>, the connect file with its
  optional obfuscation, \<^verbatim>\<open>DoConnect\<close> and the natives \<^verbatim>\<open>mysql_connect\<close>, \<^verbatim>\<open>mysql_connect_config\<close> and
  \<^verbatim>\<open>mysql_config_obfuscate\<close>.  The environment and the file system are parameters.
\<close>

unbundle bit_operations_syntax

section \<open>Environment variables in values\<close>

text \<open>
  The scan of \<^verbatim>\<open>ExpandEnv\<close> over the rest of the string.  A variable is replaced by its value, nothing if it is
  not set or has no name; what was put in is not scanned again.
\<close>

lemma dropWhile_shorter: "length (dropWhile P (tl cs)) - Suc 0 < Suc (length cs)"
  using length_dropWhile_le [of P "tl cs"] by simp

function expand_loop :: "(string \<Rightarrow> string option) \<Rightarrow> string \<Rightarrow> string" where
  "expand_loop getenv [] = []"
| "expand_loop getenv (c # cs) =
     (if c = CHR ''$'' \<and> peek cs = CHR ''{'' \<and> CHR ''}'' \<in> set (tl cs)
      then (let name = takeWhile (\<lambda>d. d \<noteq> CHR ''}'') (tl cs) in
        (case (if name = [] then None else getenv (c_str name)) of None \<Rightarrow> [] | Some val \<Rightarrow> c_str val) @
        expand_loop getenv (tl (dropWhile (\<lambda>d. d \<noteq> CHR ''}'') (tl cs))))
      else c # expand_loop getenv cs)"
  by pat_completeness auto
termination
  by (relation "measure (\<lambda>(getenv, s). length s)") (simp_all add: dropWhile_shorter)

definition ExpandEnv :: "(string \<Rightarrow> string option) \<Rightarrow> string \<Rightarrow> string" where
  "ExpandEnv getenv s = expand_loop getenv s"

section \<open>Option sets\<close>

text \<open>The ordinals of \<^verbatim>\<open>MySQLOptionType\<close>, in their order.\<close>

datatype option_type = OPT_AUTO_RECONNECT | OPT_MULTI_STATEMENTS | OPT_POOL_SIZE | OPT_SERVER_PORT
  | OPT_CONNECT_TIMEOUT | OPT_READ_TIMEOUT | OPT_WRITE_TIMEOUT | OPT_SSL_MODE | OPT_SSL_CA | OPT_SSL_CAPATH
  | OPT_SSL_CERT | OPT_SSL_KEY | OPT_SSL_CRL | OPT_SSL_CRLPATH | OPT_SSL_CIPHER | OPT_TLS_VERSION
  | OPT_COMPRESSION | OPT_ZSTD_COMPRESSION_LEVEL | OPT_MAX_QUERIES_PER_SECOND | OPT_MAX_QUERY_LENGTH
  | OPT_MAX_PENDING_QUERIES

definition option_types :: "option_type list" where
  "option_types = [OPT_AUTO_RECONNECT, OPT_MULTI_STATEMENTS, OPT_POOL_SIZE, OPT_SERVER_PORT, OPT_CONNECT_TIMEOUT,
     OPT_READ_TIMEOUT, OPT_WRITE_TIMEOUT, OPT_SSL_MODE, OPT_SSL_CA, OPT_SSL_CAPATH, OPT_SSL_CERT, OPT_SSL_KEY,
     OPT_SSL_CRL, OPT_SSL_CRLPATH, OPT_SSL_CIPHER, OPT_TLS_VERSION, OPT_COMPRESSION, OPT_ZSTD_COMPRESSION_LEVEL,
     OPT_MAX_QUERIES_PER_SECOND, OPT_MAX_QUERY_LENGTH, OPT_MAX_PENDING_QUERIES]"

definition option_type_of :: "int \<Rightarrow> option_type option" where
  "option_type_of t = (if 0 \<le> t \<and> nat t < length option_types then Some (option_types ! nat t) else None)"

definition OptionIsString :: "int \<Rightarrow> bool" where
  "OptionIsString t = (case option_type_of t of
       Some OPT_SSL_CA \<Rightarrow> True | Some OPT_SSL_CAPATH \<Rightarrow> True | Some OPT_SSL_CERT \<Rightarrow> True | Some OPT_SSL_KEY \<Rightarrow> True
     | Some OPT_SSL_CRL \<Rightarrow> True | Some OPT_SSL_CRLPATH \<Rightarrow> True | Some OPT_SSL_CIPHER \<Rightarrow> True
     | Some OPT_TLS_VERSION \<Rightarrow> True | Some OPT_COMPRESSION \<Rightarrow> True | _ \<Rightarrow> False)"

text \<open>\<^verbatim>\<open>static_cast<SSLMode>(value)\<close> for a value in the enumeration's range.\<close>

definition ssl_mode_of :: "int \<Rightarrow> SSLMode" where
  "ssl_mode_of v = (if v = 0 then Required else if v = 1 then VerifyCA else VerifyIdentity)"

definition ApplyIntOption :: "int \<Rightarrow> int \<Rightarrow> ConnectionOptions \<Rightarrow> ConnectionOptions" where
  "ApplyIntOption t v o1 = (case option_type_of t of
       Some OPT_AUTO_RECONNECT \<Rightarrow> o1\<lparr>co_autoReconnect := v \<noteq> 0\<rparr>
     | Some OPT_MULTI_STATEMENTS \<Rightarrow> o1\<lparr>co_multiStatements := v \<noteq> 0\<rparr>
     | Some OPT_SERVER_PORT \<Rightarrow> o1\<lparr>co_port := word_of_int v\<rparr>
     | Some OPT_CONNECT_TIMEOUT \<Rightarrow> o1\<lparr>co_connectTimeout := word_of_int v\<rparr>
     | Some OPT_READ_TIMEOUT \<Rightarrow> o1\<lparr>co_readTimeout := word_of_int v\<rparr>
     | Some OPT_WRITE_TIMEOUT \<Rightarrow> o1\<lparr>co_writeTimeout := word_of_int v\<rparr>
     | Some OPT_SSL_MODE \<Rightarrow> if 0 \<le> v \<and> v \<le> 2 then o1\<lparr>co_sslMode := ssl_mode_of v\<rparr> else o1
     | Some OPT_ZSTD_COMPRESSION_LEVEL \<Rightarrow> o1\<lparr>co_zstdLevel := v\<rparr>
     | _ \<Rightarrow> o1)"

definition ApplyStringOption :: "int \<Rightarrow> string \<Rightarrow> ConnectionOptions \<Rightarrow> ConnectionOptions" where
  "ApplyStringOption t v o1 = (case option_type_of t of
       Some OPT_SSL_CA \<Rightarrow> o1\<lparr>co_sslCA := v\<rparr>
     | Some OPT_SSL_CAPATH \<Rightarrow> o1\<lparr>co_sslCAPath := v\<rparr>
     | Some OPT_SSL_CERT \<Rightarrow> o1\<lparr>co_sslCert := v\<rparr>
     | Some OPT_SSL_KEY \<Rightarrow> o1\<lparr>co_sslKey := v\<rparr>
     | Some OPT_SSL_CRL \<Rightarrow> o1\<lparr>co_sslCRL := v\<rparr>
     | Some OPT_SSL_CRLPATH \<Rightarrow> o1\<lparr>co_sslCRLPath := v\<rparr>
     | Some OPT_SSL_CIPHER \<Rightarrow> o1\<lparr>co_sslCipher := v\<rparr>
     | Some OPT_TLS_VERSION \<Rightarrow> o1\<lparr>co_tlsVersion := v\<rparr>
     | Some OPT_COMPRESSION \<Rightarrow> o1\<lparr>co_compression := v\<rparr>
     | _ \<Rightarrow> o1)"

text \<open>
  What a native reads of its script's memory: \<^verbatim>\<open>amx_GetAddr\<close> (an address of the script to a cell, if valid), and
  the text \<^verbatim>\<open>amx_StrLen\<close> and \<^verbatim>\<open>amx_GetString\<close> find at a cell.
\<close>

record script =
  sc_addr :: "cell \<Rightarrow> nat option"
  sc_text :: "nat \<Rightarrow> (nat \<Rightarrow> cell) \<Rightarrow> string"

text \<open>\<^verbatim>\<open>params[0]\<close> is the number of argument bytes; the arguments follow.\<close>

type_synonym params = "cell list"

definition int_ref :: "script \<Rightarrow> (nat \<Rightarrow> cell) \<Rightarrow> cell \<Rightarrow> int" where
  "int_ref sc mem p = (case sc_addr sc p of None \<Rightarrow> 0 | Some a \<Rightarrow> sint (mem a))"

definition AmxStringParam :: "script \<Rightarrow> (nat \<Rightarrow> cell) \<Rightarrow> cell \<Rightarrow> string" where
  "AmxStringParam sc mem p = (case sc_addr sc p of None \<Rightarrow> [] | Some a \<Rightarrow> sc_text sc a mem)"

definition n_mysql_config_set ::
    "script \<Rightarrow> (nat \<Rightarrow> cell) \<Rightarrow> params \<Rightarrow> ('m, 'st) component \<Rightarrow> bool \<times> ('m, 'st) component" where
  "n_mysql_config_set sc mem params c =
     (let handle = sint (params ! 1); type = sint (params ! 2)
      in case getOptions handle c of
        None \<Rightarrow> (False, c)
      | Some opt \<Rightarrow> if OptionIsString type
          then (case sc_addr sc (params ! 3) of
              None \<Rightarrow> (False, c)
            | Some a \<Rightarrow> (True, c\<lparr>options := assign handle (ApplyStringOption type (sc_text sc a mem) opt) (options c)\<rparr>))
          else (True, c\<lparr>options := assign handle (ApplyIntOption type (int_ref sc mem (params ! 3)) opt) (options c)\<rparr>))"

definition mysql_config_create :: "('m, 'st) component \<Rightarrow> int \<times> ('m, 'st) component" where
  "mysql_config_create c = addOptions c"

section \<open>Obfuscated files\<close>

definition kCfgMagic :: string where
  "kCfgMagic = ''OMPMENC1''"

text \<open>The FNV-1a loop over the key, and the answer with whether the key was set.\<close>

fun fnv_loop :: "32 word \<Rightarrow> string \<Rightarrow> 32 word" where
  "fnv_loop h [] = h"
| "fnv_loop h (c # cs) = fnv_loop ((h XOR of_char c) * 16777619) cs"

definition CfgKeySeed :: "(string \<Rightarrow> string option) \<Rightarrow> 32 word \<times> bool" where
  "CfgKeySeed getenv = (let key = (case getenv ''OMP_CFG_KEY'' of None \<Rightarrow> [] | Some v \<Rightarrow> c_str v) in
     if key \<noteq> [] then (let h = fnv_loop 2166136261 key in (if h = 0 then 1 else h, True))
     else (0x6F6D704D, False))"

definition xorshift32 :: "32 word \<Rightarrow> 32 word" where
  "xorshift32 s0 = (let s1 = s0 XOR push_bit 13 s0; s2 = s1 XOR drop_bit 17 s1 in s2 XOR push_bit 5 s2)"

fun xor_loop :: "32 word \<Rightarrow> string \<Rightarrow> string" where
  "xor_loop s [] = []"
| "xor_loop s (c # cs) = (let s' = xorshift32 s in
     char_of (unat (of_char c XOR (s' AND 0xFF))) # xor_loop s' cs)"

definition CfgXor :: "(string \<Rightarrow> string option) \<Rightarrow> string \<Rightarrow> string" where
  "CfgXor getenv body = xor_loop (fst (CfgKeySeed getenv)) body"

definition has_magic :: "string \<Rightarrow> bool" where
  "has_magic raw \<longleftrightarrow> length kCfgMagic \<le> length raw \<and> take (length kCfgMagic) raw = kCfgMagic"

definition CfgDecodeIfNeeded :: "(string \<Rightarrow> string option) \<Rightarrow> string \<Rightarrow> string" where
  "CfgDecodeIfNeeded getenv raw =
     (if has_magic raw then CfgXor getenv (drop (length kCfgMagic) raw) else raw)"

definition weak_key_warning :: string where
  "weak_key_warning = ''mysql_config_obfuscate: OMP_CFG_KEY not set '' @ [CHR 0xE2, CHR 0x80, CHR 0x94] @
     '' using the WEAK built-in key. Set OMP_CFG_KEY (a per-server secret) in the environment so the blob isn'' @
     [SQ] @ ''t trivially reversible from the public source.''"

text \<open>
  \<^verbatim>\<open>mysql_config_obfuscate\<close>: \<open>read_file\<close> gives a file's bytes if it opens; \<open>write_file\<close> says whether the output
  opens and then whether all of it is written.  The answer comes with the bytes written to the output, if it opened.
\<close>

definition mysql_config_obfuscate ::
    "log_env \<Rightarrow> (string \<Rightarrow> string option) \<Rightarrow> (string \<Rightarrow> string option) \<Rightarrow> (string \<Rightarrow> string \<Rightarrow> bool option)
      \<Rightarrow> string \<Rightarrow> string \<Rightarrow> logger \<Rightarrow> bool \<times> string option \<times> logger" where
  "mysql_config_obfuscate env getenv read_file write_file plain_ini out_file lg =
     (case read_file plain_ini of
        None \<Rightarrow> (False, None, log_line LogError (''mysql_config_obfuscate: cannot open '' @ plain_ini) lg)
      | Some raw \<Rightarrow>
          if has_magic raw
          then (False, None, log_line LogWarning ''mysql_config_obfuscate: input already obfuscated'' lg)
          else let enc = kCfgMagic @ CfgXor getenv raw in
            (case write_file out_file enc of
               None \<Rightarrow> (False, None, log_line LogError (''mysql_config_obfuscate: cannot write '' @ out_file) lg)
             | Some ok \<Rightarrow> (ok, Some enc, if snd (CfgKeySeed getenv) then lg
                 else log_line LogWarning weak_key_warning lg)))"

section \<open>The connect file\<close>

text \<open>The lines \<^verbatim>\<open>std::getline\<close> yields: a final empty rest is no line.\<close>

function getlines :: "string \<Rightarrow> string list" where
  "getlines s = (if s = [] then []
     else takeWhile (\<lambda>c. c \<noteq> NL) s # getlines (tl (dropWhile (\<lambda>c. c \<noteq> NL) s)))"
  by pat_completeness auto
termination
proof (relation "measure length")
  fix s :: string
  assume "s \<noteq> []"
  then show "(tl (dropWhile (\<lambda>c. c \<noteq> NL) s), s) \<in> measure length"
    using length_dropWhile_le [of "\<lambda>c. c \<noteq> NL" s] by (cases s) (auto simp: less_Suc_eq_le)
qed simp

declare getlines.simps [simp del]

definition cfg_blank :: "char \<Rightarrow> bool" where
  "cfg_blank c \<longleftrightarrow> c \<in> {SPC, TAB, CR, NL}"

definition trim :: "string \<Rightarrow> string" where
  "trim s = rev (dropWhile cfg_blank (rev (dropWhile cfg_blank s)))"

record cfg_state =
  cf_opts :: ConnectionOptions
  cf_debug :: bool
  cf_debugFile :: string

definition cfg_true :: "string \<Rightarrow> bool" where
  "cfg_true v \<longleftrightarrow> v = ''1'' \<or> v = ''true''"

text \<open>The chain of key comparisons; \<open>w\<close> is the width of \<^verbatim>\<open>long\<close>, on which \<^verbatim>\<open>atoi\<close> depends.\<close>

definition apply_key :: "nat \<Rightarrow> string \<Rightarrow> string \<Rightarrow> cfg_state \<Rightarrow> cfg_state" where
  "apply_key w key v cf =
     (let opt = cf_opts cf; put = (\<lambda>opt'. cf\<lparr>cf_opts := opt'\<rparr>) in
      if key = ''host'' then put (opt\<lparr>co_host := v\<rparr>)
      else if key = ''user'' then put (opt\<lparr>co_user := v\<rparr>)
      else if key = ''password'' then put (opt\<lparr>co_password := v\<rparr>)
      else if key = ''database'' then put (opt\<lparr>co_database := v\<rparr>)
      else if key = ''port'' then put (opt\<lparr>co_port := atoi w v\<rparr>)
      else if key = ''ssl_mode''
        then (let m = sint (atoi w v) in if 0 \<le> m \<and> m \<le> 2 then put (opt\<lparr>co_sslMode := ssl_mode_of m\<rparr>) else cf)
      else if key = ''ssl_ca'' then put (opt\<lparr>co_sslCA := v\<rparr>)
      else if key = ''ssl_cert'' then put (opt\<lparr>co_sslCert := v\<rparr>)
      else if key = ''ssl_key'' then put (opt\<lparr>co_sslKey := v\<rparr>)
      else if key = ''ssl_crl'' then put (opt\<lparr>co_sslCRL := v\<rparr>)
      else if key = ''tls_version'' then put (opt\<lparr>co_tlsVersion := v\<rparr>)
      else if key = ''compression'' then put (opt\<lparr>co_compression := v\<rparr>)
      else if key = ''auto_reconnect'' then put (opt\<lparr>co_autoReconnect := cfg_true v\<rparr>)
      else if key = ''debug'' then cf\<lparr>cf_debug := cfg_true v\<rparr>
      else if key = ''debug_log'' then cf\<lparr>cf_debugFile := v\<rparr>
      else cf)"

definition cfg_line :: "nat \<Rightarrow> (string \<Rightarrow> string option) \<Rightarrow> cfg_state \<Rightarrow> string \<Rightarrow> cfg_state" where
  "cfg_line w getenv cf line0 =
     (let line = takeWhile (\<lambda>c. c \<noteq> CHR ''#'' \<and> c \<noteq> SEMI) line0 in
      if CHR ''='' \<notin> set line then cf
      else apply_key w (trim (takeWhile (\<lambda>c. c \<noteq> CHR ''='') line))
             (ExpandEnv getenv (trim (tl (dropWhile (\<lambda>c. c \<noteq> CHR ''='') line)))) cf)"

definition parse_config :: "nat \<Rightarrow> (string \<Rightarrow> string option) \<Rightarrow> string \<Rightarrow> cfg_state" where
  "parse_config w getenv text = foldl (cfg_line w getenv)
     \<lparr>cf_opts = default_options, cf_debug = False, cf_debugFile = []\<rparr> (getlines text)"

section \<open>Connecting\<close>

definition mode_number :: "SSLMode \<Rightarrow> nat" where
  "mode_number m = (case m of Required \<Rightarrow> 0 | VerifyCA \<Rightarrow> 1 | VerifyIdentity \<Rightarrow> 2)"

definition connect_line :: "ConnectionOptions \<Rightarrow> string" where
  "connect_line opt = ''connect: '' @ co_user opt @ ''@'' @ co_host opt @ '':'' @ show_nat (unat (co_port opt)) @ ''/'' @
     co_database opt @ '' (TLS mandatory, ssl_mode='' @ show_nat (mode_number (co_sslMode opt)) @ '')''"

text \<open>
  \<^verbatim>\<open>DoConnect\<close>; \<open>a\<close> is the address of the new connection object, which is freed again on either failure.
\<close>

definition DoConnect ::
    "'m client \<Rightarrow> build \<Rightarrow> log_env \<Rightarrow> ConnectionOptions \<Rightarrow> nat \<Rightarrow> ('m, 'st) component \<Rightarrow> logger
      \<Rightarrow> int \<times> ('m, 'st) component \<times> logger" where
  "DoConnect api b env opt a c lg =
     (let lg1 = debugLog env (connect_line opt) lg;
          (ok, conn) = open_conn api b opt new_Connection
      in if \<not> ok
         then (let err = conn_lastError api conn in
           (0, c, debugLog env (''connect FAILED: '' @ err) (log_line LogError err lg1)))
         else let (cipher, conn') = sslCipher api conn in
           if cipher = []
           then (0, c, log_line LogError ''connection is not encrypted; refusing it'' lg1)
           else let lg2 = log_line LogMessage (''connected (TLS '' @ cipher @ '')'') lg1;
                    (handle, c') = addConnection (Some a) (co_multiStatements opt) c
                in (handle, put_conn a (Some conn') c',
                    debugLog env (''connect OK: handle='' @ show_int handle @ '' cipher='' @ cipher) lg2))"

definition connect_options ::
    "(string \<Rightarrow> string option) \<Rightarrow> string \<Rightarrow> string \<Rightarrow> string \<Rightarrow> string \<Rightarrow> int \<Rightarrow> ('m, 'st) component
      \<Rightarrow> ConnectionOptions" where
  "connect_options getenv host user password database opts c =
     (let opt = (if opts \<noteq> 0 then (case getOptions opts c of Some stored \<Rightarrow> stored | None \<Rightarrow> default_options)
                 else default_options)
      in opt\<lparr>co_host := ExpandEnv getenv host, co_user := ExpandEnv getenv user,
             co_password := ExpandEnv getenv password, co_database := ExpandEnv getenv database\<rparr>)"

definition mysql_connect ::
    "'m client \<Rightarrow> build \<Rightarrow> log_env \<Rightarrow> (string \<Rightarrow> string option) \<Rightarrow> string \<Rightarrow> string \<Rightarrow> string \<Rightarrow> string \<Rightarrow> int \<Rightarrow> nat
      \<Rightarrow> ('m, 'st) component \<Rightarrow> logger \<Rightarrow> int \<times> ('m, 'st) component \<times> logger" where
  "mysql_connect api b env getenv host user password database opts a c lg =
     DoConnect api b env (connect_options getenv host user password database opts c) a c lg"

definition mysql_connect_config ::
    "'m client \<Rightarrow> build \<Rightarrow> log_env \<Rightarrow> nat \<Rightarrow> (string \<Rightarrow> string option) \<Rightarrow> (string \<Rightarrow> string option) \<Rightarrow> string \<Rightarrow> nat
      \<Rightarrow> ('m, 'st) component \<Rightarrow> logger \<Rightarrow> int \<times> ('m, 'st) component \<times> logger" where
  "mysql_connect_config api b env w getenv read_file file_name a c lg = (case read_file file_name of
       None \<Rightarrow> (0, c, log_line LogError (''mysql_connect_config: cannot open '' @ file_name) lg)
     | Some raw \<Rightarrow>
         (let cf = parse_config w getenv (CfgDecodeIfNeeded getenv raw);
              lg' = (if cf_debug cf then setDebug env True (cf_debugFile cf) lg else lg)
          in DoConnect api b env (cf_opts cf) a c lg'))"

section \<open>Lemmas\<close>

subsection \<open>Environment and lines\<close>

lemma expand_plain: "CHR ''$'' \<notin> set s \<Longrightarrow> expand_loop getenv (s @ t) = s @ expand_loop getenv t"
  by (induction s) auto

lemma ExpandEnv_plain: "CHR ''$'' \<notin> set s \<Longrightarrow> ExpandEnv getenv s = s"
  using expand_plain [of s getenv "[]"] by (simp add: ExpandEnv_def)

lemma split_at_char:
  "c \<notin> set s \<Longrightarrow> takeWhile (\<lambda>d. d \<noteq> c) (s @ c # t) = s"
  "c \<notin> set s \<Longrightarrow> dropWhile (\<lambda>d. d \<noteq> c) (s @ c # t) = c # t"
  by (induction s) auto

lemma getlines_line: "NL \<notin> set l \<Longrightarrow> getlines (l @ NL # rest) = l # getlines rest"
  by (subst getlines.simps) (simp add: split_at_char)

lemma getlines_Nil [simp]: "getlines [] = []"
  by (subst getlines.simps) simp

lemma trim_pad: "trim (s @ [SPC]) = trim s" "trim (SPC # s) = trim s"
proof -
  show "trim (s @ [SPC]) = trim s"
  proof (cases "\<forall>x \<in> set s. cfg_blank x")
    case True
    then have "\<forall>x \<in> set (s @ [SPC]). cfg_blank x" by (simp add: cfg_blank_def)
    with True show ?thesis unfolding trim_def by (metis dropWhile_eq_Nil_conv)
  next
    case False
    then have "dropWhile cfg_blank (s @ [SPC]) = dropWhile cfg_blank s @ [SPC]"
      by (meson dropWhile_append1)
    then show ?thesis unfolding trim_def by (simp only: rev_append rev.simps append.simps dropWhile.simps)
        (simp add: cfg_blank_def)
  qed
  show "trim (SPC # s) = trim s" by (simp add: trim_def cfg_blank_def)
qed

subsection \<open>The keystream\<close>

lemma and_byte: "s AND 0xFF = take_bit 8 (s :: 32 word)"
proof -
  have "mask 8 = (0xFF :: 32 word)" by (simp add: mask_eq_exp_minus_1)
  then show ?thesis by (metis take_bit_eq_mask)
qed

lemma word_of_char_of: "(of_char (char_of (unat w)) :: 32 word) = take_bit 8 w"
proof -
  have "(of_char (char_of (unat w)) :: 32 word) = of_nat (of_char (char_of (unat w)) :: nat)"
    by (rule of_nat_of_char [symmetric])
  also have "\<dots> = of_nat (take_bit 8 (unat w))"
    by (simp only: of_char_of take_bit_eq_mod) simp
  also have "\<dots> = take_bit 8 w"
    by (simp add: of_nat_take_bit)
  finally show ?thesis .
qed

lemma char_of_byte: "char_of (unat (take_bit 8 (of_char c) :: 32 word)) = c"
proof -
  have small: "(of_char c :: nat) < 256"
    using of_char_mod_256 [of c] by (metis mod_less_divisor zero_less_numeral)
  have "unat (of_char c :: 32 word) = of_char c"
  proof -
    have "(of_char c :: 32 word) = of_nat (of_char c)" by (simp only: of_nat_of_char)
    then have "unat (of_char c :: 32 word) = take_bit 32 (of_char c :: nat)"
      by (simp only: unsigned_of_nat) simp
    also have "\<dots> = of_char c"
      by (intro take_bit_nat_eq_self order.strict_trans [OF small]) simp
    finally show ?thesis .
  qed
  then have "unat (take_bit 8 (of_char c) :: 32 word) = of_char c"
    by (simp only: unsigned_take_bit_eq) (use small in \<open>simp only: take_bit_nat_eq_self_iff, simp\<close>)
  then show ?thesis by simp
qed

lemma xor_byte: "char_of (unat ((of_char (char_of (unat ((of_char c :: 32 word) XOR (k AND 0xFF)))) :: 32 word) XOR (k AND 0xFF))) = c"
  by (simp add: word_of_char_of and_byte take_bit_xor xor.assoc char_of_byte)

lemma xor_loop_twice: "xor_loop s (xor_loop s body) = body"
  by (induction s body rule: xor_loop.induct) (simp_all add: Let_def xor_byte)

lemma CfgXor_twice: "CfgXor getenv (CfgXor getenv body) = body"
  by (simp add: CfgXor_def xor_loop_twice)

lemma decode_encoded: "CfgDecodeIfNeeded getenv (kCfgMagic @ CfgXor getenv raw) = raw"
  by (simp add: CfgDecodeIfNeeded_def has_magic_def CfgXor_twice)

subsection \<open>The connect file\<close>

definition clean_key :: "string \<Rightarrow> bool" where
  "clean_key k \<longleftrightarrow> set k \<inter> {NL, CHR ''#'', SEMI, CHR ''=''} = {} \<and> trim k = k"

definition clean_value :: "string \<Rightarrow> bool" where
  "clean_value v \<longleftrightarrow> set v \<inter> {NL, CHR ''#'', SEMI, CHR ''$''} = {} \<and> trim v = v"

definition render_line :: "string \<times> string \<Rightarrow> string" where
  "render_line kv = fst kv @ '' = '' @ snd kv"

lemma takeWhile_all: "set s \<inter> {CHR ''#'', SEMI} = {} \<Longrightarrow> takeWhile (\<lambda>c. c \<noteq> CHR ''#'' \<and> c \<noteq> SEMI) (s @ t) =
    s @ takeWhile (\<lambda>c. c \<noteq> CHR ''#'' \<and> c \<noteq> SEMI) t"
  by (induction s) auto

lemma cfg_line_value:
  assumes k: "clean_key k" and v: "clean_value v"
    and junk: "takeWhile (\<lambda>c. c \<noteq> CHR ''#'' \<and> c \<noteq> SEMI) junk = []"
  shows "cfg_line w getenv cf (k @ '' = '' @ v @ junk) = apply_key w k v cf"
proof -
  have "takeWhile (\<lambda>c. c \<noteq> CHR ''#'' \<and> c \<noteq> SEMI) ((k @ '' = '' @ v) @ junk) = (k @ '' = '' @ v) @ []"
    using k v by (subst takeWhile_all) (auto simp: clean_key_def clean_value_def junk)
  moreover have "CHR ''='' \<notin> set (k @ [SPC])" using k by (auto simp: clean_key_def)
  note split_at_char [OF this, of "SPC # v"]
  ultimately show ?thesis
    using k v trim_pad(1) [of k] trim_pad(2) [of v]
    by (simp add: cfg_line_def Let_def clean_key_def clean_value_def ExpandEnv_plain)
qed

lemma DoConnect_cases:
  assumes "DoConnect api b env opt a c lg = (h, c', lg')"
  obtains (failed) "h = 0" "c' = c"
    | (connected) conn' where "fst (open_conn api b opt new_Connection)"
        "snd (sslCipher api (snd (open_conn api b opt new_Connection))) = conn'"
        "fst (sslCipher api (snd (open_conn api b opt new_Connection))) \<noteq> []"
        "h = nextHandle c"
        "c' = put_conn a (Some conn') (snd (addConnection (Some a) (co_multiStatements opt) c))"
  using assms
  by (auto simp: DoConnect_def Let_def addConnection_def split: prod.splits if_splits)

lemma open_conn_isOpen: "open_conn api b opt c = (True, conn) \<Longrightarrow> isOpen conn"
  by (auto simp: open_conn_def Let_def isOpen_def split: option.splits prod.splits)

lemma sslCipher_isOpen: "isOpen (snd (sslCipher api conn)) = isOpen conn"
  by (auto simp: sslCipher_def isOpen_def Let_def split: option.splits prod.splits)

section \<open>Properties\<close>

text \<open>
  C14: connecting fails closed: a handle is given out only for a connection that the library opened with the TLS policy
  and that names a negotiated cipher; the new handle leads to it, with fresh guards, and the injection guard is off
  exactly where the connection asked the server for multiple statements.  In every other case 0 is answered and the
  component is unchanged.
\<close>

theorem DoConnect_fail_closed:
  fixes c :: "('m, 'st) component"
  assumes "DoConnect api b env opt a c lg = (h, c', lg')" and "0 < nextHandle c" and "map_of (connections c) (nextHandle c) = None"
  shows "if h = 0 then c' = c
    else fst (open_conn api b opt new_Connection) \<and>
      fst (sslCipher api (snd (open_conn api b opt new_Connection))) \<noteq> [] \<and>
      getConnection h c' = Some a \<and> (\<exists>conn. so_conns (heap c') a = Some conn \<and> isOpen conn) \<and>
      multiStatementsAllowed h c' = ca_multi_statements (connect_args_of opt) \<and>
      guardsFor h c' = Some default_guards"
  using assms(1)
proof (cases rule: DoConnect_cases)
  case failed
  then show ?thesis by simp
next
  case (connected conn')
  obtain conn where o: "open_conn api b opt new_Connection = (True, conn)"
    using connected(1) by (metis prod.collapse eq_True)
  have "isOpen conn'"
    using open_conn_isOpen [OF o] sslCipher_isOpen [of api conn] connected(2) o by simp
  with connected assms(2,3) show ?thesis
    by (simp add: put_conn_def addConnection_def getConnection_def multiStatementsAllowed_def guardsFor_def
        connect_args_of_def Let_def)
qed

text \<open>
  C36: obfuscating a connect file changes nothing about the connection it describes: whatever is written reads back as
  the original text, so \<open>mysql_connect_config\<close> on the output does exactly what it does on the input, with any key in
  the environment.
\<close>

theorem config_obfuscate_roundtrip:
  assumes "mysql_config_obfuscate lenv getenv read_file write_file plain_ini out_file lg = (ok, Some blob, lg')"
    and "read_file' out_file = Some blob"
  shows "CfgDecodeIfNeeded getenv blob = the (read_file plain_ini) \<and>
    mysql_connect_config api b env w getenv read_file' out_file a c lg1 =
      mysql_connect_config api b env w getenv read_file plain_ini a c lg1"
proof -
  obtain raw where raw: "read_file plain_ini = Some raw" "\<not> has_magic raw" "blob = kCfgMagic @ CfgXor getenv raw"
    using assms(1) by (auto simp: mysql_config_obfuscate_def Let_def split: option.splits if_splits)
  have plain: "CfgDecodeIfNeeded getenv raw = raw"
    using raw(2) by (simp add: CfgDecodeIfNeeded_def)
  show ?thesis
    by (simp add: mysql_connect_config_def assms(2) raw decode_encoded plain)
qed

text \<open>
  A connect file written as \<open>key = value\<close> lines is read back as written: every clean pair is applied, in order, to
  the default options.
\<close>

theorem parse_config_roundtrip:
  assumes "\<forall>kv \<in> set kvs. clean_key (fst kv) \<and> clean_value (snd kv)"
  shows "parse_config w getenv (concat (map (\<lambda>kv. render_line kv @ [NL]) kvs)) =
    foldl (\<lambda>cf kv. apply_key w (fst kv) (snd kv) cf) \<lparr>cf_opts = default_options, cf_debug = False, cf_debugFile = []\<rparr> kvs"
proof -
  have lines: "getlines (concat (map (\<lambda>kv. render_line kv @ [NL]) kvs)) = map render_line kvs"
    using assms
  proof (induction kvs)
    case (Cons kv kvs)
    then have "NL \<notin> set (render_line kv)"
      by (auto simp: render_line_def clean_key_def clean_value_def)
    with Cons show ?case by (simp add: getlines_line)
  qed simp
  have "foldl (cfg_line w getenv) cf (map render_line kvs) = foldl (\<lambda>cf kv. apply_key w (fst kv) (snd kv) cf) cf kvs" for cf
    using assms
  proof (induction kvs arbitrary: cf)
    case (Cons kv kvs)
    have "cfg_line w getenv cf (render_line kv) = apply_key w (fst kv) (snd kv) cf"
      using Cons.prems cfg_line_value [of "fst kv" "snd kv" "[]"] by (simp add: render_line_def)
    with Cons show ?case by simp
  qed simp
  with lines show ?thesis by (simp add: parse_config_def)
qed

lemmas option_simps = option_type_of_def option_types_def OptionIsString_def ApplyIntOption_def ApplyStringOption_def ssl_mode_of_def

text \<open>
  What follows a \<open>#\<close> or \<open>;\<close> on a line of a connect file never reaches the option, whatever the option: a password that
  contains either character is silently cut there.
\<close>

theorem cfg_line_truncates:
  assumes "clean_key k" and "clean_value v" and "d \<in> {CHR ''#'', SEMI}"
  shows "cfg_line w getenv cf (k @ '' = '' @ v @ d # rest) = apply_key w k v cf"
  using assms by (intro cfg_line_value) auto

text \<open>
  Environment expansion is a single pass: text without variables is kept as it is, a variable becomes its value (or
  nothing), and a value is never expanded again.
\<close>

theorem ExpandEnv_once:
  assumes "CHR ''$'' \<notin> set pre" and "CHR ''}'' \<notin> set name" and "name \<noteq> []"
  shows "ExpandEnv getenv (pre @ ''${'' @ name @ ''}'' @ post) =
    pre @ (case getenv (c_str name) of None \<Rightarrow> [] | Some val \<Rightarrow> c_str val) @ ExpandEnv getenv post"
  using assms by (simp add: ExpandEnv_def expand_plain split_at_char)

text \<open>
  The type of an option decides the type of its value: the string types are 8 to 16; an integer never reaches a string
  option and a string never an integer one; the SSL mode is always one of the three modes and only 0, 1 and 2 set it;
  and the documented types \<open>POOL_SIZE\<close>, \<open>MAX_QUERIES_PER_SECOND\<close>, \<open>MAX_QUERY_LENGTH\<close> and \<open>MAX_PENDING_QUERIES\<close> have no
  effect at all.
\<close>

theorem option_types_effect:
  "OptionIsString t = (8 \<le> t \<and> t \<le> 16) \<and>
   (if OptionIsString t then ApplyIntOption t v opt = opt else ApplyStringOption t s opt = opt) \<and>
   co_sslMode (ApplyIntOption t v opt) = (if t = 7 \<and> v = 0 then Required else if t = 7 \<and> v = 1 then VerifyCA
      else if t = 7 \<and> v = 2 then VerifyIdentity else co_sslMode opt) \<and>
   map (\<lambda>t. ApplyIntOption t v opt) [2, 18, 19, 20] = [opt, opt, opt, opt]"
proof (cases "t \<in> set [0..20]")
  case True
  then have "t \<in> {0, 1, 2, 3, 4, 5, 6, 7, 8, 9, 10, 11, 12, 13, 14, 15, 16, 17, 18, 19, 20}"
    by simp presburger
  then show ?thesis
    unfolding insert_iff empty_iff
    by (elim disjE) (simp_all add: option_simps)
next
  case False
  then have "option_type_of t = None" "\<not> (8 \<le> t \<and> t \<le> 16)" "t \<noteq> 7"
    by (auto simp: option_type_of_def option_types_def)
  then show ?thesis by (simp add: option_simps)
qed

section \<open>Witnesses\<close>

text \<open>A client that is encrypted.\<close>

definition tls_client :: "nat client" where
  "tls_client = countdown_client\<lparr>cl_ssl_cipher := (\<lambda>m. Some ''TLS_AES_256_GCM_SHA384'')\<rparr>"

definition demo_build :: build where
  "demo_build = \<lparr>has_SSL_CRL = False, has_SSL_MODE = False, has_COMPRESSION = False\<rparr>"

definition demo_log :: logger where
  "demo_log = \<lparr>lg_core = True, lg_debug = False, lg_debugFile = [], lg_console = [], lg_mirror = []\<rparr>"

definition demo_log_env :: log_env where
  "demo_log_env = \<lparr>le_time = ''2025-01-01 00:00:00'', le_can_append = (\<lambda>f. True)\<rparr>"

lemma demo_open: "open_conn tls_client b opt new_Connection = (True, \<lparr>cn_mysql = Some 0, cn_connected = True\<rparr>)"
proof -
  have "foldl (cl_option tls_client) m calls = m" for m calls
    by (induction calls) (simp_all add: tls_client_def countdown_client_def)
  then show ?thesis
    by (simp add: open_conn_def close_conn_def new_Connection_def)
      (simp add: tls_client_def countdown_client_def)
qed

lemma demo_cipher: "sslCipher tls_client \<lparr>cn_mysql = Some 0, cn_connected = True\<rparr> =
    (''TLS_AES_256_GCM_SHA384'', \<lparr>cn_mysql = Some 0, cn_connected = True\<rparr>)"
  by (simp add: sslCipher_def tls_client_def c_str_def)

lemma demo_connect: "fst (DoConnect tls_client demo_build demo_log_env default_options 4 new_component demo_log) = 1"
  by (simp add: DoConnect_def demo_open demo_cipher addConnection_def new_component_def Let_def)

theorem DoConnect_fail_closed_witness:
  "getConnection 1 (fst (snd (DoConnect tls_client demo_build demo_log_env default_options 4
      (new_component :: (nat, nat) component) demo_log))) = Some 4"
proof -
  let ?r = "DoConnect tls_client demo_build demo_log_env default_options 4 (new_component :: (nat, nat) component) demo_log"
  have "?r = (1, fst (snd ?r), snd (snd ?r))" using demo_connect by (metis prod.collapse)
  from DoConnect_fail_closed [OF this] show ?thesis by (simp add: new_component_def)
qed

definition demo_ini :: string where
  "demo_ini = ''password = s3cret'' @ [NL]"

lemma demo_obfuscate:
  "mysql_config_obfuscate demo_log_env (\<lambda>v. None) (\<lambda>f. Some demo_ini) (\<lambda>f s. Some True) ''a.ini'' ''a.enc'' demo_log =
    (True, Some (kCfgMagic @ CfgXor (\<lambda>v. None) demo_ini), log_line LogWarning weak_key_warning demo_log)"
  by (simp add: mysql_config_obfuscate_def demo_ini_def has_magic_def kCfgMagic_def CfgKeySeed_def Let_def)

theorem config_obfuscate_roundtrip_witness:
  "CfgDecodeIfNeeded (\<lambda>v. None) (kCfgMagic @ CfgXor (\<lambda>v. None) demo_ini) = demo_ini"
  using config_obfuscate_roundtrip [where read_file' = "\<lambda>f. Some (kCfgMagic @ CfgXor (\<lambda>v. None) demo_ini)",
      OF demo_obfuscate refl, THEN conjunct1] by simp

lemma demo_clean: "clean_key ''password''" "clean_value ''s3cret''"
  by (simp_all add: clean_key_def clean_value_def trim_def cfg_blank_def)

theorem parse_config_roundtrip_witness:
  "co_password (cf_opts (parse_config 64 (\<lambda>v. None) demo_ini)) = ''s3cret''"
proof -
  have "parse_config 64 (\<lambda>v. None) (concat (map (\<lambda>kv. render_line kv @ [NL]) [(''password'', ''s3cret'')])) =
    foldl (\<lambda>cf kv. apply_key 64 (fst kv) (snd kv) cf)
      \<lparr>cf_opts = default_options, cf_debug = False, cf_debugFile = []\<rparr> [(''password'', ''s3cret'')]"
    by (rule parse_config_roundtrip) (simp add: demo_clean)
  then show ?thesis by (simp add: demo_ini_def render_line_def apply_key_def)
qed

theorem cfg_line_truncates_witness:
  "co_password (cf_opts (cfg_line 64 (\<lambda>v. None)
      \<lparr>cf_opts = default_options, cf_debug = False, cf_debugFile = []\<rparr> ''password = s3cret#9'')) = ''s3cret''"
  using cfg_line_truncates [OF demo_clean, of "CHR ''#''" 64 "\<lambda>v. None" _ "''9''"] by (simp add: apply_key_def)

theorem ExpandEnv_once_witness:
  "ExpandEnv (\<lambda>v. if v = ''DB'' then Some ''${DB}'' else None) ''x${DB}'' = ''x${DB}''"
  using ExpandEnv_once [of "''x''" "''DB''" "\<lambda>v. if v = ''DB'' then Some ''${DB}'' else None" "[]"]
  by (simp add: c_str_def ExpandEnv_def)

end
