(* ===== verification/Dispatch.thy ===== *)
theory Dispatch
  imports Component Logging
begin

text \<open>
  Results on the main thread: \<^verbatim>\<open>findScriptWithPublic\<close>, \<^verbatim>\<open>fireQueryExecuteHook\<close>, \<^verbatim>\<open>applyModelResult\<close>,
  \<^verbatim>\<open>dispatchJob\<close>, \<^verbatim>\<open>dispatchHash\<close> and \<^verbatim>\<open>onTick\<close> of \<^verbatim>\<open>src/MySQLComponent.cpp\<close>.  The
  scripting machine is not part of the program: which scripts are loaded, where a public function is, and what
  executing one does are parameters.  A script may do anything to the component, to the memory of the machines and to
  the player pool; only the set of loaded scripts is fixed while a tick runs.
\<close>

section \<open>The scripting machine\<close>

text \<open>
  A cell or a string on the machine's stack.  \<^verbatim>\<open>amx_PushString\<close> copies a string and pushes its address, as its
  documentation says; \<^verbatim>\<open>amx_Exec\<close> takes all that was pushed, the last push being the first parameter.
\<close>

datatype amx_param = PCell cell | PStr string

text \<open>A public function called: the machine, the name and the parameters it receives.\<close>

datatype amx_call = Call nat string "amx_param list"

record amx_env =
  am_pawn :: bool
  am_core :: bool
  am_main :: "nat option"
  am_sides :: "nat option list"
  am_find :: "nat \<Rightarrow> string \<Rightarrow> nat option"
  am_set_string :: "nat \<Rightarrow> string \<Rightarrow> nat \<Rightarrow> (nat \<Rightarrow> cell) \<Rightarrow> nat \<Rightarrow> cell"
  am_strtof :: "string \<Rightarrow> cell"
  am_long :: nat

record ('m, 'st) world =
  wd_comp :: "('m, 'st) component"
  wd_mem :: "nat \<Rightarrow> cell"
  wd_player :: "int \<Rightarrow> bool"
  wd_log :: logger

type_synonym ('m, 'st) script_exec = "nat \<Rightarrow> nat \<Rightarrow> amx_param list \<Rightarrow> ('m, 'st) world \<Rightarrow> ('m, 'st) world"

section \<open>Finding and calling public functions\<close>

fun find_side :: "amx_env \<Rightarrow> string \<Rightarrow> nat option list \<Rightarrow> nat option" where
  "find_side env name [] = None"
| "find_side env name (None # sides) = find_side env name sides"
| "find_side env name (Some amx # sides) =
     (if am_find env amx name \<noteq> None then Some amx else find_side env name sides)"

definition findScriptWithPublic :: "amx_env \<Rightarrow> string \<Rightarrow> nat option" where
  "findScriptWithPublic env name =
     (if \<not> am_pawn env then None
      else case am_main env of
        Some amx \<Rightarrow> if am_find env amx name \<noteq> None then Some amx else find_side env name (am_sides env)
      | None \<Rightarrow> find_side env name (am_sides env))"

text \<open>\<^verbatim>\<open>amx_FindPublic\<close>, the pushes in the order the code makes them, and \<^verbatim>\<open>amx_Exec\<close>.\<close>

definition fire ::
    "amx_env \<Rightarrow> ('m, 'st) script_exec \<Rightarrow> nat \<Rightarrow> string \<Rightarrow> amx_param list \<Rightarrow> ('m, 'st) world
      \<Rightarrow> ('m, 'st) world \<times> amx_call list" where
  "fire env exec amx name pushes w = (case am_find env amx name of
       None \<Rightarrow> (w, [])
     | Some idx \<Rightarrow> (exec amx idx (rev pushes) w, [Call amx name (rev pushes)]))"

definition fireQueryExecuteHook ::
    "amx_env \<Rightarrow> ('m, 'st) script_exec \<Rightarrow> int \<Rightarrow> string \<Rightarrow> int \<Rightarrow> ('m, 'st) world \<Rightarrow> ('m, 'st) world \<times> amx_call list" where
  "fireQueryExecuteHook env exec handle sql execMicros w =
     (if \<not> am_pawn env then (w, [])
      else case findScriptWithPublic env ''OnQueryExecute'' of
        None \<Rightarrow> (w, [])
      | Some amx \<Rightarrow> fire env exec amx ''OnQueryExecute''
          [PStr (c_str sql), PCell (word_of_int execMicros), PCell (word_of_int handle)] w)"

section \<open>Writing a model's result back\<close>

definition write_field :: "amx_env \<Rightarrow> ModelField \<Rightarrow> nat \<Rightarrow> ResultValue \<Rightarrow> (nat \<Rightarrow> cell) \<Rightarrow> nat \<Rightarrow> cell" where
  "write_field env f a v mem = (case mf_type f of
       MInt \<Rightarrow> mem(a := (if rv_isNull v then 0 else word_of_int (strtol (am_long env) (rv_value v))))
     | MFloat \<Rightarrow> mem(a := (if rv_isNull v then 0 else am_strtof env (c_str (rv_value v))))
     | MString \<Rightarrow> if 0 < mf_maxlen f
         then am_set_string env a (if rv_isNull v then [] else c_str (rv_value v)) (nat (mf_maxlen f)) mem
         else mem)"

fun write_fields ::
    "amx_env \<Rightarrow> ResultSet \<Rightarrow> ResultValue list \<Rightarrow> ModelField list \<Rightarrow> (nat \<Rightarrow> cell) \<Rightarrow> nat \<Rightarrow> cell" where
  "write_fields env rset row [] mem = mem"
| "write_fields env rset row (f # fs) mem = (case mf_addr f of
       None \<Rightarrow> write_fields env rset row fs mem
     | Some a \<Rightarrow> (let col = fieldIndex rset (mf_column f) in
         if col < 0 \<or> int (length row) \<le> col then write_fields env rset row fs mem
         else write_fields env rset row fs (write_field env f a (row ! nat col) mem)))"

definition set_model_error :: "int \<Rightarrow> ModelError \<Rightarrow> ('m, 'st) component \<Rightarrow> ('m, 'st) component" where
  "set_model_error h err c = (case getModel h c of
       None \<Rightarrow> c
     | Some m \<Rightarrow> c\<lparr>models := assign h (setError err m) (models c)\<rparr>)"

definition insert_key_write :: "Model \<Rightarrow> QueryJob \<Rightarrow> (nat \<Rightarrow> cell) \<Rightarrow> nat \<Rightarrow> cell" where
  "insert_key_write m job mem = (case keyField m of
       Some kf \<Rightarrow> (case (mf_addr kf, qj_result job) of
           (Some a, Some r) \<Rightarrow> if qj_succeeded job \<and> qr_sets r \<noteq> []
             then mem(a := word_of_int (uint (rs_insertId (hd (qr_sets r))))) else mem
         | _ \<Rightarrow> mem)
     | None \<Rightarrow> mem)"

definition applyModelResult :: "amx_env \<Rightarrow> QueryJob \<Rightarrow> ('m, 'st) world \<Rightarrow> ('m, 'st) world" where
  "applyModelResult env job w = (case getModel (qj_modelHandle job) (wd_comp w) of
       None \<Rightarrow> w
     | Some m \<Rightarrow>
       (let status = (if qj_succeeded job then Ok else Invalid) in
        if qj_modelOp job = MODEL_OP_INSERT
        then w\<lparr>wd_mem := insert_key_write m job (wd_mem w),
               wd_comp := set_model_error (qj_modelHandle job) status (wd_comp w)\<rparr>
        else if qj_modelOp job \<noteq> MODEL_OP_FIND
        then w\<lparr>wd_comp := set_model_error (qj_modelHandle job) status (wd_comp w)\<rparr>
        else case (if qj_succeeded job then qj_result job else None) of
          None \<Rightarrow> w\<lparr>wd_comp := set_model_error (qj_modelHandle job) NoData (wd_comp w)\<rparr>
        | Some r \<Rightarrow> (case qr_sets r of
            [] \<Rightarrow> w\<lparr>wd_comp := set_model_error (qj_modelHandle job) NoData (wd_comp w)\<rparr>
          | rset # _ \<Rightarrow> (case rs_rows rset of
              [] \<Rightarrow> w\<lparr>wd_comp := set_model_error (qj_modelHandle job) NoData (wd_comp w)\<rparr>
            | row # _ \<Rightarrow> w\<lparr>wd_mem := write_fields env rset row (md_fields m) (wd_mem w),
                          wd_comp := set_model_error (qj_modelHandle job) Ok (wd_comp w)\<rparr>))))"

section \<open>Dispatching one job\<close>

definition marshal :: "CallbackArg \<Rightarrow> amx_param" where
  "marshal a = (case cb_type a of
       AInt \<Rightarrow> PCell (word_of_int (cb_intValue a))
     | AFloat \<Rightarrow> PCell (cb_floatValue a)
     | AString \<Rightarrow> PStr (c_str (cb_stringValue a)))"

text \<open>The loop over \<^verbatim>\<open>args.rbegin()\<close>.\<close>

fun push_args :: "amx_param list \<Rightarrow> CallbackArg list \<Rightarrow> amx_param list" where
  "push_args acc [] = acc"
| "push_args acc (a # as) = push_args (acc @ [marshal a]) as"

text \<open>
  The pushes before \<^verbatim>\<open>OnQueryError\<close>: the three strings are pushed when they are copied, and once more, with the
  numbers, in the order of the parameters.
\<close>

definition error_pushes :: "int \<Rightarrow> string \<Rightarrow> string \<Rightarrow> string \<Rightarrow> cell \<Rightarrow> amx_param list" where
  "error_pushes handle sql callback err code =
     [PStr (c_str sql), PStr (c_str err), PStr (c_str callback),
      PCell (word_of_int handle), PStr (c_str sql), PStr (c_str callback), PStr (c_str err), PCell code]"

definition fire_error ::
    "amx_env \<Rightarrow> ('m, 'st) script_exec \<Rightarrow> QueryJob \<Rightarrow> ('m, 'st) world \<Rightarrow> ('m, 'st) world \<times> amx_call list" where
  "fire_error env exec job w = (case findScriptWithPublic env ''OnQueryError'' of
       None \<Rightarrow> (w, [])
     | Some amx \<Rightarrow> fire env exec amx ''OnQueryError''
         (error_pushes (qj_connectionHandle job) (qj_sql job) (qj_callback job) (qj_error job) (qj_errorCode job)) w)"

definition callback_amx :: "amx_env \<Rightarrow> QueryJob \<Rightarrow> nat option" where
  "callback_amx env job =
     (case (if qj_callback job \<noteq> [] then findScriptWithPublic env (c_str (qj_callback job)) else None) of
        Some amx \<Rightarrow> Some amx
      | None \<Rightarrow> am_main env)"

definition dispatchJob ::
    "amx_env \<Rightarrow> ('m, 'st) script_exec \<Rightarrow> QueryJob \<Rightarrow> ('m, 'st) world \<Rightarrow> ('m, 'st) world \<times> amx_call list" where
  "dispatchJob env exec job w0 =
     (if \<not> am_pawn env then (w0, [])
      else case callback_amx env job of
        None \<Rightarrow> (w0, [])
      | Some amx \<Rightarrow>
        (let (w1, hook) = (case qj_result job of
               Some r \<Rightarrow> if qj_succeeded job
                 then fireQueryExecuteHook env exec (qj_connectionHandle job) (qj_sql job) (qr_execTimeMicros r) w0
                 else (w0, [])
             | None \<Rightarrow> (w0, []));
             w2 = (if 0 < qj_modelHandle job then applyModelResult env job w1 else w1)
         in if 0 \<le> qj_boundPlayer job \<and> am_core env \<and> \<not> wd_player w2 (qj_boundPlayer job) then (w2, hook)
            else if \<not> qj_succeeded job
            then (let (w3, calls) = fire_error env exec job w2 in (w3, hook @ calls))
            else if qj_callback job = [] then (w2, hook)
            else case am_find env amx (c_str (qj_callback job)) of
              None \<Rightarrow> (w2\<lparr>wd_log := log_line LogWarning
                        (''callback '' @ [DQ] @ qj_callback job @ [DQ] @ '' not found'') (wd_log w2)\<rparr>, hook)
            | Some idx \<Rightarrow>
              (let w3 = (case qj_result job of
                     Some r \<Rightarrow> w2\<lparr>wd_comp := setActiveCache (Some r) 0 (wd_comp w2)\<rparr>
                   | None \<Rightarrow> w2);
                   params = rev (push_args [] (rev (qj_args job)));
                   w4 = exec amx idx params w3
               in (w4\<lparr>wd_comp := clearActiveCache (wd_comp w4)\<rparr>,
                   hook @ [Call amx (c_str (qj_callback job)) params]))))"

definition dispatchHash ::
    "amx_env \<Rightarrow> ('m, 'st) script_exec \<Rightarrow> HashJob \<Rightarrow> ('m, 'st) world \<Rightarrow> ('m, 'st) world \<times> amx_call list" where
  "dispatchHash env exec job w =
     (if \<not> am_pawn env \<or> hj_callback job = [] then (w, [])
      else case findScriptWithPublic env (c_str (hj_callback job)) of
        None \<Rightarrow> (w, [])
      | Some amx \<Rightarrow> fire env exec amx (c_str (hj_callback job))
          (push_args [case hj_op job of
               Hash \<Rightarrow> PStr (c_str (hj_result job))
             | Verify \<Rightarrow> PCell (if hj_verified job then 1 else 0)]
            (rev (hj_args job))) w)"

section \<open>The tick\<close>

fun dispatch_jobs ::
    "amx_env \<Rightarrow> ('m, 'st) script_exec \<Rightarrow> QueryJob list \<Rightarrow> ('m, 'st) world \<Rightarrow> ('m, 'st) world \<times> amx_call list" where
  "dispatch_jobs env exec [] w = (w, [])"
| "dispatch_jobs env exec (j # js) w =
     (let (w1, c1) = dispatchJob env exec j w; (w2, c2) = dispatch_jobs env exec js w1 in (w2, c1 @ c2))"

fun dispatch_hashes ::
    "amx_env \<Rightarrow> ('m, 'st) script_exec \<Rightarrow> HashJob list \<Rightarrow> ('m, 'st) world \<Rightarrow> ('m, 'st) world \<times> amx_call list" where
  "dispatch_hashes env exec [] w = (w, [])"
| "dispatch_hashes env exec (j # js) w =
     (let (w1, c1) = dispatchHash env exec j w; (w2, c2) = dispatch_hashes env exec js w1 in (w2, c1 @ c2))"

definition onTick ::
    "amx_env \<Rightarrow> ('m, 'st) script_exec \<Rightarrow> ('m, 'st) world \<Rightarrow> ('m, 'st) world \<times> amx_call list" where
  "onTick env exec w =
     (let (finished, e) = drainCompleted (engine (wd_comp w));
          (w1, c1) = dispatch_jobs env exec finished (w\<lparr>wd_comp := (wd_comp w)\<lparr>engine := e\<rparr>\<rparr>);
          (hashes, e') = drainHashes (engine (wd_comp w1));
          (w2, c2) = dispatch_hashes env exec hashes (w1\<lparr>wd_comp := (wd_comp w1)\<lparr>engine := e'\<rparr>\<rparr>)
      in (w2, c1 @ c2))"


section \<open>What the scripts see\<close>

text \<open>The calls a job must lead to, a function of the job and the loaded scripts alone.\<close>

definition hook_calls :: "amx_env \<Rightarrow> QueryJob \<Rightarrow> amx_call list" where
  "hook_calls env job = (case (qj_result job, findScriptWithPublic env ''OnQueryExecute'') of
       (Some r, Some amx) \<Rightarrow> if qj_succeeded job
         then [Call amx ''OnQueryExecute'' [PCell (word_of_int (qj_connectionHandle job)),
                 PCell (word_of_int (qr_execTimeMicros r)), PStr (c_str (qj_sql job))]] else []
     | _ \<Rightarrow> [])"

definition error_params :: "QueryJob \<Rightarrow> amx_param list" where
  "error_params job = [PCell (qj_errorCode job), PStr (c_str (qj_error job)), PStr (c_str (qj_callback job)),
     PStr (c_str (qj_sql job)), PCell (word_of_int (qj_connectionHandle job))]"

definition error_calls :: "amx_env \<Rightarrow> QueryJob \<Rightarrow> amx_call list" where
  "error_calls env job = (case findScriptWithPublic env ''OnQueryError'' of
       None \<Rightarrow> []
     | Some amx \<Rightarrow> [Call amx ''OnQueryError'' (error_params job @
         [PStr (c_str (qj_callback job)), PStr (c_str (qj_error job)), PStr (c_str (qj_sql job))])])"

definition named_calls :: "amx_env \<Rightarrow> string \<Rightarrow> amx_param list \<Rightarrow> amx_call list" where
  "named_calls env callback params = (if callback = [] then []
     else case findScriptWithPublic env (c_str callback) of
       None \<Rightarrow> []
     | Some amx \<Rightarrow> [Call amx (c_str callback) params])"

definition job_calls :: "amx_env \<Rightarrow> QueryJob \<Rightarrow> amx_call list" where
  "job_calls env job = (if \<not> am_pawn env \<or> callback_amx env job = None then []
     else hook_calls env job @
       (if qj_succeeded job then named_calls env (qj_callback job) (map marshal (qj_args job))
        else error_calls env job))"

definition hash_calls :: "amx_env \<Rightarrow> HashJob \<Rightarrow> amx_call list" where
  "hash_calls env job = named_calls env (hj_callback job) (map marshal (hj_args job) @
     [case hj_op job of Hash \<Rightarrow> PStr (c_str (hj_result job)) | Verify \<Rightarrow> PCell (if hj_verified job then 1 else 0)])"

lemma push_args_eq [simp]: "push_args acc args = acc @ map marshal args"
  by (induction acc args rule: push_args.induct) simp_all

lemma find_side_Some: "find_side env name sides = Some amx \<Longrightarrow> am_find env amx name \<noteq> None"
  by (induction env name sides rule: find_side.induct) (auto split: if_splits)

lemma findScriptWithPublic_Some: "findScriptWithPublic env name = Some amx \<Longrightarrow> am_find env amx name \<noteq> None"
  by (auto simp: findScriptWithPublic_def dest: find_side_Some split: if_splits option.splits)

lemma findScriptWithPublic_None:
  "findScriptWithPublic env name = None \<Longrightarrow> am_pawn env \<Longrightarrow> am_main env = Some amx \<Longrightarrow> am_find env amx name = None"
  by (auto simp: findScriptWithPublic_def split: if_splits)

lemma findScriptWithPublic_pawn: "\<not> am_pawn env \<Longrightarrow> findScriptWithPublic env name = None"
  by (simp add: findScriptWithPublic_def)

lemma fire_found:
  "findScriptWithPublic env name = Some amx \<Longrightarrow> snd (fire env exec amx name pushes w) = [Call amx name (rev pushes)]"
  by (auto simp: fire_def dest: findScriptWithPublic_Some)

lemma fire_error_calls: "snd (fire_error env exec job w) = error_calls env job"
  by (auto simp: fire_error_def error_calls_def error_pushes_def error_params_def fire_found split: option.splits)

lemma hook_calls_eq:
  "am_pawn env \<Longrightarrow> snd (case qj_result job of
       Some r \<Rightarrow> if qj_succeeded job
         then fireQueryExecuteHook env exec (qj_connectionHandle job) (qj_sql job) (qr_execTimeMicros r) w
         else (w, [])
     | None \<Rightarrow> (w, [])) = hook_calls env job"
  by (auto simp: hook_calls_def fireQueryExecuteHook_def fire_found split: option.splits)

text \<open>Which machine runs the callback.\<close>

lemma callback_amx_named:
  assumes "am_pawn env" and "callback_amx env job = Some amx" and "qj_callback job \<noteq> []"
  shows "case findScriptWithPublic env (c_str (qj_callback job)) of
      Some a \<Rightarrow> amx = a \<and> (\<exists>idx. am_find env amx (c_str (qj_callback job)) = Some idx)
    | None \<Rightarrow> am_find env amx (c_str (qj_callback job)) = None"
  using assms findScriptWithPublic_Some [of env "c_str (qj_callback job)"]
    findScriptWithPublic_None [of env "c_str (qj_callback job)"]
  by (auto simp: callback_amx_def split: option.splits)

lemmas dispatch_simps = dispatchJob_def Let_def fire_error_calls split_beta

definition unbound :: "amx_env \<Rightarrow> QueryJob \<Rightarrow> bool" where
  "unbound env job \<longleftrightarrow> qj_boundPlayer job < 0 \<or> \<not> am_core env"

lemma dispatchJob_calls:
  assumes "unbound env job"
  shows "snd (dispatchJob env exec job w) = job_calls env job"
proof (cases "am_pawn env \<and> callback_amx env job \<noteq> None")
  case False
  then show ?thesis by (auto simp: dispatchJob_def job_calls_def)
next
  case True
  then obtain amx where amx: "am_pawn env" "callback_amx env job = Some amx" by auto
  have unb: "\<not> (0 \<le> qj_boundPlayer job \<and> am_core env \<and> b)" for b
    using assms by (auto simp: unbound_def)
  note named = callback_amx_named [OF amx]
  show ?thesis
  proof (cases "findScriptWithPublic env (c_str (qj_callback job))")
    case None
    with named show ?thesis
      by (auto simp: dispatch_simps job_calls_def named_calls_def amx unb hook_calls_eq split: option.splits)
  next
    case (Some a)
    with named show ?thesis
      by (auto simp: dispatch_simps job_calls_def named_calls_def amx unb hook_calls_eq rev_map split: option.splits)
  qed
qed

lemma dispatchHash_calls: "snd (dispatchHash env exec job w) = hash_calls env job"
  by (cases "hj_op job")
    (auto simp: dispatchHash_def hash_calls_def named_calls_def findScriptWithPublic_pawn fire_found rev_map
      split: option.splits)

lemma dispatch_jobs_calls:
  "\<forall>job \<in> set js. unbound env job \<Longrightarrow> snd (dispatch_jobs env exec js w) = concat (map (job_calls env) js)"
  by (induction js arbitrary: w) (simp_all add: split_beta dispatchJob_calls)

lemma dispatch_hashes_calls: "snd (dispatch_hashes env exec js w) = concat (map (hash_calls env) js)"
  by (induction js arbitrary: w) (simp_all add: split_beta dispatchHash_calls)

section \<open>Properties\<close>


text \<open>A concrete machine: the main script 0 has \<open>OnLoaded\<close> as public 7, script 1 has the two hooks.\<close>

definition demo_env :: amx_env where
  "demo_env = \<lparr>am_pawn = True, am_core = True, am_main = Some 0, am_sides = [None, Some 1],
     am_find = (\<lambda>amx name. if amx = 0 \<and> name = ''OnLoaded'' then Some 7
       else if amx = 1 \<and> name = ''OnQueryError'' then Some 8
       else if amx = 1 \<and> name = ''OnQueryExecute'' then Some 9 else None),
     am_set_string = (\<lambda>a s n mem x. if x < a \<or> a + n \<le> x then mem x
       else if x - a < length s \<and> x - a < n - 1 then of_nat (of_char (s ! (x - a))) else 0),
     am_strtof = (\<lambda>s. 0), am_long = 32\<rparr>"

definition demo_result :: QueryResult where
  "demo_result = \<lparr>qr_sets = [\<lparr>rs_fields = [\<lparr>rf_name = ''id'', rf_type = 3\<rparr>],
       rs_rows = [[\<lparr>rv_value = ''42'', rv_isNull = False\<rparr>]],
       rs_affectedRows = 1, rs_insertId = 0, rs_warningCount = 0\<rparr>], qr_execTimeMicros = 15,
     qr_queryString = ''SELECT id''\<rparr>"

definition demo_job :: QueryJob where
  "demo_job = default_job\<lparr>qj_connectionHandle := 1, qj_sql := ''SELECT id'', qj_callback := ''OnLoaded'',
     qj_args := [makeInt 5, makeString ''ab''], qj_succeeded := True, qj_result := Some demo_result\<rparr>"

definition demo_world :: "(nat, nat) world" where
  "demo_world = \<lparr>wd_comp = new_component, wd_mem = (\<lambda>a. 0), wd_player = (\<lambda>p. p = 3),
     wd_log = \<lparr>lg_core = True, lg_debug = False, lg_debugFile = [], lg_console = [], lg_mirror = []\<rparr>\<rparr>"

text \<open>A script that stores its public's number in cell 100.\<close>

definition demo_exec :: "(nat, nat) script_exec" where
  "demo_exec amx idx params w = w\<lparr>wd_mem := (wd_mem w)(100 := of_nat idx)\<rparr>"

lemma demo_jobs_unbound: "unbound demo_env demo_job"
  by (simp add: unbound_def demo_job_def default_job_def)

lemmas demo_defs = demo_env_def demo_job_def demo_result_def demo_world_def demo_exec_def default_job_def

lemma demo_exec_engine: "engine (wd_comp (demo_exec amx idx params w)) = engine (wd_comp w)"
  by (simp add: demo_exec_def)

lemma demo_fire_engine: "engine (wd_comp (fst (fire env demo_exec amx name pushes w))) = engine (wd_comp w)"
  by (simp add: fire_def demo_exec_engine split: option.split)

lemma demo_keeps_engine:
  "qj_modelHandle job = 0 \<Longrightarrow> engine (wd_comp (fst (dispatchJob env demo_exec job w))) = engine (wd_comp w)"
  by (auto simp: dispatchJob_def fireQueryExecuteHook_def fire_error_def setActiveCache_def clearActiveCache_def
      demo_fire_engine demo_exec_engine split_beta Let_def split: option.splits)






section \<open>Writing a row into the bound variables\<close>

text \<open>The cells a bound field owns, and the documented contract of \<^verbatim>\<open>amx_SetString\<close>: it writes at most \<open>size\<close> cells.\<close>

definition region :: "ModelField \<Rightarrow> nat set" where
  "region f = (case mf_addr f of None \<Rightarrow> {}
     | Some a \<Rightarrow> if mf_type f = MString then {a..<a + nat (mf_maxlen f)} else {a})"

definition set_string_bounded :: "amx_env \<Rightarrow> bool" where
  "set_string_bounded env \<longleftrightarrow>
     (\<forall>a s n mem x. x \<notin> {a..<a + n} \<longrightarrow> am_set_string env a s n mem x = mem x)"

lemma write_field_frame:
  "set_string_bounded env \<Longrightarrow> mf_addr f = Some a \<Longrightarrow> x \<notin> region f \<Longrightarrow> write_field env f a v mem x = mem x"
  by (cases "mf_type f") (auto simp: write_field_def region_def set_string_bounded_def)

lemma write_fields_frame:
  assumes "set_string_bounded env" and "\<forall>f \<in> set fs. x \<notin> region f"
  shows "write_fields env rset row fs mem x = mem x"
  using assms(2)
proof (induction fs arbitrary: mem)
  case Nil
  then show ?case by simp
next
  case (Cons f fs)
  then show ?case by (simp add: write_field_frame [OF assms(1)] Let_def split: option.split)
qed

lemma write_fields_append:
  "write_fields env rset row (fs @ gs) mem = write_fields env rset row gs (write_fields env rset row fs mem)"
  by (induction fs arbitrary: mem) (simp_all add: Let_def split: option.split)

lemma applyModelResult_find:
  assumes "getModel (qj_modelHandle job) (wd_comp w) = Some m" and "qj_modelOp job = MODEL_OP_FIND"
    and "qj_succeeded job" and "qj_result job = Some r" and "qr_sets r = rset # sets" and "rs_rows rset = row # rows"
  shows "applyModelResult env job w = w\<lparr>wd_mem := write_fields env rset row (md_fields m) (wd_mem w),
    wd_comp := (wd_comp w)\<lparr>models := assign (qj_modelHandle job) (setError Ok m) (models (wd_comp w))\<rparr>\<rparr>"
  using assms by (simp add: applyModelResult_def set_model_error_def MODEL_OP_INSERT_def MODEL_OP_FIND_def)


definition demo_model :: Model where
  "demo_model = setKey ''id'' (model_bindInt ''id'' (Some 10) (new_Model 1 ''users''))"

lemma demo_find_column: "fieldIndex (hd (qr_sets demo_result)) ''id'' = 0"
  by (simp add: demo_result_def fieldIndex_def wrap32_id)

lemma demo_strtol: "strtol 32 ''42'' = 42"
  by (simp add: strtol_def strtol_value_def c_str_def c_isspace_def c_isdigit_def digit_val_def)


end
