(* ===== verification/Natives.thy ===== *)
theory Natives
  imports Config Dispatch Guards
begin

text \<open>
  The natives of \<^verbatim>\<open>src/natives.cpp\<close> that run queries: the argument mini-language, the asynchronous and
  synchronous natives, the natives of connections, prepared statements and password hashing.  A native gets its
  parameter cells from the scripting machine; the machine's address translation, text access and number formatting
  are parameters.
\<close>

section \<open>A native's surroundings\<close>

record native_env =
  ne_amx :: amx_env
  ne_log :: log_env
  ne_script :: "nat \<Rightarrow> script"
  ne_read_file :: "string \<Rightarrow> string option"
  ne_ftext :: "cell \<Rightarrow> string"
  ne_gtext :: "cell \<Rightarrow> string"

text \<open>\<^verbatim>\<open>params[0] / sizeof(cell)\<close>; the machine passes the number of argument bytes, never a negative one.\<close>

definition param_count :: "params \<Rightarrow> nat" where
  "param_count params = nat (sint (params ! 0)) div 4"

definition cell_ref :: "script \<Rightarrow> (nat \<Rightarrow> cell) \<Rightarrow> cell \<Rightarrow> cell" where
  "cell_ref sc mem p = (case sc_addr sc p of None \<Rightarrow> 0 | Some a \<Rightarrow> mem a)"

section \<open>The argument mini-language\<close>

text \<open>The loop over the format, \<open>p\<close> being the index of the next value.\<close>

fun decode_loop ::
    "script \<Rightarrow> (nat \<Rightarrow> cell) \<Rightarrow> params \<Rightarrow> nat \<Rightarrow> string \<Rightarrow> CallbackArg list \<Rightarrow> CallbackArg list" where
  "decode_loop sc mem params p [] out = out"
| "decode_loop sc mem params p (spec # fmt) out =
     (if param_count params < p then out
      else if spec = CHR ''d'' \<or> spec = CHR ''i''
        then decode_loop sc mem params (p + 1) fmt (out @ [makeInt (int_ref sc mem (params ! p))])
      else if spec = CHR ''f''
        then decode_loop sc mem params (p + 1) fmt (out @ [makeFloat (cell_ref sc mem (params ! p))])
      else if spec = CHR ''s''
        then decode_loop sc mem params (p + 1) fmt (out @ [makeString (AmxStringParam sc mem (params ! p))])
      else decode_loop sc mem params p fmt out)"

definition DecodeFormat :: "script \<Rightarrow> (nat \<Rightarrow> cell) \<Rightarrow> params \<Rightarrow> nat \<Rightarrow> string \<Rightarrow> CallbackArg list" where
  "DecodeFormat sc mem params firstValue fmt = decode_loop sc mem params firstValue fmt []"

section \<open>Reporting a rejected query\<close>

definition GuardRejectText :: "GuardReject \<Rightarrow> string" where
  "GuardRejectText r = (case r of
       UnknownHandle \<Rightarrow> ''invalid connection handle''
     | TooLong \<Rightarrow> ''query exceeds the configured length limit''
     | RateLimited \<Rightarrow> ''query rate limit exceeded''
     | TooManyPending \<Rightarrow> ''too many pending queries''
     | MultiStatement \<Rightarrow> ''multiple statements rejected (CLIENT_MULTI_STATEMENTS not enabled)''
     | NoReject \<Rightarrow> ''query rejected'')"

definition ReportGuardReject ::
    "native_env \<Rightarrow> ('m, 'st) script_exec \<Rightarrow> nat \<Rightarrow> int \<Rightarrow> string \<Rightarrow> string \<Rightarrow> GuardReject \<Rightarrow> ('m, 'st) world
      \<Rightarrow> ('m, 'st) world \<times> amx_call list" where
  "ReportGuardReject env exec amx handle sql callback reason w =
     (if reason = UnknownHandle then (w, [])
      else fire (ne_amx env) exec amx ''OnQueryError'' (error_pushes handle sql callback (GuardRejectText reason) 0) w)"

definition ReportSyncReject ::
    "native_env \<Rightarrow> ('m, 'st) script_exec \<Rightarrow> int \<Rightarrow> string \<Rightarrow> GuardReject \<Rightarrow> ('m, 'st) world
      \<Rightarrow> ('m, 'st) world \<times> amx_call list" where
  "ReportSyncReject env exec handle sql reason w =
     (if reason = UnknownHandle then (w, [])
      else dispatchJob (ne_amx env) exec
        (default_job\<lparr>qj_connectionHandle := handle, qj_sql := sql, qj_error := GuardRejectText reason\<rparr>) w)"

section \<open>Asynchronous queries\<close>

text \<open>What \<^verbatim>\<open>checkGuards\<close> writes to the server's log when it rejects a job.\<close>

definition multi_statement_notice :: string where
  "multi_statement_notice = ''query rejected: multiple statements on a connection that did not enable CLIENT_MULTI_STATEMENTS (possible SQL injection)''"

definition guard_warning :: "QueryJob \<Rightarrow> GuardReject \<Rightarrow> ('m, 'st) component \<Rightarrow> logger \<Rightarrow> logger" where
  "guard_warning job reason c lg = (case reason of
       TooLong \<Rightarrow> log_line LogWarning (''query rejected: length '' @ show_nat (length (qj_sql job)) @ '' exceeds limit '' @
         show_nat (maxQueryLength (entry_or default_guards (qj_connectionHandle job) (guards c)))) lg
     | MultiStatement \<Rightarrow> log_line LogWarning multi_statement_notice lg
     | TooManyPending \<Rightarrow> log_line LogWarning ''query rejected: too many pending queries'' lg
     | RateLimited \<Rightarrow> log_line LogWarning ''query rejected: rate limit exceeded'' lg
     | _ \<Rightarrow> lg)"

text \<open>\<^verbatim>\<open>enqueueJob\<close> with its line in the log.\<close>

definition host_enqueue :: "int \<Rightarrow> int \<Rightarrow> QueryJob \<Rightarrow> ('m, 'st) world \<Rightarrow> GuardReject \<times> ('m, 'st) world" where
  "host_enqueue now pend job w = (let (r, c') = enqueueJob now pend job (wd_comp w) in
     (r, w\<lparr>wd_comp := c', wd_log := guard_warning job r (wd_comp w) (wd_log w)\<rparr>))"

lemma guard_warning_none [simp]: "guard_warning job NoReject c lg = lg" "guard_warning job UnknownHandle c lg = lg"
  by (simp_all add: guard_warning_def)

text \<open>
  The common end of the asynchronous natives: enqueue, and report a rejection with the SQL \<open>reported\<close>.  \<open>now\<close> is the
  clock and \<open>pend\<close> the pending counter the guards read.
\<close>

definition submit_job ::
    "native_env \<Rightarrow> ('m, 'st) script_exec \<Rightarrow> nat \<Rightarrow> int \<Rightarrow> int \<Rightarrow> QueryJob \<Rightarrow> string \<Rightarrow> ('m, 'st) world
      \<Rightarrow> cell \<times> ('m, 'st) world \<times> amx_call list" where
  "submit_job env exec amx now pend job reported w =
     (let (r, w') = host_enqueue now pend job w in
      if r = NoReject then (1, w', [])
      else (0, ReportGuardReject env exec amx (qj_connectionHandle job) reported (qj_callback job) r w'))"

text \<open>The job of the three asynchronous natives, from the SQL and the callback parameters.\<close>

definition query_job :: "script \<Rightarrow> (nat \<Rightarrow> cell) \<Rightarrow> params \<Rightarrow> string \<Rightarrow> QueryJob" where
  "query_job sc mem params sql = default_job\<lparr>qj_connectionHandle := sint (params ! 1), qj_sql := sql,
     qj_callback := (if 3 \<le> param_count params then AmxStringParam sc mem (params ! 3) else []),
     qj_args := (if 4 \<le> param_count params
       then DecodeFormat sc mem params 5 (AmxStringParam sc mem (params ! 4)) else [])\<rparr>"

definition n_mysql_execute ::
    "native_env \<Rightarrow> ('m, 'st) script_exec \<Rightarrow> nat \<Rightarrow> int \<Rightarrow> int \<Rightarrow> params \<Rightarrow> ('m, 'st) world
      \<Rightarrow> cell \<times> ('m, 'st) world \<times> amx_call list" where
  "n_mysql_execute env exec amx now pend params w =
     (if param_count params < 2 then (0, w, [])
      else let sc = ne_script env amx;
               job = query_job sc (wd_mem w) params (AmxStringParam sc (wd_mem w) (params ! 2))
           in submit_job env exec amx now pend job (qj_sql job) w)"

definition bind_player :: "QueryJob \<Rightarrow> QueryJob" where
  "bind_player job = (case List.find (\<lambda>a. cb_type a = AInt) (qj_args job) of
       None \<Rightarrow> job
     | Some a \<Rightarrow> job\<lparr>qj_boundPlayer := cb_intValue a\<rparr>)"

definition n_mysql_execute_for ::
    "native_env \<Rightarrow> ('m, 'st) script_exec \<Rightarrow> nat \<Rightarrow> int \<Rightarrow> int \<Rightarrow> params \<Rightarrow> ('m, 'st) world
      \<Rightarrow> cell \<times> ('m, 'st) world \<times> amx_call list" where
  "n_mysql_execute_for env exec amx now pend params w =
     (if param_count params < 2 then (0, w, [])
      else let sc = ne_script env amx;
               job = bind_player (query_job sc (wd_mem w) params (AmxStringParam sc (wd_mem w) (params ! 2)))
           in submit_job env exec amx now pend job (qj_sql job) w)"

text \<open>\<^verbatim>\<open>ReadSqlFile\<close>: the text without a byte order mark, if there is anything but blanks in it.\<close>

definition strip_bom :: "string \<Rightarrow> string" where
  "strip_bom s = (if 3 \<le> length s \<and> take 3 s = [CHR 0xEF, CHR 0xBB, CHR 0xBF] then drop 3 s else s)"

definition ReadSqlFile ::
    "(string \<Rightarrow> string option) \<Rightarrow> string \<Rightarrow> string \<Rightarrow> logger \<Rightarrow> string option \<times> logger" where
  "ReadSqlFile read_file who path lg = (case read_file path of
       None \<Rightarrow> (None, log_line LogError (who @ '': cannot open '' @ path) lg)
     | Some text \<Rightarrow>
         (let sql = strip_bom text in
          if \<forall>c \<in> set sql. cfg_blank c then (None, log_line LogError (who @ '': '' @ path @ '' contains no SQL'') lg)
          else (Some sql, lg)))"

definition n_mysql_execute_file ::
    "native_env \<Rightarrow> ('m, 'st) script_exec \<Rightarrow> nat \<Rightarrow> int \<Rightarrow> int \<Rightarrow> params \<Rightarrow> ('m, 'st) world
      \<Rightarrow> cell \<times> ('m, 'st) world \<times> amx_call list" where
  "n_mysql_execute_file env exec amx now pend params w =
     (if param_count params < 2 then (0, w, [])
      else let sc = ne_script env amx;
               (sql, lg) = ReadSqlFile (ne_read_file env) ''mysql_execute_file''
                 (AmxStringParam sc (wd_mem w) (params ! 2)) (wd_log w);
               w1 = w\<lparr>wd_log := lg\<rparr>
           in case sql of
                None \<Rightarrow> (0, w1, [])
              | Some text \<Rightarrow> (let job = query_job sc (wd_mem w) params text in
                  submit_job env exec amx now pend job (qj_sql job) w1))"

section \<open>Synchronous queries\<close>

definition RunSyncQuery ::
    "native_env \<Rightarrow> ('m, 'st) script_exec \<Rightarrow> 'm client \<Rightarrow> ('m, 'st) stmt_client \<Rightarrow> (QueryJob \<Rightarrow> int) \<Rightarrow> int \<Rightarrow> int
      \<Rightarrow> int \<Rightarrow> string \<Rightarrow> bool \<Rightarrow> ('m, 'st) world
      \<Rightarrow> (cell \<times> ('m, 'st) world \<times> amx_call list) access option" where
  "RunSyncQuery env exec api sapi elapsed now pend handle sql useCache w =
     (let job = default_job\<lparr>qj_connectionHandle := handle, qj_sql := sql, qj_useCache := useCache\<rparr> in
     map_option (\<lambda>x. access_bind x (\<lambda>(done1, reason, c').
         let w1 = w\<lparr>wd_comp := c', wd_log := guard_warning job reason (wd_comp w) (wd_log w)\<rparr> in
         case done1 of
           None \<Rightarrow> Found (0, ReportSyncReject env exec handle sql reason w1)
         | Some j \<Rightarrow>
             (let (w2, calls) = dispatchJob (ne_amx env) exec j w1 in
              if \<not> qj_succeeded j \<or> qj_result j = None then Found (0, w2, calls)
              else let c2 = setActiveCache (qj_result j) 0 (wd_comp w2) in
                if useCache
                then (let (saved, c3) = saveActiveCache c2 in Found (word_of_int saved, w2\<lparr>wd_comp := c3\<rparr>, calls))
                else Found (0, w2\<lparr>wd_comp := c2\<rparr>, calls))))
       (runJobSync api sapi elapsed now pend job (wd_comp w)))"

definition mysql_execute_sync ::
    "native_env \<Rightarrow> ('m, 'st) script_exec \<Rightarrow> 'm client \<Rightarrow> ('m, 'st) stmt_client \<Rightarrow> (QueryJob \<Rightarrow> int) \<Rightarrow> int \<Rightarrow> int
      \<Rightarrow> int \<Rightarrow> string \<Rightarrow> bool \<Rightarrow> ('m, 'st) world
      \<Rightarrow> (cell \<times> ('m, 'st) world \<times> amx_call list) access option" where
  "mysql_execute_sync env exec api sapi elapsed now pend handle query use_cache w =
     RunSyncQuery env exec api sapi elapsed now pend handle query use_cache w"

definition mysql_execute_file_sync ::
    "native_env \<Rightarrow> ('m, 'st) script_exec \<Rightarrow> 'm client \<Rightarrow> ('m, 'st) stmt_client \<Rightarrow> (QueryJob \<Rightarrow> int) \<Rightarrow> int \<Rightarrow> int
      \<Rightarrow> int \<Rightarrow> string \<Rightarrow> bool \<Rightarrow> ('m, 'st) world
      \<Rightarrow> (cell \<times> ('m, 'st) world \<times> amx_call list) access option" where
  "mysql_execute_file_sync env exec api sapi elapsed now pend handle file_path use_cache w =
     (let (sql, lg) = ReadSqlFile (ne_read_file env) ''mysql_execute_file_sync'' file_path (wd_log w);
          w1 = w\<lparr>wd_log := lg\<rparr>
      in case sql of
           None \<Rightarrow> Some (Found (0, w1, []))
         | Some text \<Rightarrow> RunSyncQuery env exec api sapi elapsed now pend handle text use_cache w1)"

section \<open>Natives of a connection\<close>

text \<open>
  The shape they share: an unknown handle gives the answer \<open>dflt\<close>; otherwise the operation runs on the connection
  object the handle leads to.
\<close>

definition on_conn ::
    "int \<Rightarrow> 'a \<Rightarrow> ('m Connection \<Rightarrow> 'a \<times> 'm Connection) \<Rightarrow> ('m, 'st) component \<Rightarrow> ('a \<times> ('m, 'st) component) access" where
  "on_conn handle dflt f c = (case getConnection handle c of
       None \<Rightarrow> Found (dflt, c)
     | Some a \<Rightarrow> (case so_conns (heap c) a of
         None \<Rightarrow> Undefined_Behaviour
       | Some conn \<Rightarrow> (let (x, conn') = f conn in Found (x, put_conn a (Some conn') c))))"

definition mysql_close ::
    "'m client \<Rightarrow> ('m, 'st) stmt_client \<Rightarrow> (QueryJob \<Rightarrow> int) \<Rightarrow> int \<Rightarrow> ('m, 'st) component
      \<Rightarrow> (bool \<times> ('m, 'st) component) access option" where
  "mysql_close api sapi elapsed handle c = removeConnection api sapi elapsed handle c"

definition mysql_errno :: "'m client \<Rightarrow> int \<Rightarrow> ('m, 'st) component \<Rightarrow> (int \<times> ('m, 'st) component) access" where
  "mysql_errno api handle c = on_conn handle 0 (\<lambda>conn. (sint (conn_lastErrno api conn), conn)) c"

text \<open>The text goes to the output parameter, the flag is the native's answer.\<close>

definition mysql_error ::
    "'m client \<Rightarrow> int \<Rightarrow> ('m, 'st) component \<Rightarrow> ((string \<times> bool) \<times> ('m, 'st) component) access" where
  "mysql_error api handle c =
     on_conn handle (''invalid connection handle'', True) (\<lambda>conn. ((conn_lastError api conn, True), conn)) c"

definition mysql_escape ::
    "'m client \<Rightarrow> string \<Rightarrow> int \<Rightarrow> ('m, 'st) component \<Rightarrow> ((string \<times> int) \<times> ('m, 'st) component) access" where
  "mysql_escape api source handle c =
     on_conn handle (source, wrap32 (int (length source)))
       (\<lambda>conn. let escaped = conn_escape api conn source in ((escaped, wrap32 (int (length escaped))), conn)) c"

definition mysql_set_charset ::
    "'m client \<Rightarrow> string \<Rightarrow> int \<Rightarrow> ('m, 'st) component \<Rightarrow> (bool \<times> ('m, 'st) component) access" where
  "mysql_set_charset api charset handle c = on_conn handle False (setCharset api charset) c"

definition mysql_get_charset ::
    "'m client \<Rightarrow> int \<Rightarrow> ('m, 'st) component \<Rightarrow> ((string \<times> bool) \<times> ('m, 'st) component) access" where
  "mysql_get_charset api handle c = on_conn handle ([], False) (\<lambda>conn. ((getCharset api conn, True), conn)) c"

definition mysql_server_status ::
    "'m client \<Rightarrow> int \<Rightarrow> ('m, 'st) component \<Rightarrow> ((string \<times> bool) \<times> ('m, 'st) component) access" where
  "mysql_server_status api handle c =
     on_conn handle ([], False) (\<lambda>conn. case conn_stat api conn of (s, conn') \<Rightarrow> ((s, True), conn')) c"

definition mysql_get_tls_cipher ::
    "'m client \<Rightarrow> int \<Rightarrow> ('m, 'st) component \<Rightarrow> ((string \<times> bool) \<times> ('m, 'st) component) access" where
  "mysql_get_tls_cipher api handle c =
     on_conn handle ([], True) (\<lambda>conn. case sslCipher api conn of (s, conn') \<Rightarrow> ((s, True), conn')) c"

definition mysql_is_tls_enabled ::
    "'m client \<Rightarrow> int \<Rightarrow> ('m, 'st) component \<Rightarrow> (bool \<times> ('m, 'st) component) access" where
  "mysql_is_tls_enabled api handle c = on_conn handle False (sslEnabled api) c"

text \<open>\<^verbatim>\<open>pendingQueries\<close>, on the jobs the worker has not finished.\<close>

definition pendingQueries :: "int \<Rightarrow> ('m, 'st) component \<Rightarrow> int" where
  "pendingQueries handle c = (case map_of (workers c) handle of None \<Rightarrow> 0 | Some w \<Rightarrow> int (length (cw_jobs w)))"

definition mysql_pending_count :: "int \<Rightarrow> ('m, 'st) component \<Rightarrow> int" where
  "mysql_pending_count handle c = pendingQueries handle c"

section \<open>Natives of prepared statements\<close>

text \<open>\<open>a\<close> is the address of the new object; an invalid one is freed again.\<close>

definition mysql_prepare ::
    "native_env \<Rightarrow> ('m, 'st) stmt_client \<Rightarrow> int \<Rightarrow> string \<Rightarrow> nat \<Rightarrow> ('m, 'st) world \<Rightarrow> int \<times> ('m, 'st) world" where
  "mysql_prepare env sapi handle query a w = (case getConnection handle (wd_comp w) of
       None \<Rightarrow> (0, w)
     | Some conn \<Rightarrow>
         (let p = new_statement (Some conn) query in
          if \<not> valid p
          then (0, w\<lparr>wd_log := log_line LogError (''mysql_prepare failed: '' @ stmt_lastError sapi p) (wd_log w)\<rparr>)
          else let (h, c') = addStatement (Some a) (put_stmt a (Some p) (wd_comp w)) in
            (h, w\<lparr>wd_comp := c', wd_log := debugLog (ne_log env)
               (''mysql_prepare: handle='' @ show_int h @ '' query='' @ [SQ] @ take 60 query @ [SQ]) (wd_log w)\<rparr>)))"

text \<open>
  The four setters: the index is one less than the script's; the subtraction overflows for the least integer only.
\<close>

definition on_stmt ::
    "int \<Rightarrow> int \<Rightarrow> (int \<Rightarrow> 'st PreparedStatement \<Rightarrow> 'st PreparedStatement) \<Rightarrow> ('m, 'st) component
      \<Rightarrow> (bool \<times> ('m, 'st) component) access" where
  "on_stmt stmt param_index bind c = (case getStatement stmt c of
       None \<Rightarrow> Found (False, c)
     | Some a \<Rightarrow> (case so_stmts (heap c) a of
         None \<Rightarrow> Undefined_Behaviour
       | Some p \<Rightarrow> if param_index = - (2 ^ 31) then Undefined_Behaviour
           else Found (True, put_stmt a (Some (bind (param_index - 1) p)) c)))"

definition mysql_stmt_set_int ::
    "int \<Rightarrow> int \<Rightarrow> int \<Rightarrow> ('m, 'st) component \<Rightarrow> (bool \<times> ('m, 'st) component) access" where
  "mysql_stmt_set_int stmt param_index v c = on_stmt stmt param_index (\<lambda>i. bindInt i v) c"

definition mysql_stmt_set_float ::
    "int \<Rightarrow> int \<Rightarrow> cell \<Rightarrow> ('m, 'st) component \<Rightarrow> (bool \<times> ('m, 'st) component) access" where
  "mysql_stmt_set_float stmt param_index v c = on_stmt stmt param_index (\<lambda>i. bindFloat i v) c"

definition mysql_stmt_set_string ::
    "log_env \<Rightarrow> int \<Rightarrow> int \<Rightarrow> string \<Rightarrow> ('m, 'st) component \<Rightarrow> logger
      \<Rightarrow> (bool \<times> ('m, 'st) component) access \<times> logger" where
  "mysql_stmt_set_string lenv stmt param_index v c lg =
     (on_stmt stmt param_index (\<lambda>i. bindString i v) c,
      debugLog lenv (''stmt_set_string: stmt='' @ show_int stmt @ '' idx='' @ show_int param_index) lg)"

definition mysql_stmt_set_null ::
    "int \<Rightarrow> int \<Rightarrow> ('m, 'st) component \<Rightarrow> (bool \<times> ('m, 'st) component) access" where
  "mysql_stmt_set_null stmt param_index c = on_stmt stmt param_index bindNull c"

definition mysql_stmt_close :: "int \<Rightarrow> ('m, 'st) component \<Rightarrow> (bool \<times> ('m, 'st) component) access" where
  "mysql_stmt_close stmt c = removeStatement stmt c"

definition reject_number :: "GuardReject \<Rightarrow> nat" where
  "reject_number r = (case r of NoReject \<Rightarrow> 0 | UnknownHandle \<Rightarrow> 1 | TooLong \<Rightarrow> 2 | RateLimited \<Rightarrow> 3
     | TooManyPending \<Rightarrow> 4 | MultiStatement \<Rightarrow> 5)"

definition stmt_job ::
    "script \<Rightarrow> (nat \<Rightarrow> cell) \<Rightarrow> params \<Rightarrow> int \<Rightarrow> nat \<Rightarrow> 'st PreparedStatement \<Rightarrow> QueryJob" where
  "stmt_job sc mem params connHandle a p = default_job\<lparr>qj_connectionHandle := connHandle, qj_statement := Some a,
     qj_sql := ps_query p,
     qj_callback := (if 2 \<le> param_count params then AmxStringParam sc mem (params ! 2) else []),
     qj_args := (if 3 \<le> param_count params
       then DecodeFormat sc mem params 4 (AmxStringParam sc mem (params ! 3)) else [])\<rparr>"

definition n_mysql_stmt_execute ::
    "native_env \<Rightarrow> ('m, 'st) script_exec \<Rightarrow> nat \<Rightarrow> int \<Rightarrow> int \<Rightarrow> params \<Rightarrow> ('m, 'st) world
      \<Rightarrow> (cell \<times> ('m, 'st) world \<times> amx_call list) access" where
  "n_mysql_stmt_execute env exec amx now pend params w =
     (if param_count params < 1 then Found (0, w, [])
      else let stmtHandle = sint (params ! 1); c = wd_comp w; dbg = debugLog (ne_log env) in
        case getStatement stmtHandle c of
          None \<Rightarrow> Found (0, w\<lparr>wd_log := dbg (''stmt_execute reject: stmt='' @ show_int stmtHandle @
            '' getStatement=null'') (wd_log w)\<rparr>, [])
        | Some a \<Rightarrow> (case so_stmts (heap c) a of
            None \<Rightarrow> Undefined_Behaviour
          | Some p \<Rightarrow>
              if \<not> valid p
              then Found (0, w\<lparr>wd_log := dbg (''stmt_execute reject: stmt='' @ show_int stmtHandle @
                '' valid=false'') (wd_log w)\<rparr>, [])
              else let connHandle = connectionHandleOf (ps_conn p) c in
                if connHandle = 0
                then Found (0, w\<lparr>wd_log := dbg (''stmt_execute reject: connectionHandleOf==0 (statement'' @ [SQ] @
                  ''s connection not in the pool) stmt='' @ show_int stmtHandle) (wd_log w)\<rparr>, [])
                else let job = stmt_job (ne_script env amx) (wd_mem w) params connHandle a p;
                         lg1 = dbg (''stmt_execute: enqueue stmt='' @ show_int stmtHandle @ '' conn='' @
                           show_int connHandle @ '' cb='' @ [SQ] @ qj_callback job @ [SQ]) (wd_log w);
                         (r, w1) = host_enqueue now pend job (w\<lparr>wd_log := lg1\<rparr>)
                     in if r = NoReject then Found (1, w1, [])
                        else Found (0, ReportGuardReject env exec amx connHandle [] (qj_callback job) r
                          (w1\<lparr>wd_log := dbg (''stmt_execute reject: enqueueJob failed reason='' @
                             show_nat (reject_number r) @ '' conn='' @ show_int connHandle) (wd_log w1)\<rparr>))))"

section \<open>Natives of password hashing\<close>

definition put_hash :: "HashJob \<Rightarrow> ('m, 'st) world \<Rightarrow> ('m, 'st) world" where
  "put_hash job w = w\<lparr>wd_comp := (wd_comp w)\<lparr>engine := enqueueHash job (engine (wd_comp w))\<rparr>\<rparr>"

definition n_mysql_hash_password :: "script \<Rightarrow> params \<Rightarrow> ('m, 'st) world \<Rightarrow> cell \<times> ('m, 'st) world" where
  "n_mysql_hash_password sc params w =
     (if param_count params < 2 then (0, w)
      else (1, put_hash (default_hash_job\<lparr>hj_op := Hash, hj_password := AmxStringParam sc (wd_mem w) (params ! 1),
        hj_callback := AmxStringParam sc (wd_mem w) (params ! 2),
        hj_args := (if 3 \<le> param_count params
          then DecodeFormat sc (wd_mem w) params 5 (AmxStringParam sc (wd_mem w) (params ! 3)) else [])\<rparr>) w))"

definition n_mysql_verify_password :: "script \<Rightarrow> params \<Rightarrow> ('m, 'st) world \<Rightarrow> cell \<times> ('m, 'st) world" where
  "n_mysql_verify_password sc params w =
     (if param_count params < 3 then (0, w)
      else (1, put_hash (default_hash_job\<lparr>hj_op := Verify, hj_password := AmxStringParam sc (wd_mem w) (params ! 1),
        hj_hash := AmxStringParam sc (wd_mem w) (params ! 2),
        hj_callback := AmxStringParam sc (wd_mem w) (params ! 3),
        hj_args := (if 5 \<le> param_count params
          then DecodeFormat sc (wd_mem w) params 5 (AmxStringParam sc (wd_mem w) (params ! 4)) else [])\<rparr>) w))"

definition mysql_hash_sync :: "argon2 \<Rightarrow> (nat \<Rightarrow> 32 word) \<Rightarrow> string \<Rightarrow> string \<times> int" where
  "mysql_hash_sync a2 rd password = (let h = hashArgon2id a2 rd password default_params in (h, wrap32 (int (length h))))"

definition mysql_verify_sync :: "argon2 \<Rightarrow> string \<Rightarrow> string \<Rightarrow> bool" where
  "mysql_verify_sync a2 password hash = verify_hash a2 password hash"

section \<open>What a callback is passed\<close>

text \<open>The machine passes as many cells as it says, after the count.\<close>

definition well_called :: "params \<Rightarrow> bool" where
  "well_called params \<longleftrightarrow> length params = param_count params + 1"

definition known_spec :: "char \<Rightarrow> bool" where
  "known_spec spec \<longleftrightarrow> spec \<in> {CHR ''d'', CHR ''i'', CHR ''f'', CHR ''s''}"

text \<open>The parameter a value becomes: the text behind it, or its cell unchanged.\<close>

definition passed :: "script \<Rightarrow> (nat \<Rightarrow> cell) \<Rightarrow> char \<times> cell \<Rightarrow> amx_param" where
  "passed sc mem = (\<lambda>(spec, p). if spec = CHR ''s'' then PStr (c_str (AmxStringParam sc mem p))
     else PCell (cell_ref sc mem p))"

lemma marshal_decoded [simp]:
  "marshal (makeInt (int_ref sc mem p)) = PCell (cell_ref sc mem p)"
  "marshal (makeFloat v) = PCell v" "marshal (makeString s) = PStr (c_str s)"
  by (simp_all add: marshal_def makeInt_def makeFloat_def makeString_def default_arg_def int_ref_def cell_ref_def
      split: option.split)

lemma decode_loop_passed:
  "well_called params \<Longrightarrow> map marshal (decode_loop sc mem params p fmt out) =
    map marshal out @ map (passed sc mem) (zip (filter known_spec fmt) (drop p params))"
proof (induction sc mem params p fmt out rule: decode_loop.induct)
  case (2 sc mem params p spec fmt out)
  show ?case
  proof (cases "param_count params < p")
    case True
    with "2.prems" show ?thesis by (simp add: well_called_def)
  next
    case False
    then have "drop p params = params ! p # drop (p + 1) params"
      using "2.prems" by (simp add: well_called_def Cons_nth_drop_Suc)
    with False 2 show ?thesis
      by (auto simp: known_spec_def passed_def)
  qed
qed simp

section \<open>Properties\<close>

text \<open>
  C34: what a script passes to an asynchronous native is what its callback gets: for each specifier of the format, in
  order, the cell (or the text) behind the corresponding argument, bit for bit, unknown specifiers skipped; and no
  cell past those the machine passed is read, however long the format is.
\<close>

theorem callback_arguments_roundtrip:
  assumes "well_called params"
  shows "map marshal (DecodeFormat sc mem params first fmt) =
    map (\<lambda>(spec, p). if spec = CHR ''s'' then PStr (c_str (AmxStringParam sc mem p)) else PCell (cell_ref sc mem p))
      (zip (filter known_spec fmt) (drop first params))"
  using decode_loop_passed [OF assms, of sc mem first fmt "[]"] by (simp add: DecodeFormat_def passed_def)

theorem callback_arguments_roundtrip_witness:
  "map marshal (DecodeFormat \<lparr>sc_addr = (\<lambda>p. Some (unat p)), sc_text = (\<lambda>a mem. ''hi'')\<rparr> (\<lambda>a. if a = 3 then 7 else 9)
     [12, 3, 8, 5] 1 ''dxs'') = [PCell 7, PStr ''hi'']"
proof -
  have "well_called [12, 3, 8, 5]" by (simp add: well_called_def param_count_def)
  from callback_arguments_roundtrip [OF this] show ?thesis
    by (simp add: known_spec_def AmxStringParam_def cell_ref_def c_str_def)
qed

lemma ReportGuardReject_calls:
  "r \<noteq> UnknownHandle \<Longrightarrow> snd (ReportGuardReject env exec amx h sql cb r w) =
    (if am_find (ne_amx env) amx ''OnQueryError'' = None then []
     else [Call amx ''OnQueryError'' (rev (error_pushes h sql cb (GuardRejectText r) 0))])"
  by (auto simp: ReportGuardReject_def fire_def)

definition demo_native_env :: native_env where
  "demo_native_env = \<lparr>ne_amx = demo_env, ne_log = demo_log_env,
     ne_script = (\<lambda>amx. \<lparr>sc_addr = (\<lambda>p. Some (unat p)),
       sc_text = (\<lambda>a mem. map (\<lambda>i. char_of (unat (mem (a + i)))) (takeWhile (\<lambda>i. mem (a + i) \<noteq> 0) [0..<64]))\<rparr>),
     ne_read_file = (\<lambda>f. None), ne_ftext = (\<lambda>c. ''0.0''), ne_gtext = (\<lambda>c. ''0'')\<rparr>"


definition demo_stacked :: native_env where
  "demo_stacked = demo_native_env\<lparr>ne_script := (\<lambda>amx. \<lparr>sc_addr = (\<lambda>p. Some 0),
     sc_text = (\<lambda>a mem. ''SELECT 1; DROP TABLE users'')\<rparr>)\<rparr>"

definition demo_connected :: "(nat, nat) world" where
  "demo_connected = demo_world\<lparr>wd_comp := limited\<lparr>workers := [(1, \<lparr>cw_conn = 3, cw_jobs = []\<rparr>)]\<rparr>\<rparr>"

lemma demo_stacked_reject:
  "fst (n_mysql_execute demo_stacked demo_exec 1 0 0 [8, 1, 0] demo_connected) = 0"
  by (simp add: n_mysql_execute_def submit_job_def host_enqueue_def demo_stacked_def demo_connected_def query_job_def param_count_def
      AmxStringParam_def limited_def enqueueJob_def checkGuards_def default_guards_def default_job_def
      new_component_def entry_or_def emplace_def isMultiStatement_def c_isspace_def Let_def)


text \<open>A world in which handle 1 leads to an open connection.\<close>

definition demo_linked :: "(nat, nat) world" where
  "demo_linked = demo_world\<lparr>wd_comp := put_conn 3 (Some \<lparr>cn_mysql = Some 0, cn_connected = True\<rparr>)
     (limited\<lparr>connections := [(1, 3)], workers := [(1, \<lparr>cw_conn = 3, cw_jobs = []\<rparr>)]\<rparr>)\<rparr>"

lemma demo_linked_lookup [simp]:
  "getConnection 1 (wd_comp demo_linked) = Some 3"
  "so_conns (heap (wd_comp demo_linked)) 3 = Some \<lparr>cn_mysql = Some 0, cn_connected = True\<rparr>"
  by (simp_all add: demo_linked_def getConnection_def put_conn_def)

lemma demo_escapes: "escapes_bytes (cl_escape countdown_client m)"
  unfolding escapes_bytes_def
proof
  fix s
  let ?unit = "\<lambda>c. if c \<in> {SQ, DQ, BSL} then [BSL, c] else [c]"
  have "list_all2 escape_unit s (map ?unit s)"
    by (simp add: list_all2_map2 list.rel_refl_strong escape_unit_def)
  moreover have "cl_escape countdown_client m s = concat (map ?unit s)" by (simp add: countdown_client_def)
  ultimately show "\<exists>us. cl_escape countdown_client m s = concat us \<and> list_all2 escape_unit s us" by blast
qed

section \<open>Version\<close>

definition kVersion :: string where
  "kVersion = ''1.1.0''"

definition kLatestVersion :: string where
  "kLatestVersion = ''1.1.0''"

definition updateAvailable :: bool where
  "updateAvailable \<longleftrightarrow> kVersion \<noteq> kLatestVersion"

definition mysql_version :: "string \<times> bool" where
  "mysql_version = (kVersion, True)"

definition mysql_latest_version :: "string \<times> bool" where
  "mysql_latest_version = (kLatestVersion, True)"

definition mysql_update_available :: bool where
  "mysql_update_available = updateAvailable"

end
