(* ===== verification/Format.thy ===== *)
theory Format
  imports Natives
begin

text \<open>
  The natives that build and take apart text: \<^verbatim>\<open>mysql_format\<close> with its escaping specifiers, and the vector
  conversions, all of \<^verbatim>\<open>src/natives.cpp\<close>.  How a number is printed with \<^verbatim>\<open>%f\<close> and \<^verbatim>\<open>%g\<close> is a parameter.
\<close>

section \<open>Writing a string into the script\<close>

definition WriteAmxString ::
    "native_env \<Rightarrow> nat \<Rightarrow> cell \<Rightarrow> string \<Rightarrow> int \<Rightarrow> (nat \<Rightarrow> cell) \<Rightarrow> nat \<Rightarrow> cell" where
  "WriteAmxString env amx dest s maxlen mem =
     (if maxlen \<le> 0 then mem
      else case sc_addr (ne_script env amx) dest of
        None \<Rightarrow> mem
      | Some a \<Rightarrow> am_set_string (ne_amx env) a (c_str s) (nat maxlen) mem)"

section \<open>\<^verbatim>\<open>mysql_format\<close>\<close>

text \<open>The text one specifier with a value puts out, \<open>None\<close> for an unknown one.\<close>

definition format_value ::
    "native_env \<Rightarrow> nat \<Rightarrow> (nat \<Rightarrow> cell) \<Rightarrow> (string \<Rightarrow> string) \<Rightarrow> char \<Rightarrow> cell \<Rightarrow> string option" where
  "format_value env amx mem esc spec p =
     (let sc = ne_script env amx in
      if spec = CHR ''d'' \<or> spec = CHR ''i'' then Some (show_int (int_ref sc mem p))
      else if spec = CHR ''f'' then Some (ne_ftext env (cell_ref sc mem p))
      else if spec = CHR ''s'' then Some (AmxStringParam sc mem p)
      else if spec = CHR ''e'' then Some (esc (AmxStringParam sc mem p))
      else if spec = CHR ''q'' then Some (ident (AmxStringParam sc mem p))
      else None)"

text \<open>The loop over the format, \<open>v\<close> being the index of the next value.\<close>

fun format_loop ::
    "native_env \<Rightarrow> nat \<Rightarrow> (nat \<Rightarrow> cell) \<Rightarrow> (string \<Rightarrow> string) \<Rightarrow> params \<Rightarrow> nat \<Rightarrow> string \<Rightarrow> string \<Rightarrow> string" where
  "format_loop env amx mem esc params v out [] = out"
| "format_loop env amx mem esc params v out [c] = (if c \<noteq> CHR ''%'' then out @ [c] else out)"
| "format_loop env amx mem esc params v out (c # spec # fmt) =
     (if c \<noteq> CHR ''%'' then format_loop env amx mem esc params v (out @ [c]) (spec # fmt)
      else if spec \<noteq> CHR ''%'' \<and> param_count params < v
        then format_loop env amx mem esc params v (out @ [CHR ''%'', spec]) fmt
      else if spec = CHR ''%'' then format_loop env amx mem esc params v (out @ [CHR ''%'']) fmt
      else case format_value env amx mem esc spec (params ! v) of
          Some t \<Rightarrow> format_loop env amx mem esc params (v + 1) (out @ t) fmt
        | None \<Rightarrow> format_loop env amx mem esc params v (out @ [CHR ''%'', spec]) fmt)"

text \<open>The escaping of the connection the handle leads to; without one, text passes unchanged.\<close>

definition escape_of :: "'m client \<Rightarrow> 'm Connection option \<Rightarrow> string \<Rightarrow> string" where
  "escape_of api conn s = (case conn of Some c \<Rightarrow> conn_escape api c s | None \<Rightarrow> s)"

definition n_mysql_format ::
    "native_env \<Rightarrow> 'm client \<Rightarrow> nat \<Rightarrow> params \<Rightarrow> ('m, 'st) world \<Rightarrow> (cell \<times> ('m, 'st) world) access" where
  "n_mysql_format env api amx params w =
     (if param_count params < 4 then Found (0, w)
      else let maxlen = sint (params ! 3); fmt = AmxStringParam (ne_script env amx) (wd_mem w) (params ! 4);
               run = (\<lambda>conn. let out = format_loop env amx (wd_mem w) (escape_of api conn) params 5 [] fmt in
                 Found (word_of_int (int (length out)),
                   w\<lparr>wd_mem := WriteAmxString env amx (params ! 2) out maxlen (wd_mem w)\<rparr>))
           in case getConnection (sint (params ! 1)) (wd_comp w) of
                None \<Rightarrow> run None
              | Some a \<Rightarrow> (case so_conns (heap (wd_comp w)) a of
                  None \<Rightarrow> Undefined_Behaviour
                | Some conn \<Rightarrow> run (Some conn)))"

section \<open>Vectors\<close>

text \<open>The loop over \<open>count\<close> values from cell \<open>a\<close>.\<close>

fun vector_loop :: "native_env \<Rightarrow> (nat \<Rightarrow> cell) \<Rightarrow> nat \<Rightarrow> nat \<Rightarrow> nat \<Rightarrow> string \<Rightarrow> string" where
  "vector_loop env mem a i 0 out = out"
| "vector_loop env mem a i (Suc n) out =
     vector_loop env mem a (i + 1) n ((if i > 0 then out @ '','' else out) @ ne_gtext env (mem (a + i)))"

definition n_mysql_vector_to_string ::
    "native_env \<Rightarrow> nat \<Rightarrow> params \<Rightarrow> ('m, 'st) world \<Rightarrow> cell \<times> ('m, 'st) world" where
  "n_mysql_vector_to_string env amx params w = (case sc_addr (ne_script env amx) (params ! 1) of
       None \<Rightarrow> (0, w)
     | Some a \<Rightarrow>
         (let out = vector_loop env (wd_mem w) a 0 (nat (sint (params ! 2))) ''['' @ '']'' in
          (word_of_int (int (length out)),
           w\<lparr>wd_mem := WriteAmxString env amx (params ! 3) out (sint (params ! 4)) (wd_mem w)\<rparr>)))"

definition blank :: "char \<Rightarrow> bool" where
  "blank c \<longleftrightarrow> c = SPC \<or> c = TAB"

text \<open>The lambda \<^verbatim>\<open>flush\<close>, on the trimmed text of one component.\<close>

definition flush :: "(string \<Rightarrow> cell) \<Rightarrow> string \<Rightarrow> cell list \<Rightarrow> cell list" where
  "flush atof num out = (let t = rev (dropWhile blank (rev (dropWhile blank num))) in
     if t = [] then out else out @ [atof (c_str t)])"

fun parse_loop :: "(string \<Rightarrow> cell) \<Rightarrow> string \<Rightarrow> cell list \<Rightarrow> string \<Rightarrow> string \<times> cell list" where
  "parse_loop atof num out [] = (num, out)"
| "parse_loop atof num out (ch # s) =
     (if ch = CHR '']'' then (num, out)
      else if ch = CHR '','' then parse_loop atof [] (flush atof num out) s
      else parse_loop atof (num @ [ch]) out s)"

definition ParseVectorString :: "(string \<Rightarrow> cell) \<Rightarrow> string \<Rightarrow> cell list" where
  "ParseVectorString atof src =
     (let (num, out) = parse_loop atof [] [] (tl (dropWhile (\<lambda>c. c \<noteq> CHR ''['') src)) in
      if num \<noteq> [] then flush atof num out else out)"

fun store_cells :: "nat \<Rightarrow> cell list \<Rightarrow> (nat \<Rightarrow> cell) \<Rightarrow> nat \<Rightarrow> cell" where
  "store_cells a [] mem = mem"
| "store_cells a (v # vs) mem = store_cells (a + 1) vs (mem(a := v))"

definition n_mysql_string_to_vector ::
    "native_env \<Rightarrow> (string \<Rightarrow> cell) \<Rightarrow> nat \<Rightarrow> params \<Rightarrow> ('m, 'st) world \<Rightarrow> cell \<times> ('m, 'st) world" where
  "n_mysql_string_to_vector env atof amx params w =
     (let sc = ne_script env amx; src = AmxStringParam sc (wd_mem w) (params ! 1)
      in case sc_addr sc (params ! 2) of
           None \<Rightarrow> (0, w)
         | Some a \<Rightarrow>
             (let vals = take (nat (sint (params ! 3))) (ParseVectorString atof src) in
              (word_of_int (int (length vals)), w\<lparr>wd_mem := store_cells a vals (wd_mem w)\<rparr>)))"

definition n_mysql_vector_dim ::
    "native_env \<Rightarrow> (string \<Rightarrow> cell) \<Rightarrow> nat \<Rightarrow> params \<Rightarrow> ('m, 'st) world \<Rightarrow> cell" where
  "n_mysql_vector_dim env atof amx params w =
     word_of_int (int (length (ParseVectorString atof (AmxStringParam (ne_script env amx) (wd_mem w) (params ! 1)))))"

section \<open>The loop, piece by piece\<close>

text \<open>
  A format as pieces of text, each before a specifier that takes a value and quotes it, and a tail; what the loop
  makes of it; and what remains when the values are left out.
\<close>

fun template :: "(string \<times> char) list \<Rightarrow> string \<Rightarrow> string" where
  "template [] tail = tail"
| "template ((t, spec) # ps) tail = t @ [CHR ''%'', spec] @ template ps tail"

fun filled :: "(char \<Rightarrow> cell \<Rightarrow> string) \<Rightarrow> (string \<times> char) list \<Rightarrow> cell list \<Rightarrow> string \<Rightarrow> string" where
  "filled val [] vs tail = tail"
| "filled val ((t, spec) # ps) vs tail = t @ val spec (hd vs) @ filled val ps (tl vs) tail"

text \<open>Every \<open>%e\<close> stands inside single quotes, every \<open>%q\<close> in code, and no piece ends in half a token.\<close>

fun quoted_right :: "lex_state \<Rightarrow> (string \<times> char) list \<Rightarrow> bool" where
  "quoted_right st [] = True"
| "quoted_right st ((t, spec) # ps) \<longleftrightarrow> CHR ''%'' \<notin> set t \<and> safe_end t \<and>
     (spec = CHR ''e'' \<and> lex_end st t = SQuote \<or> spec = CHR ''q'' \<and> lex_end st t = Normal) \<and>
     quoted_right (lex_end st t) ps"

definition quoting :: "native_env \<Rightarrow> nat \<Rightarrow> (nat \<Rightarrow> cell) \<Rightarrow> (string \<Rightarrow> string) \<Rightarrow> char \<Rightarrow> cell \<Rightarrow> string" where
  "quoting env amx mem esc spec p =
     (if spec = CHR ''e'' then esc (AmxStringParam (ne_script env amx) mem p)
      else ident (AmxStringParam (ne_script env amx) mem p))"

lemma format_loop_char:
  "CHR ''%'' \<noteq> c \<Longrightarrow>
    format_loop env amx mem esc params v out (c # fmt) = format_loop env amx mem esc params v (out @ [c]) fmt"
  by (cases fmt) auto

lemma format_loop_text:
  "CHR ''%'' \<notin> set t \<Longrightarrow>
    format_loop env amx mem esc params v out (t @ fmt) = format_loop env amx mem esc params v (out @ t) fmt"
  by (induction t arbitrary: out) (simp_all add: format_loop_char)

lemma format_loop_quoting:
  "spec = CHR ''e'' \<or> spec = CHR ''q'' \<Longrightarrow> v \<le> param_count params \<Longrightarrow>
    format_loop env amx mem esc params v out (CHR ''%'' # spec # fmt) =
    format_loop env amx mem esc params (v + 1) (out @ quoting env amx mem esc spec (params ! v)) fmt"
  by (auto simp: format_value_def quoting_def Let_def)

lemma format_loop_template:
  "quoted_right st ps \<Longrightarrow> CHR ''%'' \<notin> set tail \<Longrightarrow> v + length ps \<le> param_count params + 1 \<Longrightarrow>
   well_called params \<Longrightarrow>
    format_loop env amx mem esc params v out (template ps tail) =
    out @ filled (quoting env amx mem esc) ps (drop v params) tail"
proof (induction ps arbitrary: st v out)
  case Nil
  then show ?case using format_loop_text [of tail env amx mem esc params v out "[]"] by simp
next
  case (Cons p ps)
  obtain t spec where p: "p = (t, spec)" by (cases p)
  have v: "v \<le> param_count params" using Cons.prems(3) by simp
  then have d: "drop v params = params ! v # drop (v + 1) params"
    using Cons.prems(4) by (simp add: well_called_def Cons_nth_drop_Suc)
  from Cons.prems(1) p have q: "CHR ''%'' \<notin> set t" "spec = CHR ''e'' \<or> spec = CHR ''q''"
    "quoted_right (lex_end st t) ps" by auto
  show ?case
    using Cons.IH [OF q(3) Cons.prems(2) _ Cons.prems(4), of "v + 1"] Cons.prems(3)
    by (simp add: p format_loop_text [OF q(1)] format_loop_quoting [OF q(2) v] d del: format_loop.simps)
qed

text \<open>A quoted value is no code and does not move the lexer.\<close>

lemma escaped_inert:
  assumes "escapes_bytes esc"
  shows "code_chars SQuote (esc s @ r) = code_chars SQuote r" "lex_end SQuote (esc s @ r) = lex_end SQuote r"
  using escaped_lex [OF assms] by blast+

lemma filled_code:
  "quoted_right st ps \<Longrightarrow> escapes_bytes esc \<Longrightarrow>
    code_chars st (filled (quoting env amx mem esc) ps vs tail) = code_chars st (concat (map fst ps) @ tail)"
proof (induction ps arbitrary: st vs)
  case (Cons p ps)
  obtain t spec where p: "p = (t, spec)" by (cases p)
  from Cons.prems(1) p have q: "safe_end t" "quoted_right (lex_end st t) ps"
    "spec = CHR ''e'' \<and> lex_end st t = SQuote \<or> spec = CHR ''q'' \<and> lex_end st t = Normal" by auto
  note IH = Cons.IH [OF q(2) Cons.prems(2), of "tl vs"]
  from q(3) show ?case
    using IH by (auto simp: p code_chars_append [OF q(1)] quoting_def escaped_inert [OF Cons.prems(2)] ident_prefix)
qed simp

section \<open>Vectors there and back\<close>

text \<open>A number's text as \<^verbatim>\<open>%g\<close> gives it: not empty, without blanks, brackets, commas and terminators.\<close>

definition number_text :: "string \<Rightarrow> bool" where
  "number_text t \<longleftrightarrow> t \<noteq> [] \<and> (\<forall>c \<in> set t. \<not> blank c \<and> c \<notin> {CHR ''['', CHR '']'', CHR '','', NUL})"

lemma vector_loop_text:
  "vector_loop env mem a i n out =
    out @ concat (map (\<lambda>j. (if j > 0 then '','' else []) @ ne_gtext env (mem (a + j))) [i..<i + n])"
proof (induction n arbitrary: i out)
  case (Suc n)
  have "[i..<i + Suc n] = i # [i + 1..<i + 1 + n]" by (simp add: upt_conv_Cons del: upt_Suc)
  with Suc.IH [of "i + 1"] show ?case by (simp del: upt_Suc)
qed simp

lemma dropWhile_head: "t \<noteq> [] \<Longrightarrow> \<not> P (hd t) \<Longrightarrow> dropWhile P t = t"
  by (cases t) auto

lemma flush_number: "number_text t \<Longrightarrow> flush atof t out = out @ [atof t]"
proof -
  assume n: "number_text t"
  then have ends: "t \<noteq> []" "\<not> blank (hd t)" "\<not> blank (last t)" by (simp_all add: number_text_def)
  have "c_str t = t" using n by (auto simp: c_str_def takeWhile_eq_all_conv number_text_def)
  moreover from ends have "dropWhile blank t = t" "dropWhile blank (rev t) = rev t"
    by (simp_all add: dropWhile_head hd_rev)
  ultimately show ?thesis using ends by (simp add: flush_def)
qed

lemma parse_loop_number:
  "number_text t \<Longrightarrow> parse_loop atof num out (t @ s) = parse_loop atof (num @ t) out s"
proof -
  have "\<forall>c \<in> set t. c \<notin> {CHR '']'', CHR '',''} \<Longrightarrow> parse_loop atof num out (t @ s) = parse_loop atof (num @ t) out s" for t
    by (induction t arbitrary: num) auto
  then show "number_text t \<Longrightarrow> ?thesis" by (auto simp: number_text_def)
qed

lemma parse_loop_numbers:
  assumes "\<forall>t \<in> set ts. number_text t" and "number_text t0"
  shows "parse_loop atof t0 out (concat (map (\<lambda>t. '','' @ t) ts) @ '']'' @ rest) =
    (last (t0 # ts), out @ map atof (butlast (t0 # ts)))"
  using assms
proof (induction ts arbitrary: t0 out)
  case (Cons t ts)
  then show ?case
    using parse_loop_number [of t atof "[]" "flush atof t0 out" "concat (map (\<lambda>t. '','' @ t) ts) @ '']'' @ rest"]
    by (simp add: flush_number)
qed simp

lemma flush_last:
  assumes "ts \<noteq> []" and "\<forall>t \<in> set ts. number_text t"
  shows "flush atof (last ts) (map atof (butlast ts)) = map atof ts"
proof -
  have "map atof (butlast ts) @ [atof (last ts)] = map atof (butlast ts @ [last ts])" by simp
  also have "\<dots> = map atof ts" by (simp only: append_butlast_last_id [OF assms(1)])
  finally show ?thesis using assms by (simp add: flush_number)
qed

lemma parsed_numbers:
  assumes "ts \<noteq> []" and "\<forall>t \<in> set ts. number_text t"
  shows "(let (num, out) = (last ts, map atof (butlast ts)) in if num \<noteq> [] then flush atof num out else out) = map atof ts"
proof -
  have "last ts \<noteq> []" using assms by (auto simp: number_text_def)
  then show ?thesis using flush_last [OF assms] by simp
qed

section \<open>Properties\<close>


definition demo_format :: native_env where
  "demo_format = demo_native_env\<lparr>ne_script := (\<lambda>amx. \<lparr>sc_addr = (\<lambda>p. Some (unat p)),
     sc_text = (\<lambda>a mem. if a = 4 then template [(''SELECT '', CHR ''q''), ('' FROM t WHERE a = '' @ [SQ], CHR ''e'')] [SQ]
       else ''`x'' @ [SQ] @ ''; DROP TABLE t'')\<rparr>)\<rparr>"


text \<open>
  A vector survives the round trip through text: where \<^verbatim>\<open>atof\<close> reads back each number's text, what
  \<^verbatim>\<open>mysql_string_to_vector\<close> parses from the text \<^verbatim>\<open>mysql_vector_to_string\<close> writes is the vector, in order, whatever
  its length.
\<close>

theorem vector_text_roundtrip:
  assumes "\<And>i. i < n \<Longrightarrow> number_text (ne_gtext env (mem (a + i))) \<and> atof (ne_gtext env (mem (a + i))) = mem (a + i)"
  shows "ParseVectorString atof (vector_loop env mem a 0 n ''['' @ '']'') = map (\<lambda>i. mem (a + i)) [0..<n]"
proof (cases n)
  case 0
  then show ?thesis by (simp add: ParseVectorString_def)
next
  case (Suc k)
  let ?t = "\<lambda>i. ne_gtext env (mem (a + i))"
  let ?ts = "map ?t [1..<n]"
  have t: "\<forall>t \<in> set ?ts. number_text t" "number_text (?t 0)" using assms [of 0] assms Suc by auto
  have up: "[0..<n] = 0 # [1..<n]" using Suc by (simp add: upt_rec)
  have commas: "map (\<lambda>j. (if j > 0 then '','' else []) @ ?t j) [1..<n] = map (\<lambda>t. '','' @ t) ?ts" by simp
  have "vector_loop env mem a 0 n ''['' = ''['' @ ?t 0 @ concat (map (\<lambda>j. (if j > 0 then '','' else []) @ ?t j) [1..<n])"
    by (simp only: vector_loop_text add_0 up list.map concat.simps) simp
  then have whole: "vector_loop env mem a 0 n ''['' @ '']'' =
      ''['' @ ?t 0 @ concat (map (\<lambda>t. '','' @ t) ?ts) @ '']''"
    unfolding commas by (simp add: comp_def)
  have "ParseVectorString atof (vector_loop env mem a 0 n ''['' @ '']'') =
      (let (num, out) = (last (?t 0 # ?ts), map atof (butlast (?t 0 # ?ts))) in if num \<noteq> [] then flush atof num out else out)"
    using parse_loop_number [OF t(2), of atof "[]" "[]"] parse_loop_numbers [OF t, of atof "[]" "[]"]
    by (simp add: ParseVectorString_def whole)
  also have "\<dots> = map atof (?t 0 # ?ts)"
    by (rule parsed_numbers) (use t in simp_all)
  also have "\<dots> = map (\<lambda>i. mem (a + i)) [0..<n]"
    unfolding up using assms [of 0] assms Suc by (simp del: upt_Suc)
  finally show ?thesis .
qed

theorem vector_text_roundtrip_witness:
  "ParseVectorString (\<lambda>s. if s = ''0.5'' then 5 else 7)
     (vector_loop (demo_native_env\<lparr>ne_gtext := (\<lambda>c. if c = 5 then ''0.5'' else ''-1e+09'')\<rparr>) (\<lambda>a. if a = 9 then 5 else 7) 8 0 3
        ''['' @ '']'') = [7, 5, 7]"
proof -
  have "number_text ''0.5''" "number_text ''-1e+09''" by (simp_all add: number_text_def blank_def)
  then show ?thesis
    by (subst vector_text_roundtrip) (auto simp: upt_conv_Cons)
qed

end
