(* ===== verification/ModelNatives.thy ===== *)
theory ModelNatives
  imports Natives
begin

text \<open>
  The active-record natives of \<^verbatim>\<open>src/natives.cpp\<close>: creating and binding a model, and \<^verbatim>\<open>ModelExecute\<close>, which renders
  the bound variables as SQL literals, builds the statement and enqueues it.
\<close>

section \<open>Literals\<close>

definition model_text :: "script \<Rightarrow> nat \<Rightarrow> (nat \<Rightarrow> cell) \<Rightarrow> string" where
  "model_text sc a mem = sc_text sc a mem"

definition ModelFieldLiteral ::
    "native_env \<Rightarrow> script \<Rightarrow> 'm client \<Rightarrow> 'm Connection option \<Rightarrow> (nat \<Rightarrow> cell) \<Rightarrow> ModelField \<Rightarrow> string" where
  "ModelFieldLiteral env sc api conn mem f = (case mf_addr f of
       None \<Rightarrow> ''NULL''
     | Some a \<Rightarrow> (case mf_type f of
         MInt \<Rightarrow> show_int (sint (mem a))
       | MFloat \<Rightarrow> ne_ftext env (mem a)
       | MString \<Rightarrow> (let s = model_text sc a mem in
           [SQ] @ (case conn of Some c \<Rightarrow> conn_escape api c s | None \<Rightarrow> s) @ [SQ])))"

section \<open>Creating and binding\<close>

definition mysql_model_create :: "string \<Rightarrow> int \<Rightarrow> ('m, 'st) component \<Rightarrow> int \<times> ('m, 'st) component" where
  "mysql_model_create table handle c =
     (if table = [] \<or> getConnection handle c = None then (0, c) else addModel (Some (new_Model handle table)) c)"

definition mysql_model_destroy :: "int \<Rightarrow> ('m, 'st) component \<Rightarrow> bool \<times> ('m, 'st) component" where
  "mysql_model_destroy model c = removeModel model c"

definition error_number :: "ModelError \<Rightarrow> int" where
  "error_number e = (case e of Ok \<Rightarrow> 0 | NoData \<Rightarrow> 1 | Invalid \<Rightarrow> 2)"

definition mysql_model_errno :: "int \<Rightarrow> ('m, 'st) component \<Rightarrow> int" where
  "mysql_model_errno model c = (case getModel model c of
       Some m \<Rightarrow> error_number (md_lastError m) | None \<Rightarrow> error_number Invalid)"

text \<open>The shape of the binding natives: change the model a handle leads to.\<close>

definition on_model ::
    "int \<Rightarrow> bool \<Rightarrow> (Model \<Rightarrow> bool \<times> Model) \<Rightarrow> ('m, 'st) component \<Rightarrow> bool \<times> ('m, 'st) component" where
  "on_model model refuse f c = (case getModel model c of
       None \<Rightarrow> (False, c)
     | Some m \<Rightarrow> if refuse then (False, c)
         else (let (r, m') = f m in (r, c\<lparr>models := assign model m' (models c)\<rparr>)))"

definition mysql_model_bind_int :: "int \<Rightarrow> nat \<Rightarrow> string \<Rightarrow> ('m, 'st) component \<Rightarrow> bool \<times> ('m, 'st) component" where
  "mysql_model_bind_int model variable column c =
     on_model model (column = []) (\<lambda>m. (True, model_bindInt column (Some variable) m)) c"

definition mysql_model_bind_float :: "int \<Rightarrow> nat \<Rightarrow> string \<Rightarrow> ('m, 'st) component \<Rightarrow> bool \<times> ('m, 'st) component" where
  "mysql_model_bind_float model variable column c =
     on_model model (column = []) (\<lambda>m. (True, model_bindFloat column (Some variable) m)) c"

definition mysql_model_bind_string ::
    "int \<Rightarrow> nat \<Rightarrow> int \<Rightarrow> string \<Rightarrow> ('m, 'st) component \<Rightarrow> bool \<times> ('m, 'st) component" where
  "mysql_model_bind_string model variable variable_maxlen column c =
     on_model model (column = [] \<or> variable_maxlen \<le> 0)
       (\<lambda>m. (True, model_bindString column (Some variable) variable_maxlen m)) c"

definition mysql_model_unbind :: "int \<Rightarrow> string \<Rightarrow> ('m, 'st) component \<Rightarrow> bool \<times> ('m, 'st) component" where
  "mysql_model_unbind model column c = on_model model False (unbind column) c"

definition mysql_model_clear :: "int \<Rightarrow> ('m, 'st) component \<Rightarrow> bool \<times> ('m, 'st) component" where
  "mysql_model_clear model c = on_model model False (\<lambda>m. (True, clear_fields m)) c"

definition mysql_model_set_key :: "int \<Rightarrow> string \<Rightarrow> ('m, 'st) component \<Rightarrow> bool \<times> ('m, 'st) component" where
  "mysql_model_set_key model column c = on_model model (column = []) (\<lambda>m. (True, setKey column m)) c"

section \<open>Executing\<close>

definition model_error :: "int \<Rightarrow> Model \<Rightarrow> ModelError \<Rightarrow> ('m, 'st) world \<Rightarrow> ('m, 'st) world" where
  "model_error h m e w = w\<lparr>wd_comp := (wd_comp w)\<lparr>models := assign h (setError e m) (models (wd_comp w))\<rparr>\<rparr>"

text \<open>The statement of an operation, from the literals of the fields and of the key.\<close>

definition model_sql :: "int \<Rightarrow> (ModelField \<Rightarrow> string) \<Rightarrow> Model \<Rightarrow> string" where
  "model_sql op lit m =
     (let vals = map lit (md_fields m);
          keyLit = (case keyField m of None \<Rightarrow> ''NULL'' | Some kf \<Rightarrow> lit kf)
      in if op = MODEL_OP_FIND then buildFind keyLit m
         else if op = MODEL_OP_INSERT then buildInsert vals m
         else if op = MODEL_OP_UPDATE then buildUpdate vals keyLit m
         else if op = MODEL_OP_DELETE then buildDelete keyLit m
         else [])"

definition model_job :: "script \<Rightarrow> (nat \<Rightarrow> cell) \<Rightarrow> params \<Rightarrow> int \<Rightarrow> int \<Rightarrow> string \<Rightarrow> Model \<Rightarrow> QueryJob" where
  "model_job sc mem params modelHandle op sql m = default_job\<lparr>qj_connectionHandle := md_connectionHandle m,
     qj_sql := sql, qj_modelHandle := modelHandle, qj_modelOp := op,
     qj_callback := (if 2 \<le> param_count params then AmxStringParam sc mem (params ! 2) else []),
     qj_args := (if 3 \<le> param_count params
       then DecodeFormat sc mem params 4 (AmxStringParam sc mem (params ! 3)) else [])\<rparr>"

definition ModelExecute ::
    "native_env \<Rightarrow> 'm client \<Rightarrow> nat \<Rightarrow> int \<Rightarrow> int \<Rightarrow> params \<Rightarrow> int \<Rightarrow> ('m, 'st) world \<Rightarrow> (cell \<times> ('m, 'st) world) access" where
  "ModelExecute env api amx now pend params op w =
     (if param_count params < 1 then Found (0, w)
      else let modelHandle = sint (params ! 1); sc = ne_script env amx in
        case getModel modelHandle (wd_comp w) of
          None \<Rightarrow> Found (0, w)
        | Some m \<Rightarrow> (case getConnection (md_connectionHandle m) (wd_comp w) of
            None \<Rightarrow> Found (0, model_error modelHandle m Invalid w)
          | Some a \<Rightarrow> (case so_conns (heap (wd_comp w)) a of
              None \<Rightarrow> Undefined_Behaviour
            | Some conn \<Rightarrow>
                (let sql = model_sql op (ModelFieldLiteral env sc api (Some conn) (wd_mem w)) m in
                 if sql = [] then Found (0, model_error modelHandle m Invalid w)
                 else let (r, w') = host_enqueue now pend (model_job sc (wd_mem w) params modelHandle op sql m) w
                   in Found (if r = NoReject then 1 else 0, w')))))"

definition n_mysql_model_find ::
    "native_env \<Rightarrow> 'm client \<Rightarrow> nat \<Rightarrow> int \<Rightarrow> int \<Rightarrow> params \<Rightarrow> ('m, 'st) world \<Rightarrow> (cell \<times> ('m, 'st) world) access" where
  "n_mysql_model_find env api amx now pend params w = ModelExecute env api amx now pend params MODEL_OP_FIND w"

definition n_mysql_model_insert ::
    "native_env \<Rightarrow> 'm client \<Rightarrow> nat \<Rightarrow> int \<Rightarrow> int \<Rightarrow> params \<Rightarrow> ('m, 'st) world \<Rightarrow> (cell \<times> ('m, 'st) world) access" where
  "n_mysql_model_insert env api amx now pend params w = ModelExecute env api amx now pend params MODEL_OP_INSERT w"

definition n_mysql_model_update ::
    "native_env \<Rightarrow> 'm client \<Rightarrow> nat \<Rightarrow> int \<Rightarrow> int \<Rightarrow> params \<Rightarrow> ('m, 'st) world \<Rightarrow> (cell \<times> ('m, 'st) world) access" where
  "n_mysql_model_update env api amx now pend params w = ModelExecute env api amx now pend params MODEL_OP_UPDATE w"

definition n_mysql_model_delete ::
    "native_env \<Rightarrow> 'm client \<Rightarrow> nat \<Rightarrow> int \<Rightarrow> int \<Rightarrow> params \<Rightarrow> ('m, 'st) world \<Rightarrow> (cell \<times> ('m, 'st) world) access" where
  "n_mysql_model_delete env api amx now pend params w = ModelExecute env api amx now pend params MODEL_OP_DELETE w"

text \<open>Whether the bound key has a value: a text that is not empty, a number that is not zero.\<close>

definition key_set :: "script \<Rightarrow> (nat \<Rightarrow> cell) \<Rightarrow> Model \<Rightarrow> bool" where
  "key_set sc mem m = (case keyField m of
       None \<Rightarrow> False
     | Some kf \<Rightarrow> (case mf_addr kf of
         None \<Rightarrow> False
       | Some a \<Rightarrow> if mf_type kf = MString then model_text sc a mem \<noteq> [] else mem a \<noteq> 0))"

definition n_mysql_model_save ::
    "native_env \<Rightarrow> 'm client \<Rightarrow> nat \<Rightarrow> int \<Rightarrow> int \<Rightarrow> params \<Rightarrow> ('m, 'st) world \<Rightarrow> (cell \<times> ('m, 'st) world) access" where
  "n_mysql_model_save env api amx now pend params w =
     (if param_count params < 1 then Found (0, w)
      else case getModel (sint (params ! 1)) (wd_comp w) of
        None \<Rightarrow> Found (0, w)
      | Some m \<Rightarrow> ModelExecute env api amx now pend params
          (if key_set (ne_script env amx) (wd_mem w) m then MODEL_OP_UPDATE else MODEL_OP_INSERT) w)"

section \<open>Every statement is one\<close>

lemma literal_fragment:
  assumes "escapes_bytes (conn_escape api conn)" and "\<And>v. fragment (ne_ftext env v)"
  shows "fragment (ModelFieldLiteral env sc api (Some conn) mem f)"
proof -
  have null: "fragment ''NULL''" by (rule fragment_plain) (simp add: plain_def)
  show ?thesis
    using fragment_quoted [OF assms(1)] assms(2) null
    by (auto simp: ModelFieldLiteral_def fragment_show_int Let_def split: option.split mtype.split)
qed

lemma model_sql_fragment:
  assumes "\<And>f. fragment (lit f)"
  shows "fragment (model_sql op lit m)"
proof -
  have "fragment ''NULL''" by (rule fragment_plain) (simp add: plain_def)
  with assms have "fragment (case keyField m of None \<Rightarrow> ''NULL'' | Some kf \<Rightarrow> lit kf)"
    by (simp split: option.split)
  moreover have "\<forall>v \<in> set (map lit (md_fields m)). fragment v" using assms by simp
  ultimately show ?thesis
    by (simp only: model_sql_def Let_def buildFind_fragment buildInsert_fragment buildUpdate_fragment
        buildDelete_fragment fragment_Nil if_True if_False split: if_split) blast
qed

lemma checkGuards_multi:
  "checkGuards now pend job c = (MultiStatement, c') \<Longrightarrow> isMultiStatement (qj_sql job)"
  by (auto simp: checkGuards_def Let_def split: if_splits)

lemma enqueueJob_multi:
  "enqueueJob now pend job c = (MultiStatement, c') \<Longrightarrow> isMultiStatement (qj_sql job)"
  by (auto simp: enqueueJob_def Let_def split: option.splits prod.splits if_splits dest: checkGuards_multi)

section \<open>Properties\<close>

text \<open>
  C17: an operation on a model of a live connection either fails, and then leaves \<open>Invalid\<close> in the model and enqueues
  nothing, because no statement can be built; or it submits one job, on the model's connection, that carries the
  statement, the operation and the model's handle, and answers 1 exactly when the job is queued.  Whatever the names
  and the values of the bound variables are, the statement is one: the guard never rejects it as several.
\<close>

theorem model_execute_one_statement:
  fixes env :: native_env and api :: "'m client" and w :: "('m, 'st) world" and params :: params and m :: Model
    and conn :: "'m Connection" and op :: int and amx :: nat
  assumes "1 \<le> param_count params"
    and "getModel (sint (params ! 1)) (wd_comp w) = Some m"
    and "getConnection (md_connectionHandle m) (wd_comp w) = Some a"
    and "so_conns (heap (wd_comp w)) a = Some conn" and "cn_mysql conn = Some s" and "escapes_bytes (cl_escape api s)"
    and "\<And>v. fragment (ne_ftext env v)"
  defines "sql \<equiv> model_sql op (ModelFieldLiteral env (ne_script env amx) api (Some conn) (wd_mem w)) m"
  shows "if sql = []
    then ModelExecute env api amx now pend params op w =
      Found (0, w\<lparr>wd_comp := (wd_comp w)\<lparr>models := assign (sint (params ! 1)) (m\<lparr>md_lastError := Invalid\<rparr>) (models (wd_comp w))\<rparr>\<rparr>)
    else \<exists>job r c'. enqueueJob now pend job (wd_comp w) = (r, c') \<and>
      qj_connectionHandle job = md_connectionHandle m \<and> qj_sql job = sql \<and> qj_modelHandle job = sint (params ! 1) \<and>
      qj_modelOp job = op \<and> r \<noteq> MultiStatement \<and>
      ModelExecute env api amx now pend params op w = Found (if r = NoReject then 1 else 0,
        w\<lparr>wd_comp := c', wd_log := guard_warning job r (wd_comp w) (wd_log w)\<rparr>)"
proof -
  have "conn_escape api conn = cl_escape api s" using assms(5) by (simp add: conn_escape_def fun_eq_iff)
  with assms(6) have "fragment sql"
    unfolding sql_def by (intro model_sql_fragment literal_fragment) (simp_all add: assms(7))
  then have single: "\<not> isMultiStatement sql" by (rule fragment_single)
  let ?job = "model_job (ne_script env amx) (wd_mem w) params (sint (params ! 1)) op sql m"
  obtain r c' where e: "enqueueJob now pend ?job (wd_comp w) = (r, c')"
    by (cases "enqueueJob now pend ?job (wd_comp w)")
  have r: "r \<noteq> MultiStatement" using enqueueJob_multi [of now pend ?job] e single by (auto simp: model_job_def)
  have "ModelExecute env api amx now pend params op w =
      (if sql = [] then Found (0, model_error (sint (params ! 1)) m Invalid w)
       else Found (if r = NoReject then 1 else 0, w\<lparr>wd_comp := c', wd_log := guard_warning ?job r (wd_comp w) (wd_log w)\<rparr>))"
    using assms(1-4) e by (simp add: ModelExecute_def host_enqueue_def sql_def [symmetric] Let_def)
  moreover have "qj_connectionHandle ?job = md_connectionHandle m" "qj_sql ?job = sql"
    "qj_modelHandle ?job = sint (params ! 1)" "qj_modelOp ?job = op" by (simp_all add: model_job_def)
  ultimately show ?thesis
    using e r by (cases "sql = []") (simp add: model_error_def setError_def, metis)
qed

definition demo_modelled :: "(nat, nat) world" where
  "demo_modelled = demo_linked\<lparr>wd_comp := (wd_comp demo_linked)\<lparr>models := [(1, sample_model)]\<rparr>\<rparr>"

theorem model_execute_one_statement_witness:
  "\<exists>r w. ModelExecute demo_native_env countdown_client 0 0 0 [4, 1] MODEL_OP_DELETE demo_modelled = Found (r, w) \<and>
     (\<exists>job r' c'. enqueueJob 0 0 job (wd_comp demo_modelled) = (r', c') \<and> qj_sql job \<noteq> [] \<and> r' \<noteq> MultiStatement \<and>
        wd_comp w = c')"
proof -
  have m: "getModel 1 (wd_comp demo_modelled) = Some sample_model" "md_connectionHandle sample_model = 1"
    by (simp_all add: demo_modelled_def getModel_def sample_model_def new_Model_def setKey_def model_bindString_def
        model_bindInt_def upsertField_def)
  have c: "getConnection 1 (wd_comp demo_modelled) = Some 3"
    "so_conns (heap (wd_comp demo_modelled)) 3 = Some \<lparr>cn_mysql = Some 0, cn_connected = True\<rparr>"
    using demo_linked_lookup by (simp_all add: demo_modelled_def getConnection_def)
  have f: "fragment (ne_ftext demo_native_env v)" for v
    by (simp add: demo_native_env_def fragment_plain plain_def)
  have k: "md_key sample_model \<noteq> []" by (simp add: sample_model_def setKey_def)
  have n: "model_sql MODEL_OP_DELETE lit sample_model \<noteq> []" for lit
    using k by (simp add: model_sql_def MODEL_OP_DELETE_def MODEL_OP_FIND_def MODEL_OP_INSERT_def MODEL_OP_UPDATE_def
        buildDelete_def)
  have facts: "1 \<le> param_count [4, 1]" "getModel (sint ([4, 1 :: cell] ! 1)) (wd_comp demo_modelled) = Some sample_model"
    "getConnection (md_connectionHandle sample_model) (wd_comp demo_modelled) = Some 3"
    by (simp_all add: param_count_def m c)
  from model_execute_one_statement [OF facts c(2) _ demo_escapes f, of 0 MODEL_OP_DELETE 0 0 0, unfolded if_not_P [OF n]]
  obtain job r c' where "enqueueJob 0 0 job (wd_comp demo_modelled) = (r, c')" "qj_sql job \<noteq> []" "r \<noteq> MultiStatement"
    "ModelExecute demo_native_env countdown_client 0 0 0 [4, 1] MODEL_OP_DELETE demo_modelled =
      Found (if r = NoReject then 1 else 0,
        demo_modelled\<lparr>wd_comp := c', wd_log := guard_warning job r (wd_comp demo_modelled) (wd_log demo_modelled)\<rparr>)"
    using n by auto
  then show ?thesis by auto
qed

end
