(* ===== verification/Host.thy ===== *)
theory Host
  imports Rectangular Natives Format ModelNatives
begin

text \<open>
  The whole host: every native and every tick is a sequence of the component's steps (\<open>Lifetime.comp_step\<close>), so what
  holds after every history of steps holds after every history of native calls, ticks and worker progress.
\<close>

declare map_of_eq_Some_iff [simp del] Some_eq_map_of_iff [simp del]

section \<open>Following pointers\<close>

lemma on_conn_safe: "life c \<Longrightarrow> on_conn h d f c \<noteq> Undefined_Behaviour"
  using life_conn [of c h] by (auto simp: on_conn_def getConnection_def split_beta split: option.split)

lemma on_stmt_safe: "life c \<Longrightarrow> on_stmt h i bind c = Undefined_Behaviour \<Longrightarrow> i = - (2 ^ 31)"
  using life_registered [of c h] by (auto simp: on_stmt_def getStatement_def conn_of_def split: option.splits if_splits)

lemma stmt_execute_safe: "life (wd_comp w) \<Longrightarrow> n_mysql_stmt_execute env exec amx now pend params w \<noteq> Undefined_Behaviour"
  using life_registered [of "wd_comp w" "sint (params ! 1)"]
  by (auto simp: n_mysql_stmt_execute_def getStatement_def conn_of_def Let_def split_beta split: option.split)

lemma format_safe: "life (wd_comp w) \<Longrightarrow> n_mysql_format env api amx params w \<noteq> Undefined_Behaviour"
  using life_conn [of "wd_comp w" "sint (params ! 1)"]
  by (auto simp: n_mysql_format_def getConnection_def Let_def split: option.split)

lemma ModelExecute_safe: "life (wd_comp w) \<Longrightarrow> ModelExecute env api amx now pend params op w \<noteq> Undefined_Behaviour"
  by (auto simp: ModelExecute_def getConnection_def Let_def split_beta dest: life_conn split: option.split)

lemma close_safe:
  "small_counts sapi \<Longrightarrow> life c \<Longrightarrow> removeConnection api sapi elapsed h c \<noteq> Some Undefined_Behaviour"
  using removeConnection_life [of sapi c api elapsed h] by auto

lemma sync_safe:
  assumes "small_counts sapi" and "life (wd_comp w)"
  shows "RunSyncQuery env exec api sapi elapsed now pend h s cache w \<noteq> Some Undefined_Behaviour"
proof -
  let ?job = "default_job\<lparr>qj_connectionHandle := h, qj_sql := s, qj_useCache := cache\<rparr>"
  have "job_safe (wd_comp w) ?job" by (simp add: job_safe_def default_job_def)
  note safe = runJobSync_life [OF assms this, of api elapsed now pend]
  show ?thesis
  proof (cases "runJobSync api sapi elapsed now pend ?job (wd_comp w)")
    case None
    then show ?thesis by (simp add: RunSyncQuery_def Let_def)
  next
    case (Some r)
    with safe obtain p reason c' where "r = Found (p, reason, c')" by blast
    with Some show ?thesis by (cases p) (auto simp: RunSyncQuery_def Let_def split_beta)
  qed
qed

section \<open>Natives as steps\<close>

definition steps :: "'m client \<Rightarrow> ('m, 'st) stmt_client \<Rightarrow> ('m, 'st) component \<Rightarrow> ('m, 'st) component \<Rightarrow> bool" where
  "steps api sapi = (comp_step api sapi)\<^sup>*\<^sup>*"

lemma steps_refl [simp, intro]: "steps api sapi c c"
  by (simp add: steps_def)

lemma steps_one: "comp_step api sapi c c' \<Longrightarrow> steps api sapi c c'"
  unfolding steps_def by (rule r_into_rtranclp)

lemma steps_trans [trans]: "steps api sapi a b \<Longrightarrow> steps api sapi b c \<Longrightarrow> steps api sapi a c"
  unfolding steps_def by (rule rtranclp_trans)

lemma steps_reach: "steps api sapi c c' \<Longrightarrow> comp_reach api sapi c \<Longrightarrow> comp_reach api sapi c'"
  unfolding steps_def by (induction rule: rtranclp_induct) (auto intro: comp_reach.step)

text \<open>A script works on the component through natives only, whatever it does with its memory and its players.\<close>

definition script_acts ::
    "'m client \<Rightarrow> ('m, 'st) stmt_client \<Rightarrow> ('m, 'st) script_exec \<Rightarrow> bool" where
  "script_acts api sapi exec \<longleftrightarrow> (\<forall>amx idx params w. steps api sapi (wd_comp w) (wd_comp (exec amx idx params w)))"

lemma internal_step: "same_life c c' \<Longrightarrow> same_results c c' \<Longrightarrow> hashes_grow c c' \<Longrightarrow> steps api sapi c c'"
  by (rule steps_one) (rule comp_step.internal)

lemma fire_steps: "script_acts api sapi exec \<Longrightarrow> steps api sapi (wd_comp w) (wd_comp (fst (fire env exec amx name pushes w)))"
  by (simp add: fire_def script_acts_def split: option.split)

lemma hook_steps:
  "script_acts api sapi exec \<Longrightarrow>
     steps api sapi (wd_comp w) (wd_comp (fst (fireQueryExecuteHook env exec h sql t w)))"
  by (simp add: fireQueryExecuteHook_def fire_steps split: option.split)

lemma set_model_error_quiet: "same_life c (set_model_error h e c)" "same_results c (set_model_error h e c)"
  "hashes_grow c (set_model_error h e c)"
  by (simp_all add: set_model_error_def same_life_def same_results_def hashes_grow_def same_hashing_def split: option.split)

lemma applyModelResult_steps: "steps api sapi (wd_comp w) (wd_comp (applyModelResult env job w))"
  using set_model_error_quiet
  by (auto simp: applyModelResult_def Let_def intro!: internal_step split: option.split list.split)

lemma dispatchJob_steps:
  assumes ex: "script_acts api sapi exec" and ok: "job_ok job"
  shows "steps api sapi (wd_comp w) (wd_comp (fst (dispatchJob env exec job w)))"
proof -
  obtain w1 hook where h: "(case qj_result job of
       Some r \<Rightarrow> if qj_succeeded job
         then fireQueryExecuteHook env exec (qj_connectionHandle job) (qj_sql job) (qr_execTimeMicros r) w else (w, [])
     | None \<Rightarrow> (w, [])) = (w1, hook)" (is "?h = _")
    by (cases ?h)
  have "steps api sapi (wd_comp w) (wd_comp (fst ?h))"
    by (simp add: hook_steps [OF ex] split: option.split)
  then have w1: "steps api sapi (wd_comp w) (wd_comp w1)" by (simp only: h fst_conv)
  obtain w2 where m: "(if 0 < qj_modelHandle job then applyModelResult env job w1 else w1) = w2" by blast
  have "steps api sapi (wd_comp w1) (wd_comp w2)"
    unfolding m [symmetric] by (simp add: applyModelResult_steps)
  with w1 have w2: "steps api sapi (wd_comp w) (wd_comp w2)" by (rule steps_trans)
  obtain w3 calls where e: "fire_error env exec job w2 = (w3, calls)" by (cases "fire_error env exec job w2")
  have "steps api sapi (wd_comp w2) (wd_comp (fst (fire_error env exec job w2)))"
    by (simp add: fire_error_def fire_steps [OF ex] split: option.split)
  with w2 have err: "steps api sapi (wd_comp w) (wd_comp w3)" unfolding e fst_conv by (rule steps_trans)
  obtain wa where a: "(case qj_result job of Some r \<Rightarrow> w2\<lparr>wd_comp := setActiveCache (Some r) 0 (wd_comp w2)\<rparr>
      | None \<Rightarrow> w2) = wa" by blast
  have "steps api sapi (wd_comp w2) (wd_comp wa)"
    unfolding a [symmetric] using ok by (auto simp: job_ok_def intro: steps_one comp_step.activate split: option.split)
  with w2 have wa: "steps api sapi (wd_comp w) (wd_comp wa)" by (rule steps_trans)
  have call: "steps api sapi (wd_comp w) (clearActiveCache (wd_comp (exec amx idx params wa)))" for amx idx params
  proof -
    have "steps api sapi (wd_comp wa) (wd_comp (exec amx idx params wa))" using ex by (simp add: script_acts_def)
    with wa have "steps api sapi (wd_comp w) (wd_comp (exec amx idx params wa))" by (rule steps_trans)
    with steps_one [OF comp_step.deactivate] show ?thesis by (rule steps_trans [rotated])
  qed
  show ?thesis
    unfolding dispatchJob_def h m e a Let_def prod.case using w2 err call by (simp split: option.split)
qed

lemma dispatchHash_steps:
  "script_acts api sapi exec \<Longrightarrow> steps api sapi (wd_comp w) (wd_comp (fst (dispatchHash env exec job w)))"
  by (simp add: dispatchHash_def fire_steps split: option.split)

lemma dispatch_jobs_steps:
  "script_acts api sapi exec \<Longrightarrow> \<forall>job \<in> set js. job_ok job \<Longrightarrow>
     steps api sapi (wd_comp w) (wd_comp (fst (dispatch_jobs env exec js w)))"
proof (induction js arbitrary: w)
  case (Cons j js)
  have "steps api sapi (wd_comp w) (wd_comp (fst (dispatchJob env exec j w)))"
    using Cons.prems by (simp add: dispatchJob_steps)
  also have "steps api sapi \<dots> (wd_comp (fst (dispatch_jobs env exec js (fst (dispatchJob env exec j w)))))"
    using Cons by simp
  finally show ?case by (simp add: split_beta)
qed simp

lemma dispatch_hashes_steps:
  "script_acts api sapi exec \<Longrightarrow> steps api sapi (wd_comp w) (wd_comp (fst (dispatch_hashes env exec js w)))"
proof (induction js arbitrary: w)
  case (Cons j js)
  have "steps api sapi (wd_comp w) (wd_comp (fst (dispatchHash env exec j w)))"
    using Cons.prems by (rule dispatchHash_steps)
  also have "steps api sapi \<dots> (wd_comp (fst (dispatch_hashes env exec js (fst (dispatchHash env exec j w)))))"
    using Cons by simp
  finally show ?case by (simp add: split_beta)
qed simp

text \<open>
  A tick takes the completed jobs, dispatches them, takes the hashes, and dispatches those; nothing it dispatches takes any.
\<close>

definition taken :: "('m, 'st) component \<Rightarrow> ('m, 'st) component" where
  "taken c = c\<lparr>engine := snd (drainCompleted (engine c))\<rparr>"

definition hashes_taken :: "('m, 'st) component \<Rightarrow> ('m, 'st) component" where
  "hashes_taken c = c\<lparr>engine := snd (drainHashes (engine c))\<rparr>"

lemma onTick_split:
  "onTick env exec w =
     (let (w1, c1) = dispatch_jobs env exec (completed (engine (wd_comp w))) (w\<lparr>wd_comp := taken (wd_comp w)\<rparr>);
          (w2, c2) = dispatch_hashes env exec (hashOutput (engine (wd_comp w1))) (w1\<lparr>wd_comp := hashes_taken (wd_comp w1)\<rparr>)
      in (w2, c1 @ c2))"
  by (simp add: onTick_def drainCompleted_def drainHashes_def taken_def hashes_taken_def split_beta)

lemma onTick_steps:
  assumes ex: "script_acts api sapi exec" and ok: "results_ok (wd_comp w)" and t: "onTick env exec w = (w', calls)"
  shows "\<exists>w1 calls1 calls2.
    dispatch_jobs env exec (completed (engine (wd_comp w))) (w\<lparr>wd_comp := taken (wd_comp w)\<rparr>) = (w1, calls1) \<and>
    dispatch_hashes env exec (hashOutput (engine (wd_comp w1))) (w1\<lparr>wd_comp := hashes_taken (wd_comp w1)\<rparr>) = (w', calls2) \<and>
    steps api sapi (taken (wd_comp w)) (wd_comp w1) \<and> steps api sapi (hashes_taken (wd_comp w1)) (wd_comp w')"
proof -
  let ?w0 = "w\<lparr>wd_comp := taken (wd_comp w)\<rparr>" and ?js = "completed (engine (wd_comp w))"
  have js: "\<forall>job \<in> set ?js. job_ok job" using ok by (simp add: results_ok_def)
  obtain w1 c1 where j: "dispatch_jobs env exec ?js ?w0 = (w1, c1)" by (cases "dispatch_jobs env exec ?js ?w0")
  let ?w1 = "w1\<lparr>wd_comp := hashes_taken (wd_comp w1)\<rparr>" and ?hs = "hashOutput (engine (wd_comp w1))"
  obtain w2 c2 where h: "dispatch_hashes env exec ?hs ?w1 = (w2, c2)" by (cases "dispatch_hashes env exec ?hs ?w1")
  have "steps api sapi (taken (wd_comp w)) (wd_comp w1)" using dispatch_jobs_steps [OF ex js, of ?w0 env] j by simp
  moreover have "steps api sapi (hashes_taken (wd_comp w1)) (wd_comp w2)"
    using dispatch_hashes_steps [OF ex, of ?w1 env ?hs] h by simp
  moreover have "w' = w2" using t j h by (simp add: onTick_split)
  ultimately show ?thesis using j h by blast
qed

subsection \<open>Queries\<close>

lemma query_job_safe: "job_safe c (query_job sc mem params sql) \<and> job_fresh (query_job sc mem params sql)"
  by (simp add: query_job_def job_safe_def job_fresh_def default_job_def)

lemma bind_player_safe: "job_safe c job \<and> job_fresh job \<Longrightarrow> job_safe c (bind_player job) \<and> job_fresh (bind_player job)"
  by (auto simp: bind_player_def job_safe_def job_fresh_def split: option.splits)

lemma enqueue_steps:
  "job_safe c job \<and> job_fresh job \<Longrightarrow> steps api sapi c (snd (enqueueJob now pend job c))"
  by (cases "enqueueJob now pend job c") (auto intro: steps_one comp_step.enqueue)

lemma report_steps:
  "script_acts api sapi exec \<Longrightarrow>
     steps api sapi (wd_comp w) (wd_comp (fst (ReportGuardReject env exec amx h sql cb r w)))"
  by (simp add: ReportGuardReject_def fire_steps)

lemma submit_steps:
  assumes ex: "script_acts api sapi exec" and j: "job_safe (wd_comp w) job \<and> job_fresh job"
  shows "steps api sapi (wd_comp w) (wd_comp (fst (snd (submit_job env exec amx now pend job reported w))))"
proof -
  obtain r c' where e: "enqueueJob now pend job (wd_comp w) = (r, c')" by (cases "enqueueJob now pend job (wd_comp w)")
  let ?w = "w\<lparr>wd_comp := c', wd_log := guard_warning job r (wd_comp w) (wd_log w)\<rparr>"
  have c': "steps api sapi (wd_comp w) c'" using enqueue_steps [OF j, of api sapi now pend] e by simp
  have "steps api sapi c' (wd_comp (fst (ReportGuardReject env exec amx h sql cb r ?w)))" for h sql cb
    using report_steps [OF ex, of ?w] by simp
  with c' have "steps api sapi (wd_comp w) (wd_comp (fst (ReportGuardReject env exec amx h sql cb r ?w)))"
    for h sql cb using steps_trans by blast
  with c' show ?thesis by (simp add: submit_job_def host_enqueue_def e)
qed

lemma execute_steps:
  assumes ex: "script_acts api sapi exec"
  shows "steps api sapi (wd_comp w) (wd_comp (fst (snd (n_mysql_execute env exec amx now pend params w))))"
    and "steps api sapi (wd_comp w) (wd_comp (fst (snd (n_mysql_execute_for env exec amx now pend params w))))"
    and "steps api sapi (wd_comp w) (wd_comp (fst (snd (n_mysql_execute_file env exec amx now pend params w))))"
proof -
  show "steps api sapi (wd_comp w) (wd_comp (fst (snd (n_mysql_execute env exec amx now pend params w))))"
    by (simp add: n_mysql_execute_def Let_def submit_steps [OF ex] query_job_safe)
  show "steps api sapi (wd_comp w) (wd_comp (fst (snd (n_mysql_execute_for env exec amx now pend params w))))"
    by (simp add: n_mysql_execute_for_def Let_def submit_steps [OF ex] query_job_safe bind_player_safe)
  have "steps api sapi (wd_comp w) (wd_comp (fst (snd (submit_job env exec amx now pend
      (query_job sc mem params sql) rep (w\<lparr>wd_log := lg\<rparr>)))))" for sc mem sql rep lg
    using submit_steps [OF ex, of "w\<lparr>wd_log := lg\<rparr>"] by (simp add: query_job_safe)
  then show "steps api sapi (wd_comp w) (wd_comp (fst (snd (n_mysql_execute_file env exec amx now pend params w))))"
    by (simp add: n_mysql_execute_file_def Let_def split_beta split: option.split)
qed

lemma sync_steps:
  assumes ex: "script_acts api sapi exec" and ok: "results_ok (wd_comp w)"
    and run: "RunSyncQuery env exec api sapi elapsed now pend handle sql useCache w = Some (Found (r, w', calls))"
  shows "steps api sapi (wd_comp w) (wd_comp w')"
proof -
  let ?job = "default_job\<lparr>qj_connectionHandle := handle, qj_sql := sql, qj_useCache := useCache\<rparr>"
  have j: "job_safe (wd_comp w) ?job" "job_fresh ?job" by (simp_all add: job_safe_def job_fresh_def default_job_def)
  obtain x where x: "runJobSync api sapi elapsed now pend ?job (wd_comp w) = Some x"
    using run by (auto simp: RunSyncQuery_def Let_def)
  obtain d reason c' where s: "x = Found (d, reason, c')"
    using run x by (cases x) (auto simp: RunSyncQuery_def Let_def)
  let ?w1 = "w\<lparr>wd_comp := c', wd_log := guard_warning ?job reason (wd_comp w) (wd_log w)\<rparr>"
  have c': "steps api sapi (wd_comp w) (wd_comp ?w1)"
    using comp_step.sync [OF j x [unfolded s]] steps_one by auto
  have d: "\<And>k. d = Some k \<Longrightarrow> job_ok k" using runJobSync_results [OF x [unfolded s] ok j(2)] by blast
  show ?thesis
  proof (cases d)
    case None
    have "job_ok (default_job\<lparr>qj_connectionHandle := handle, qj_sql := sql, qj_error := GuardRejectText reason\<rparr>)"
      by (simp add: job_ok_def default_job_def)
    from dispatchJob_steps [OF ex this, of ?w1 "ne_amx env"]
    have "steps api sapi (wd_comp ?w1) (wd_comp (fst (ReportSyncReject env exec handle sql reason ?w1)))"
      by (simp add: ReportSyncReject_def)
    with c' have "steps api sapi (wd_comp w) (wd_comp (fst (ReportSyncReject env exec handle sql reason ?w1)))"
      by (rule steps_trans)
    with run x s None show ?thesis by (auto simp: RunSyncQuery_def Let_def)
  next
    case (Some k)
    obtain w2 calls2 where w2: "dispatchJob (ne_amx env) exec k ?w1 = (w2, calls2)"
      by (cases "dispatchJob (ne_amx env) exec k ?w1")
    have "steps api sapi (wd_comp ?w1) (wd_comp w2)"
      using dispatchJob_steps [OF ex d [OF Some], of ?w1 "ne_amx env"] w2 by simp
    with c' have s2: "steps api sapi (wd_comp w) (wd_comp w2)" by (rule steps_trans)
    have s3: "steps api sapi (wd_comp w) (setActiveCache (Some q) 0 (wd_comp w2))" if "qj_result k = Some q" for q
      using s2 comp_step.activate d [OF Some] that steps_trans steps_one unfolding job_ok_def by blast
    then have s4: "steps api sapi (wd_comp w) (snd (saveActiveCache (setActiveCache (Some q) 0 (wd_comp w2))))"
      if "qj_result k = Some q" for q
      using comp_step.retain that steps_trans steps_one by blast
    show ?thesis
      using run x s Some w2 s2 s3 s4
      by (auto simp: RunSyncQuery_def Let_def split_beta split: if_splits)
  qed
qed

subsection \<open>Statements and connections\<close>

lemma on_conn_steps: "on_conn h d f c = Found (x, c') \<Longrightarrow> steps api sapi c c'"
  by (auto simp: on_conn_def getConnection_def split_beta split: option.splits intro: steps_one comp_step.use_conn)

lemma on_stmt_steps:
  assumes "on_stmt h i bind c = Found (x, c')"
    and "\<And>j p. bind j p \<in> {bindInt j v p, bindFloat j z p, bindString j t p, bindNull j p}"
  shows "steps api sapi c c'"
proof -
  have "c' = c \<or> (\<exists>a p. map_of (statements c) h = Some a \<and> so_stmts (heap c) a = Some p \<and>
      c' = put_stmt a (Some (bind (i - 1) p)) c)"
    using assms(1) by (auto simp: on_stmt_def getStatement_def split: option.splits if_splits)
  with comp_step.bind_param [OF _ _ assms(2)] show ?thesis using steps_one by blast
qed

lemma n_mysql_stmt_execute_cases:
  assumes "n_mysql_stmt_execute env exec amx now pend params w = Found (r, w', calls)"
  obtains (quiet) lg where "w' = w\<lparr>wd_log := lg\<rparr>"
    | (sent) a p q c' lg where "getStatement (sint (params ! 1)) (wd_comp w) = Some a"
        "so_stmts (heap (wd_comp w)) a = Some p" "valid p" "connectionHandleOf (ps_conn p) (wd_comp w) \<noteq> 0"
        "enqueueJob now pend (stmt_job (ne_script env amx) (wd_mem w) params
           (connectionHandleOf (ps_conn p) (wd_comp w)) a p) (wd_comp w) = (q, c')"
        "w' = w\<lparr>wd_comp := c', wd_log := lg\<rparr> \<or>
         (\<exists>h cb. w' = fst (ReportGuardReject env exec amx h [] cb q (w\<lparr>wd_comp := c', wd_log := lg\<rparr>)))"
proof (cases "param_count params < 1")
  case True
  with assms have "w' = w\<lparr>wd_log := wd_log w\<rparr>" by (simp add: n_mysql_stmt_execute_def)
  then show ?thesis by (rule quiet)
next
  case False
  note n = False
  show ?thesis
  proof (cases "getStatement (sint (params ! 1)) (wd_comp w)")
    case None
    with assms n have "\<exists>lg. w' = w\<lparr>wd_log := lg\<rparr>" by (auto simp: n_mysql_stmt_execute_def Let_def)
    then show ?thesis using quiet by blast
  next
    case (Some a)
    then have a: "getStatement (sint (params ! 1)) (wd_comp w) = Some a" "\<not> param_count params < 1" using n by auto
    with assms obtain p where p: "so_stmts (heap (wd_comp w)) a = Some p"
      by (auto simp: n_mysql_stmt_execute_def Let_def split: option.splits)
    let ?h = "connectionHandleOf (ps_conn p) (wd_comp w)"
    obtain q c' where e: "enqueueJob now pend (stmt_job (ne_script env amx) (wd_mem w) params ?h a p) (wd_comp w) = (q, c')"
      by (cases "enqueueJob now pend (stmt_job (ne_script env amx) (wd_mem w) params ?h a p) (wd_comp w)")
    show ?thesis
    proof (cases "valid p \<and> ?h \<noteq> 0")
      case False
      with assms a p quiet show ?thesis by (auto simp: n_mysql_stmt_execute_def host_enqueue_def Let_def split: if_splits)
    next
      case True
      with assms a p e have "\<exists>lg. w' = w\<lparr>wd_comp := c', wd_log := lg\<rparr> \<or>
           (\<exists>h cb. w' = fst (ReportGuardReject env exec amx h [] cb q (w\<lparr>wd_comp := c', wd_log := lg\<rparr>)))"
        by (auto simp: n_mysql_stmt_execute_def host_enqueue_def Let_def split: if_splits) (metis fst_conv)
      with True a(1) p e show ?thesis using sent by blast
    qed
  qed
qed

lemma stmt_execute_steps:
  assumes ex: "script_acts api sapi exec"
    and run: "n_mysql_stmt_execute env exec amx now pend params w = Found (r, w', calls)"
  shows "steps api sapi (wd_comp w) (wd_comp w')"
  using run
proof (cases rule: n_mysql_stmt_execute_cases)
  case (quiet lg)
  then show ?thesis by simp
next
  case (sent a p q c' lg)
  let ?job = "stmt_job (ne_script env amx) (wd_mem w) params (connectionHandleOf (ps_conn p) (wd_comp w)) a p"
  have "job_safe (wd_comp w) ?job \<and> job_fresh ?job"
    using sent(1-4) by (auto simp: job_safe_def job_fresh_def stmt_job_def default_job_def getStatement_def valid_def)
  from enqueue_steps [OF this, of api sapi now pend] sent(5) have c': "steps api sapi (wd_comp w) c'" by simp
  have "steps api sapi c' (wd_comp (fst (ReportGuardReject env exec amx h [] cb q (w\<lparr>wd_comp := c', wd_log := lg\<rparr>))))"
    for h cb using report_steps [OF ex, of "w\<lparr>wd_comp := c', wd_log := lg\<rparr>" env amx h "[]" cb q] by simp
  with c' have "steps api sapi (wd_comp w) (wd_comp (fst (ReportGuardReject env exec amx h [] cb q
      (w\<lparr>wd_comp := c', wd_log := lg\<rparr>))))" for h cb by (rule steps_trans)
  with c' sent(6) show ?thesis by auto
qed

lemma prepare_steps:
  assumes "so_stmts (heap (wd_comp w)) a = None" and "mysql_prepare env sapi h query a w = (r, w')"
  shows "steps api sapi (wd_comp w) (wd_comp w')"
proof -
  have "wd_comp w' = wd_comp w \<or> (\<exists>ca. map_of (connections (wd_comp w)) h = Some ca \<and> wd_comp w' =
      snd (addStatement (Some a) (put_stmt a (Some (new_statement (Some ca) query)) (wd_comp w))))"
    using assms(2) by (auto simp: mysql_prepare_def getConnection_def Let_def split_beta split: option.splits if_splits)
  with comp_step.prepare [OF assms(1)] show ?thesis by (auto intro: steps_one)
qed

lemma DoConnect_steps:
  assumes fresh: "so_conns (heap c) a = None" and run: "DoConnect api b lenv opt a c lg = (h, c', lg')"
  shows "steps api sapi c c'"
  using run
proof (cases rule: DoConnect_cases)
  case failed
  then show ?thesis by simp
next
  case (connected conn)
  have "put_conn a (Some conn) (snd (addConnection (Some a) (co_multiStatements opt) c)) =
      snd (addConnection (Some a) (co_multiStatements opt) (put_conn a (Some conn) c))"
    by (simp add: addConnection_def put_conn_def Let_def)
  with connected(5) comp_step.connect [OF fresh] show ?thesis by (auto intro: steps_one)
qed

subsection \<open>Models, options, limits, hashes\<close>

lemma model_error_steps: "steps api sapi (wd_comp w) (wd_comp (model_error h m e w))"
  by (rule internal_step) (simp_all add: model_error_def same_life_def same_results_def hashes_grow_def same_hashing_def)

lemma ModelExecute_steps:
  assumes "ModelExecute env api amx now pend params op w = Found (r, w')"
  shows "steps api' sapi (wd_comp w) (wd_comp w')"
proof -
  have "steps api' sapi (wd_comp w) (snd (enqueueJob now pend (model_job sc mem ps h q sql m) (wd_comp w)))" for sc mem ps h q sql m
    by (rule enqueue_steps) (simp add: job_safe_def job_fresh_def model_job_def default_job_def)
  with assms model_error_steps show ?thesis
    by (auto simp: ModelExecute_def host_enqueue_def Let_def split_beta split: if_splits option.splits)
qed

lemma save_steps:
  "n_mysql_model_save env api amx now pend params w = Found (r, w') \<Longrightarrow> steps api' sapi (wd_comp w) (wd_comp w')"
  by (auto simp: n_mysql_model_save_def dest: ModelExecute_steps split: if_splits option.splits)

lemma on_model_steps: "steps api sapi c (snd (on_model h refuse f c))"
  by (rule internal_step) (auto simp: on_model_def same_life_def same_results_def hashes_grow_def same_hashing_def split_beta split: option.split)

lemma model_registry_steps:
  "steps api sapi c (snd (mysql_model_create table h c))" "steps api sapi c (snd (mysql_model_destroy h c))"
  by (rule internal_step; simp add: mysql_model_create_def mysql_model_destroy_def addModel_def removeModel_def
      same_life_def same_results_def hashes_grow_def same_hashing_def)+

lemma option_steps:
  "steps api sapi c (snd (mysql_config_create c))" "steps api sapi c (snd (n_mysql_config_set sc mem params c))"
  "steps api sapi c (snd (setLimit h type v c))"
  by (rule internal_step; simp add: mysql_config_create_def addOptions_def n_mysql_config_set_def setLimit_def
      same_life_def same_results_def hashes_grow_def same_hashing_def Let_def split: option.split)+

lemma hash_steps:
  "steps api sapi (wd_comp w) (wd_comp (snd (n_mysql_hash_password sc params w)))"
  "steps api sapi (wd_comp w) (wd_comp (snd (n_mysql_verify_password sc params w)))"
  by (rule internal_step; simp add: n_mysql_hash_password_def n_mysql_verify_password_def put_hash_def enqueueHash_def
      same_life_def same_results_def hashes_grow_def same_hashing_def)+

section \<open>The host's transitions\<close>

text \<open>
  One native called by a script, one tick, or one worker getting on with its queue, from world to world.  Each may run
  with any loaded scripts (\<open>env\<close>), any clock reading, any parameters.  A new object is allocated where no live one is.
  A transition exists only where the native's own definition gives a result.
\<close>

inductive native_step ::
    "'m client \<Rightarrow> ('m, 'st) stmt_client \<Rightarrow> ('m, 'st) script_exec \<Rightarrow> ('m, 'st) world \<Rightarrow> ('m, 'st) world \<Rightarrow> bool"
  for api :: "'m client" and sapi :: "('m, 'st) stmt_client" and exec :: "('m, 'st) script_exec" where
  connect: "so_conns (heap (wd_comp w)) a = None \<Longrightarrow>
    mysql_connect api b lenv getenv host user password database opts a (wd_comp w) (wd_log w) = (h, c', lg) \<Longrightarrow>
    native_step api sapi exec w (w\<lparr>wd_comp := c', wd_log := lg\<rparr>)"
| connect_config: "so_conns (heap (wd_comp w)) a = None \<Longrightarrow>
    mysql_connect_config api b lenv k getenv read_file file a (wd_comp w) (wd_log w) = (h, c', lg) \<Longrightarrow>
    native_step api sapi exec w (w\<lparr>wd_comp := c', wd_log := lg\<rparr>)"
| close: "mysql_close api sapi elapsed h (wd_comp w) = Some (Found (x, c')) \<Longrightarrow>
    native_step api sapi exec w (w\<lparr>wd_comp := c'\<rparr>)"
| execute: "n_mysql_execute env exec amx now pend params w = (r, w', calls) \<Longrightarrow> native_step api sapi exec w w'"
| execute_for: "n_mysql_execute_for env exec amx now pend params w = (r, w', calls) \<Longrightarrow> native_step api sapi exec w w'"
| execute_file: "n_mysql_execute_file env exec amx now pend params w = (r, w', calls) \<Longrightarrow> native_step api sapi exec w w'"
| execute_sync: "mysql_execute_sync env exec api sapi elapsed now pend h query cache w = Some (Found (r, w', calls)) \<Longrightarrow>
    native_step api sapi exec w w'"
| execute_file_sync:
    "mysql_execute_file_sync env exec api sapi elapsed now pend h file cache w = Some (Found (r, w', calls)) \<Longrightarrow>
    native_step api sapi exec w w'"
| prepare: "so_stmts (heap (wd_comp w)) a = None \<Longrightarrow> mysql_prepare env sapi h query a w = (r, w') \<Longrightarrow>
    native_step api sapi exec w w'"
| set_int: "mysql_stmt_set_int h i v (wd_comp w) = Found (x, c') \<Longrightarrow> native_step api sapi exec w (w\<lparr>wd_comp := c'\<rparr>)"
| set_float: "mysql_stmt_set_float h i z (wd_comp w) = Found (x, c') \<Longrightarrow> native_step api sapi exec w (w\<lparr>wd_comp := c'\<rparr>)"
| set_string: "mysql_stmt_set_string lenv h i t (wd_comp w) (wd_log w) = (Found (x, c'), lg) \<Longrightarrow>
    native_step api sapi exec w (w\<lparr>wd_comp := c', wd_log := lg\<rparr>)"
| set_null: "mysql_stmt_set_null h i (wd_comp w) = Found (x, c') \<Longrightarrow> native_step api sapi exec w (w\<lparr>wd_comp := c'\<rparr>)"
| stmt_execute: "n_mysql_stmt_execute env exec amx now pend params w = Found (r, w', calls) \<Longrightarrow> native_step api sapi exec w w'"
| stmt_close: "mysql_stmt_close h (wd_comp w) = Found (x, c') \<Longrightarrow> native_step api sapi exec w (w\<lparr>wd_comp := c'\<rparr>)"
| charset: "mysql_set_charset api cs h (wd_comp w) = Found (x, c') \<Longrightarrow> native_step api sapi exec w (w\<lparr>wd_comp := c'\<rparr>)"
| status: "mysql_server_status api h (wd_comp w) = Found (y, c') \<Longrightarrow> native_step api sapi exec w (w\<lparr>wd_comp := c'\<rparr>)"
| cipher: "mysql_get_tls_cipher api h (wd_comp w) = Found (y, c') \<Longrightarrow> native_step api sapi exec w (w\<lparr>wd_comp := c'\<rparr>)"
| tls: "mysql_is_tls_enabled api h (wd_comp w) = Found (x, c') \<Longrightarrow> native_step api sapi exec w (w\<lparr>wd_comp := c'\<rparr>)"
| format: "n_mysql_format env api amx params w = Found (r, w') \<Longrightarrow> native_step api sapi exec w w'"
| options: "c' \<in> {snd (mysql_config_create (wd_comp w)), snd (n_mysql_config_set sc (wd_mem w) params (wd_comp w)),
      snd (setLimit h type v (wd_comp w))} \<Longrightarrow> native_step api sapi exec w (w\<lparr>wd_comp := c'\<rparr>)"
| hashing: "w' \<in> {snd (n_mysql_hash_password sc params w), snd (n_mysql_verify_password sc params w)} \<Longrightarrow>
    native_step api sapi exec w w'"
| model: "c' \<in> {snd (mysql_model_create table h (wd_comp w)), snd (mysql_model_destroy h (wd_comp w)),
      snd (mysql_model_bind_int h var column (wd_comp w)), snd (mysql_model_bind_float h var column (wd_comp w)),
      snd (mysql_model_bind_string h var len column (wd_comp w)), snd (mysql_model_unbind h column (wd_comp w)),
      snd (mysql_model_clear h (wd_comp w)), snd (mysql_model_set_key h column (wd_comp w))} \<Longrightarrow>
    native_step api sapi exec w (w\<lparr>wd_comp := c'\<rparr>)"
| model_execute: "f \<in> {n_mysql_model_find, n_mysql_model_insert, n_mysql_model_update, n_mysql_model_delete,
      n_mysql_model_save} \<Longrightarrow> f env api amx now pend params w = Found (r, w') \<Longrightarrow> native_step api sapi exec w w'"
| result: "c' \<in> {snd (rs_select_set i (wd_comp w)), snd (rs_retain (wd_comp w)), snd (rs_release i (wd_comp w)),
      snd (rs_activate i (wd_comp w)), snd (rs_deactivate (wd_comp w))} \<Longrightarrow>
    native_step api sapi exec w (w\<lparr>wd_comp := c'\<rparr>)"
| memory: "native_step api sapi exec w (w\<lparr>wd_mem := mem, wd_player := player, wd_log := lg\<rparr>)"
| work: "map_of (workers (wd_comp w)) h = Some q \<Longrightarrow>
    work_off api sapi elapsed h q n (wd_comp w) = Some (Found (p, c')) \<Longrightarrow>
    native_step api sapi exec w (w\<lparr>wd_comp := c'\<rparr>)"
| restart: "reset_component api sapi elapsed (wd_comp w) = Some (Found c') \<Longrightarrow>
    native_step api sapi exec w (w\<lparr>wd_comp := c'\<rparr>)"

text \<open>A tick, or anything else.\<close>

inductive host_step ::
    "'m client \<Rightarrow> ('m, 'st) stmt_client \<Rightarrow> ('m, 'st) script_exec \<Rightarrow> ('m, 'st) world \<Rightarrow> ('m, 'st) world \<Rightarrow> bool"
  for api :: "'m client" and sapi :: "('m, 'st) stmt_client" and exec :: "('m, 'st) script_exec" where
  native: "native_step api sapi exec w w' \<Longrightarrow> host_step api sapi exec w w'"
| tick: "onTick env exec w = (w', calls) \<Longrightarrow> host_step api sapi exec w w'"

text \<open>
  The worlds there can be, from a new component.  The hashing threads may have been started, and have moved jobs through
  the hash queues, in any way at any time.
\<close>

inductive host_reach ::
    "'m client \<Rightarrow> ('m, 'st) stmt_client \<Rightarrow> ('m, 'st) script_exec \<Rightarrow> ('m, 'st) world \<Rightarrow> bool"
  for api :: "'m client" and sapi :: "('m, 'st) stmt_client" and exec :: "('m, 'st) script_exec" where
  start: "wd_comp w = new_component \<Longrightarrow> host_reach api sapi exec w"
| step: "host_reach api sapi exec w \<Longrightarrow> host_step api sapi exec w w' \<Longrightarrow> host_reach api sapi exec w'"
| pool: "host_reach api sapi exec w \<Longrightarrow> completed e = completed (engine (wd_comp w)) \<Longrightarrow>
    host_reach api sapi exec (w\<lparr>wd_comp := (wd_comp w)\<lparr>engine := e\<rparr>\<rparr>)"

lemma binder_cases:
  "bindInt j v p \<in> {bindInt j v p, bindFloat j z p, bindString j t p, bindNull j p}"
  "bindFloat j z p \<in> {bindInt j v p, bindFloat j z p, bindString j t p, bindNull j p}"
  "bindString j t p \<in> {bindInt j v p, bindFloat j z p, bindString j t p, bindNull j p}"
  "bindNull j p \<in> {bindInt j v p, bindFloat j z p, bindString j t p, bindNull j p}"
  by simp_all

lemma result_steps:
  "steps api sapi c (snd (rs_select_set i c))" "steps api sapi c (snd (rs_retain c))"
  "steps api sapi c (snd (rs_release i c))" "steps api sapi c (snd (rs_activate i c))"
  "steps api sapi c (snd (rs_deactivate c))"
  by (auto simp: rs_select_set_def rs_retain_def rs_release_def rs_activate_def rs_deactivate_def
      intro: steps_one comp_step.select comp_step.retain comp_step.release comp_step.reactivate comp_step.deactivate)

lemmas model_native_defs = mysql_model_bind_int_def mysql_model_bind_float_def mysql_model_bind_string_def
  mysql_model_unbind_def mysql_model_clear_def mysql_model_set_key_def

lemmas model_op_defs = n_mysql_model_find_def n_mysql_model_insert_def n_mysql_model_update_def n_mysql_model_delete_def

lemma format_comp: "n_mysql_format env api amx params w = Found (r, w') \<Longrightarrow> wd_comp w' = wd_comp w"
  by (auto simp: n_mysql_format_def Let_def split: if_splits option.splits)

lemma file_sync_steps:
  assumes ex: "script_acts api sapi exec" and ok: "results_ok (wd_comp w)"
    and run: "mysql_execute_file_sync env exec api sapi elapsed now pend h file cache w = Some (Found (r, w', calls))"
  shows "steps api sapi (wd_comp w) (wd_comp w')"
proof -
  obtain sql lg where f: "ReadSqlFile (ne_read_file env) ''mysql_execute_file_sync'' file (wd_log w) = (sql, lg)"
    by (cases "ReadSqlFile (ne_read_file env) ''mysql_execute_file_sync'' file (wd_log w)")
  show ?thesis
  proof (cases sql)
    case None
    with run f show ?thesis by (auto simp: mysql_execute_file_sync_def)
  next
    case (Some t)
    with run f have "RunSyncQuery env exec api sapi elapsed now pend h t cache (w\<lparr>wd_log := lg\<rparr>) = Some (Found (r, w', calls))"
      by (simp add: mysql_execute_file_sync_def)
    from sync_steps [OF ex _ this] ok show ?thesis by simp
  qed
qed

lemma native_step_steps:
  assumes st: "native_step api sapi exec w w'" and ex: "script_acts api sapi exec" and ok: "results_ok (wd_comp w)"
  shows "steps api sapi (wd_comp w) (wd_comp w')"
  using st
proof cases
  case (connect a b lenv getenv host user password database opts h c' lg)
  then show ?thesis using DoConnect_steps [of "wd_comp w" a] by (auto simp: mysql_connect_def)
next
  case (connect_config a b lenv k getenv read_file f h c' lg)
  then show ?thesis using DoConnect_steps [of "wd_comp w" a]
    by (auto simp: mysql_connect_config_def Let_def split: option.splits)
next
  case (close elapsed h x c')
  then show ?thesis by (auto simp: mysql_close_def intro: steps_one comp_step.disconnect)
next
  case (execute env amx now pend params r calls)
  then show ?thesis using execute_steps(1) [OF ex, of w env amx now pend params] by simp
next
  case (execute_for env amx now pend params r calls)
  then show ?thesis using execute_steps(2) [OF ex, of w env amx now pend params] by simp
next
  case (execute_file env amx now pend params r calls)
  then show ?thesis using execute_steps(3) [OF ex, of w env amx now pend params] by simp
next
  case (execute_sync env elapsed now pend h query cache r calls)
  then show ?thesis using sync_steps [OF ex ok] by (simp add: mysql_execute_sync_def)
next
  case (execute_file_sync env elapsed now pend h f cache r calls)
  then show ?thesis using file_sync_steps [OF ex ok] by blast
next
  case (prepare a env h query r)
  then show ?thesis using prepare_steps by blast
next
  case (set_int h i v x c')
  then show ?thesis using on_stmt_steps binder_cases(1) by (simp add: mysql_stmt_set_int_def) blast
next
  case (set_float h i z x c')
  then show ?thesis using on_stmt_steps binder_cases(2) by (simp add: mysql_stmt_set_float_def) blast
next
  case (set_string lenv h i t x c' lg)
  then show ?thesis using on_stmt_steps binder_cases(3) by (simp add: mysql_stmt_set_string_def) blast
next
  case (set_null h i x c')
  then show ?thesis using on_stmt_steps binder_cases(4) by (simp add: mysql_stmt_set_null_def) blast
next
  case (stmt_execute env amx now pend params r calls)
  then show ?thesis using stmt_execute_steps [OF ex] by blast
next
  case (stmt_close h x c')
  then show ?thesis by (auto simp: mysql_stmt_close_def intro: steps_one comp_step.stmt_close)
next
  case (charset cs h x c')
  then show ?thesis by (auto simp: mysql_set_charset_def dest: on_conn_steps)
next
  case (status h y c')
  then show ?thesis by (auto simp: mysql_server_status_def dest: on_conn_steps)
next
  case (cipher h y c')
  then show ?thesis by (auto simp: mysql_get_tls_cipher_def dest: on_conn_steps)
next
  case (tls h x c')
  then show ?thesis by (auto simp: mysql_is_tls_enabled_def dest: on_conn_steps)
next
  case (format env amx params r)
  then show ?thesis using format_comp by (metis steps_refl)
next
  case (options c' sc params h type v)
  then show ?thesis using option_steps by auto
next
  case (hashing sc params)
  then show ?thesis using hash_steps by auto
next
  case (model c' table h var column len)
  then show ?thesis using model_registry_steps on_model_steps by (auto simp: model_native_defs)
next
  case (model_execute f env amx now pend params r)
  then show ?thesis by (auto simp: model_op_defs intro: ModelExecute_steps save_steps)
next
  case (result c' i)
  then show ?thesis using result_steps by auto
next
  case (memory mem player lg)
  then show ?thesis by simp
next
  case (work h q n p c')
  then show ?thesis by (auto intro: steps_one comp_step.work)
next
  case (restart elapsed c')
  then show ?thesis by (auto intro: steps_one comp_step.restart)
qed

lemma taken_reach: "comp_reach api sapi c \<Longrightarrow> comp_reach api sapi (taken c)"
  using comp_reach.drain [of api sapi c] by (cases "drainCompleted (engine c)") (auto simp: taken_def)

lemma hashes_taken_reach: "comp_reach api sapi c \<Longrightarrow> comp_reach api sapi (hashes_taken c)"
  by (simp add: hashes_taken_def drainHashes_def comp_reach.hashing)

lemma host_step_steps:
  assumes st: "host_step api sapi exec w w'" and ex: "script_acts api sapi exec" and ok: "results_ok (wd_comp w)"
  shows "steps api sapi (wd_comp w) (wd_comp w') \<or>
    (\<exists>env calls c1. onTick env exec w = (w', calls) \<and> steps api sapi (taken (wd_comp w)) c1 \<and>
       steps api sapi (hashes_taken c1) (wd_comp w'))"
  using st
proof cases
  case native
  then show ?thesis using native_step_steps [OF _ ex ok] by blast
next
  case (tick env calls)
  then show ?thesis using onTick_steps [OF ex ok tick] by blast
qed

lemma host_step_reach:
  assumes "host_step api sapi exec w w'" and "script_acts api sapi exec" and n: "small_counts sapi"
    and r: "comp_reach api sapi (wd_comp w)"
  shows "comp_reach api sapi (wd_comp w')"
  using host_step_steps [OF assms(1,2) comp_reach_results [OF r n]] steps_reach [OF _ r] steps_reach [OF _ taken_reach [OF r]]
    steps_reach [OF _ hashes_taken_reach] by blast

lemma host_reach_comp:
  "host_reach api sapi exec w \<Longrightarrow> script_acts api sapi exec \<Longrightarrow> small_counts sapi \<Longrightarrow> comp_reach api sapi (wd_comp w)"
proof (induction rule: host_reach.induct)
  case (start w)
  then show ?case by (simp add: comp_reach.init)
next
  case (step w w')
  then show ?case using host_step_reach by blast
next
  case (pool w e)
  then show ?case using comp_reach.hashing by simp
qed

lemma host_life:
  "host_reach api sapi exec w \<Longrightarrow> script_acts api sapi exec \<Longrightarrow> small_counts sapi \<Longrightarrow>
     life (wd_comp w) \<and> results_ok (wd_comp w)"
  using host_reach_comp comp_reach_life comp_reach_results by blast

section \<open>Properties\<close>

text \<open>
  C9: every native and every tick refines the component's steps: whatever scripts are loaded and whatever a script does
  when it is called back, as long as it works on the component through natives, each transition of the host, from a
  reachable world, is a sequence of the component's atomic steps; only a tick takes jobs that are done, all completed
  queries before any of those steps and all hashes between two of them.
\<close>

theorem host_refines_component:
  assumes "host_reach api sapi exec w" and "host_step api sapi exec w w'"
    and "script_acts api sapi exec" and "small_counts sapi"
  shows "((comp_step api sapi)\<^sup>*\<^sup>* (wd_comp w) (wd_comp w') \<or>
      (\<exists>env calls c1. onTick env exec w = (w', calls) \<and>
        (comp_step api sapi)\<^sup>*\<^sup>* ((wd_comp w)\<lparr>engine := snd (drainCompleted (engine (wd_comp w)))\<rparr>) c1 \<and>
        (comp_step api sapi)\<^sup>*\<^sup>* (c1\<lparr>engine := snd (drainHashes (engine c1))\<rparr>) (wd_comp w'))) \<and>
    comp_reach api sapi (wd_comp w')"
proof -
  have r: "comp_reach api sapi (wd_comp w)" using host_reach_comp [OF assms(1,3,4)] .
  from host_step_steps [OF assms(2,3) comp_reach_results [OF r assms(4)]] host_step_reach [OF assms(2-4) r]
  show ?thesis unfolding steps_def taken_def hashes_taken_def by blast
qed



section \<open>Witnesses\<close>

lemma demo_acts: "script_acts tls_client one_row_client demo_exec"
  by (simp add: script_acts_def demo_exec_def)

definition connected_world :: "(nat, nat) world" where
  "connected_world = (case mysql_connect tls_client demo_build demo_log_env (\<lambda>v. None) ''db'' ''u'' ''p'' ''d'' 0 4
       new_component (wd_log demo_world) of (h, c', lg) \<Rightarrow> demo_world\<lparr>wd_comp := c', wd_log := lg\<rparr>)"

definition prepared_world :: "(nat, nat) world" where
  "prepared_world = snd (mysql_prepare demo_native_env one_row_client 1 ''SELECT ?'' 5 connected_world)"

lemma connected_step: "host_step tls_client one_row_client demo_exec demo_world connected_world"
proof -
  let ?r = "mysql_connect tls_client demo_build demo_log_env (\<lambda>v. None) ''db'' ''u'' ''p'' ''d'' 0 4
      (wd_comp demo_world) (wd_log demo_world)"
  obtain h c' lg where r: "?r = (h, c', lg)" by (cases ?r) auto
  have "so_conns (heap (wd_comp demo_world)) 4 = None" by (simp add: demo_world_def new_component_def)
  from host_step.native [OF native_step.connect [OF this r]] r show ?thesis by (simp add: connected_world_def demo_world_def)
qed

lemma connected_comp:
  "wd_comp connected_world = put_conn 4 (Some \<lparr>cn_mysql = Some 0, cn_connected = True\<rparr>)
     (snd (addConnection (Some 4) False new_component))"
  by (simp add: connected_world_def mysql_connect_def DoConnect_def demo_open demo_cipher connect_options_def
      default_options_def addConnection_def Let_def)

lemma prepared_reach: "host_reach tls_client one_row_client demo_exec prepared_world"
proof -
  have start: "host_reach tls_client one_row_client demo_exec demo_world"
    by (rule host_reach.start) (simp add: demo_world_def)
  have fresh: "so_stmts (heap (wd_comp connected_world)) 5 = None"
    by (simp add: connected_comp put_conn_def addConnection_def new_component_def Let_def)
  have "mysql_prepare demo_native_env one_row_client 1 ''SELECT ?'' 5 connected_world =
      (fst (mysql_prepare demo_native_env one_row_client 1 ''SELECT ?'' 5 connected_world), prepared_world)"
    by (simp add: prepared_world_def)
  from host_step.native [OF native_step.prepare [OF fresh this]] show ?thesis
    using host_reach.step [OF host_reach.step [OF start connected_step]] by blast
qed

theorem host_refines_component_witness:
  "comp_reach tls_client one_row_client (wd_comp connected_world) \<and>
   getConnection 1 (wd_comp connected_world) = Some 4"
proof -
  have "host_reach tls_client one_row_client demo_exec demo_world"
    by (rule host_reach.start) (simp add: demo_world_def)
  from host_refines_component [OF this connected_step demo_acts one_row_small] show ?thesis
    by (simp add: connected_comp getConnection_def put_conn_def addConnection_def new_component_def emplace_def Let_def)
qed



end
