(* ===== verification/Delivery.thy ===== *)
theory Delivery
  imports Host
begin

text \<open>
  What a script that asks relies on, across all components: between the native that accepts a query and the tick that
  delivers its answer, through the guards, the queues, the workers, disconnects and restarts, no query is lost, none is
  doubled, and those on one connection stay in the order they were asked in.
\<close>

declare map_of_eq_Some_iff [simp del] Some_eq_map_of_iff [simp del]

section \<open>The line of a connection\<close>

text \<open>What a job asks for, without what the worker fills in.\<close>

definition request :: "QueryJob \<Rightarrow> QueryJob" where
  "request j = default_job\<lparr>qj_connectionHandle := qj_connectionHandle j, qj_sql := qj_sql j,
     qj_callback := qj_callback j, qj_args := qj_args j, qj_boundPlayer := qj_boundPlayer j,
     qj_modelHandle := qj_modelHandle j, qj_modelOp := qj_modelOp j, qj_syncSignal := qj_syncSignal j\<rparr>"

lemma same_request_iff: "same_request j k \<longleftrightarrow> request k = request j"
  by (auto simp: same_request_def request_def default_job_def)

lemma request_handle: "request k = request j \<Longrightarrow> qj_connectionHandle k = qj_connectionHandle j"
  using same_request_iff [of j k] by (simp add: same_request_def)

text \<open>
  The requests to handle \<open>h\<close> in a queue of jobs, and those of finished jobs; a handle's line is what has been answered
  and not yet taken by a tick, then what is still queued.
\<close>

definition asked :: "int \<Rightarrow> QueryJob list \<Rightarrow> QueryJob list" where
  "asked h js = map request (filter (\<lambda>j. answered j \<and> qj_connectionHandle j = h) js)"

definition replies :: "int \<Rightarrow> QueryJob list \<Rightarrow> QueryJob list" where
  "replies h js = map request (filter (\<lambda>j. qj_connectionHandle j = h) js)"

definition queue_of :: "int \<Rightarrow> ('m, 'st) component \<Rightarrow> QueryJob list" where
  "queue_of h c = (case map_of (workers c) h of None \<Rightarrow> [] | Some w \<Rightarrow> cw_jobs w)"

definition line :: "int \<Rightarrow> ('m, 'st) component \<Rightarrow> QueryJob list" where
  "line h c = replies h (completed (engine c)) @ asked h (queue_of h c)"

text \<open>A queue holds only jobs of its own handle.\<close>

definition addressed :: "('m, 'st) component \<Rightarrow> bool" where
  "addressed c \<longleftrightarrow> (\<forall>h w. map_of (workers c) h = Some w \<longrightarrow> (\<forall>j \<in> set (cw_jobs w). qj_connectionHandle j = h))"

definition same_line :: "('m, 'st) component \<Rightarrow> ('m, 'st) component \<Rightarrow> bool" where
  "same_line c d \<longleftrightarrow> addressed d \<and> (\<forall>h. line h d = line h c)"

lemma asked_simps [simp]:
  "asked h [] = []"
  "asked h (j # js) = (if answered j \<and> qj_connectionHandle j = h then [request j] else []) @ asked h js"
  "asked h (js @ ks) = asked h js @ asked h ks"
  by (simp_all add: asked_def)

lemma replies_simps [simp]:
  "replies h [] = []" "replies h (js @ ks) = replies h js @ replies h ks"
  "replies h [j] = (if qj_connectionHandle j = h then [request j] else [])"
  by (simp_all add: replies_def)

lemma asked_other: "\<forall>j \<in> set js. qj_connectionHandle j = k \<Longrightarrow> h \<noteq> k \<Longrightarrow> asked h js = []"
  by (auto simp: asked_def filter_empty_conv)

lemma same_line_refl: "addressed c \<Longrightarrow> same_line c c"
  by (simp add: same_line_def)

lemma same_line_trans [trans]: "same_line a b \<Longrightarrow> same_line b c \<Longrightarrow> same_line a c"
  by (simp add: same_line_def)

lemma same_line_frame:
  "addressed c \<Longrightarrow> workers d = workers c \<Longrightarrow> completed (engine d) = completed (engine c) \<Longrightarrow> same_line c d"
  by (simp add: same_line_def addressed_def line_def queue_of_def)

lemma same_line_then:
  "same_line c d \<Longrightarrow> workers d' = workers d \<Longrightarrow> completed (engine d') = completed (engine d) \<Longrightarrow> same_line c d'"
  by (simp add: same_line_def addressed_def line_def queue_of_def)

section \<open>Workers\<close>

lemma run_jobs_replies:
  "run_jobs api sapi elapsed ca js (p, e, s) = Some (Found (p', e', s')) \<Longrightarrow>
     replies h (completed e') = replies h (completed e) @ asked h js"
proof (induction js arbitrary: p e s)
  case (Cons j js)
  then obtain d s1 where d: "process_job api sapi (elapsed j) (Some ca) j s = Some (Found (d, s1))"
    by (auto split: option.splits access.splits)
  from process_job_work_ok [OF d] show ?case
    using Cons.prems d Cons.IH [of _ e s1] Cons.IH [of _ "push_completed k e" s1 for k]
    by (cases d) (auto simp: work_ok_def answered_def push_completed_def same_request_iff dest: request_handle
        split: if_splits)
qed simp

lemma work_off_line:
  assumes run: "work_off api sapi elapsed h w n c = Some (Found (p, c'))" and a: "addressed c"
    and w0: "map_of (workers c) h = Some w0" and q: "asked h (cw_jobs w) = asked h (cw_jobs w0)"
    and own: "\<forall>j \<in> set (cw_jobs w). qj_connectionHandle j = h"
  shows "same_line c c' \<and> map_of (workers c') = (map_of (workers c))(h \<mapsto> w\<lparr>cw_jobs := drop n (cw_jobs w)\<rparr>)"
proof -
  from run obtain e s where x: "run_jobs api sapi elapsed (cw_conn w) (take n (cw_jobs w)) (None, engine c, heap c) =
        Some (Found (p, e, s))"
      and s: "c' = c\<lparr>engine := e, heap := s, workers := assign h (w\<lparr>cw_jobs := drop n (cw_jobs w)\<rparr>) (workers c)\<rparr>"
    by (rule work_off_split)
  have r: "replies k (completed e) = replies k (completed (engine c)) @ asked k (take n (cw_jobs w))" for k
    using run_jobs_replies [OF x] .
  have split: "asked k (cw_jobs w) = asked k (take n (cw_jobs w)) @ asked k (drop n (cw_jobs w))" for k
    using asked_simps(3) [of k "take n (cw_jobs w)" "drop n (cw_jobs w)"] by simp
  have "line k c' = line k c" for k
  proof (cases "k = h")
    case True
    with r split [of h] q w0 s show ?thesis by (simp add: line_def queue_of_def)
  next
    case False
    then have "asked k (take n (cw_jobs w)) = []" using own by (intro asked_other [of _ h]) (auto dest: in_set_takeD)
    with False r s show ?thesis by (simp add: line_def queue_of_def)
  qed
  moreover have "addressed c'"
    using a own unfolding addressed_def s by (auto dest: in_set_dropD)
  ultimately show ?thesis by (simp add: same_line_def s)
qed

lemma addressed_queue: "addressed c \<Longrightarrow> map_of (workers c) h = Some w \<Longrightarrow> \<forall>j \<in> set (cw_jobs w). qj_connectionHandle j = h"
  unfolding addressed_def by blast

lemma checkGuards_line: "checkGuards now pend job c = (r, c') \<Longrightarrow> addressed c \<Longrightarrow> same_line c c'"
  using checkGuards_frame [of now pend job c r c'] by (simp add: same_line_frame)

lemma push_worker_line:
  assumes "addressed c" and "map_of (workers c) k = Some w" and "qj_connectionHandle job = k"
  shows "addressed (push_worker k w job c) \<and>
    (\<forall>h. line h (push_worker k w job c) = line h c @ (if h = k \<and> answered job then [request job] else []))"
  using assms unfolding addressed_def line_def queue_of_def push_worker_def by auto

text \<open>An accepted query goes to the back of its line; a rejected one changes nothing.\<close>

lemma enqueueJob_line:
  assumes e: "enqueueJob now pend job c = (r, c')" and a: "addressed c"
  shows "addressed c' \<and> (\<forall>h. line h c' =
    line h c @ (if r = NoReject \<and> h = qj_connectionHandle job \<and> answered job then [request job] else []))"
  using e
proof (cases rule: enqueueJob_cases)
  case unknown
  with a show ?thesis by simp
next
  case (rejected w)
  with checkGuards_line [OF rejected(3) a] show ?thesis by (simp add: same_line_def)
next
  case (accepted w c1)
  have s: "same_line c c1" using checkGuards_line [OF accepted(3) a] .
  have "map_of (workers c1) (qj_connectionHandle job) = Some w"
    using accepted(1) checkGuards_frame [OF accepted(3)] by simp
  from push_worker_line [OF _ this refl] s accepted(2,4) show ?thesis by (simp add: same_line_def)
qed

lemma runJobSync_line:
  assumes run: "runJobSync api sapi elapsed now pend job c = Some (Found (p, r, c'))" and a: "addressed c"
  shows "same_line c c'"
  using run
proof (cases rule: runJobSync_cases)
  case unknown
  with a show ?thesis by (simp add: same_line_refl)
next
  case (rejected w)
  then show ?thesis using checkGuards_line [OF _ a] by simp
next
  case (ran w c1 v)
  have s: "same_line c c1" using checkGuards_line [OF ran(2) a] .
  have "same_line c1 c'"
  proof (rule conjunct1 [OF work_off_line [OF ran(4)]])
    show "addressed c1" using s by (simp add: same_line_def)
    show "map_of (workers c1) (qj_connectionHandle job) = Some w"
      using ran(1) checkGuards_frame [OF ran(2)] by simp
    show "\<forall>j \<in> set (cw_jobs v). qj_connectionHandle j = qj_connectionHandle job"
      using addressed_queue [OF a ran(1)] by (simp add: ran(3))
  qed (simp add: answered_def ran(3))
  with s show ?thesis by (rule same_line_trans)
qed

lemma stop_worker_line:
  assumes run: "stop_worker api sapi elapsed h w c = Some (Found c')" and a: "addressed c"
    and w: "map_of (workers c) h = Some w"
  shows "same_line c c' \<and> map_of (workers c') = (map_of (workers c))(h \<mapsto> w\<lparr>cw_jobs := []\<rparr>)"
  using run by (rule stop_worker_split) (use work_off_line [OF _ a w refl addressed_queue [OF a w]] in auto)

lemma drop_connection_line:
  assumes a: "addressed c" and idle: "queue_of h c = []" and d: "drop_connection h (c\<lparr>workers := erase h (workers c)\<rparr>) = (b, c')"
  shows "same_line c c'"
proof -
  have f: "workers c' = erase h (workers c) \<and> engine c' = engine c"
    using d by (auto simp: drop_connection_def put_conn_def Let_def split: option.splits)
  have "addressed c'" using a f unfolding addressed_def by auto
  moreover have "line k c' = line k c" for k
    using idle f by (cases "k = h") (simp_all add: line_def queue_of_def)
  ultimately show ?thesis by (simp add: same_line_def)
qed

lemma removeConnection_line:
  assumes run: "removeConnection api sapi elapsed h c = Some (Found (b, c'))" and a: "addressed c"
  shows "same_line c c'"
  using run
proof (cases rule: removeConnection_cases)
  case unknown
  then have "workers c' = workers c \<and> engine c' = engine c"
    by (auto simp: drop_connection_def put_conn_def Let_def split: option.splits)
  with a show ?thesis by (simp add: same_line_frame)
next
  case (stopped w c1)
  note s = stop_worker_line [OF stopped(2) a stopped(1)]
  have "same_line c1 c'"
    using s stopped(3) by (intro drop_connection_line [of c1 h b]) (simp_all add: same_line_def queue_of_def)
  with s show ?thesis using same_line_trans by blast
qed

lemma removeStatement_cases:
  assumes "removeStatement h c = Found (b, c')"
  obtains (absent) "map_of (statements c) h = None" "c' = c"
    | (freed) a where "map_of (statements c) h = Some a"
        "c' = put_stmt a None (c\<lparr>statements := erase h (statements c)\<rparr>)"
    | (queued) a k w where "map_of (statements c) h = Some a" "map_of (workers c) k = Some w"
        "c' = push_worker k w (default_job\<lparr>qj_connectionHandle := k, qj_statementToClose := Some a\<rparr>)
           (c\<lparr>statements := erase h (statements c)\<rparr>)"
proof (cases "map_of (statements c) h")
  case None
  then show ?thesis by (rule absent) (use assms None in \<open>simp add: removeStatement_def\<close>)
next
  case (Some a)
  let ?c = "c\<lparr>statements := erase h (statements c)\<rparr>"
  obtain p where p: "so_stmts (heap c) a = Some p"
    using assms Some by (auto simp: removeStatement_def Let_def split: option.splits)
  obtain k where k: "connectionHandleOf (ps_conn p) ?c = k" by blast
  show ?thesis
  proof (cases "if k \<noteq> 0 then map_of (workers c) k else None")
    case None
    show ?thesis
      by (rule freed [OF Some]) (use assms Some p k None in \<open>simp add: removeStatement_def Let_def split: if_splits\<close>)
  next
    case w: (Some w)
    then have kw: "k \<noteq> 0" "map_of (workers c) k = Some w" by (simp_all split: if_splits)
    show ?thesis
      by (rule queued [OF Some kw(2)]) (use assms Some p k kw in \<open>simp add: removeStatement_def Let_def\<close>)
  qed
qed

text \<open>The teardown job that closes a statement asks for nothing.\<close>

lemma removeStatement_line:
  assumes "removeStatement h c = Found (b, c')" and a: "addressed c"
  shows "same_line c c'"
  using assms(1)
proof (cases rule: removeStatement_cases)
  case absent
  with a show ?thesis by (simp add: same_line_refl)
next
  case (freed s)
  with a show ?thesis by (simp add: same_line_frame put_stmt_def)
next
  case (queued s k w)
  let ?c = "c\<lparr>statements := erase h (statements c)\<rparr>"
  have l: "addressed ?c" "line g ?c = line g c" for g using a by (simp_all add: addressed_def line_def queue_of_def)
  have "map_of (workers ?c) k = Some w" using queued(2) by simp
  from push_worker_line [OF l(1) this, of "default_job\<lparr>qj_connectionHandle := k, qj_statementToClose := Some s\<rparr>"] l(2)
  show ?thesis unfolding queued(3) by (simp add: same_line_def answered_def)
qed

lemma remove_statements_line: "remove_statements hs c = Found c' \<Longrightarrow> addressed c \<Longrightarrow> same_line c c'"
proof (induction hs arbitrary: c)
  case (Cons h hs)
  from Cons.prems(1) obtain b c1 where "removeStatement h c = Found (b, c1)" "remove_statements hs c1 = Found c'"
    by (rule remove_statements_split)
  with Cons removeStatement_line same_line_trans show ?case by (metis same_line_def)
qed (simp add: same_line_refl)

lemma clearStatements_line:
  assumes "clearStatements c = Found c'" and "addressed c"
  shows "same_line c c'"
proof -
  from assms(1) obtain c1 where c1: "remove_statements (map fst (statements c)) c = Found c1" "c' = c1\<lparr>statements := []\<rparr>"
    by (rule clearStatements_split)
  from remove_statements_line [OF c1(1) assms(2)] show ?thesis by (rule same_line_then) (simp_all add: c1(2))
qed

section \<open>Shutting down\<close>

text \<open>Stopping the workers one after the other empties each queue into the completed one.\<close>

lemma stop_all_line:
  "stop_all api sapi elapsed ws c = Some (Found c') \<Longrightarrow> addressed c \<Longrightarrow> distinct (map fst ws) \<Longrightarrow>
    (\<forall>(h, w) \<in> set ws. map_of (workers c) h = Some w) \<Longrightarrow>
    same_line c c' \<and> (\<forall>h. queue_of h c' = (if h \<in> fst ` set ws then [] else queue_of h c))"
proof (induction ws arbitrary: c)
  case (Cons hw ws)
  obtain h w where hw: "hw = (h, w)" by (cases hw)
  from Cons.prems(1) [unfolded hw] obtain c1 where c1: "stop_worker api sapi elapsed h w c = Some (Found c1)"
      "stop_all api sapi elapsed ws c1 = Some (Found c')"
    by (rule stop_all_split)
  have s: "same_line c c1" "map_of (workers c1) = (map_of (workers c))(h \<mapsto> w\<lparr>cw_jobs := []\<rparr>)"
    using stop_worker_line [OF c1(1) Cons.prems(2)] Cons.prems(4) hw by auto
  have "\<forall>(k, v) \<in> set ws. map_of (workers c1) k = Some v"
    using Cons.prems(3,4) hw s(2) by (force simp: image_iff)
  with Cons.IH [OF c1(2)] s(1) Cons.prems(3)
  have rest: "same_line c1 c'" "\<And>k. queue_of k c' = (if k \<in> fst ` set ws then [] else queue_of k c1)"
    by (auto simp: same_line_def)
  from s(1) rest(1) have "same_line c c'" by (rule same_line_trans)
  moreover have "queue_of k c' = (if k \<in> fst ` set (hw # ws) then [] else queue_of k c)" for k
    using rest(2) [of k] s(2) hw by (simp add: queue_of_def)
  ultimately show ?case by blast
qed (simp add: same_line_refl)

lemma clearConnections_line:
  assumes run: "clearConnections api sapi elapsed c = Some (Found c')" and a: "addressed c"
    and l: "distinct (map fst (workers c))"
  shows "same_line c c'"
proof -
  from run obtain c1 where c1: "stop_all api sapi elapsed (workers c) c = Some (Found c1)"
      and c': "c' = (free_conns (connections c1) (c1\<lparr>workers := []\<rparr>))
        \<lparr>connections := [], multiStatementAllowed := [], guards := [], rateLog := []\<rparr>"
    by (rule clearConnections_split)
  have "\<forall>(h, w) \<in> set (workers c). map_of (workers c) h = Some w" using l by (auto simp: map_of_eq_Some_iff)
  with stop_all_line [OF c1 a l] have s: "same_line c c1"
      and q: "\<And>h. queue_of h c1 = (if h \<in> fst ` set (workers c) then [] else queue_of h c)" by auto
  have none: "queue_of h c = []" if "h \<notin> fst ` set (workers c)" for h
    using that by (simp add: queue_of_def map_of_eq_None_iff [THEN iffD2])
  have idle: "queue_of h c1 = []" for h using q [of h] none [of h] by simp
  have f: "workers c' = [] \<and> completed (engine c') = completed (engine c1)"
    using free_conns_view [of "c1\<lparr>workers := []\<rparr>" "connections c1"] by (auto simp: same_view_def c')
  then have "same_line c1 c'" using idle by (simp add: same_line_def addressed_def line_def queue_of_def)
  with s show ?thesis by (rule same_line_trans)
qed

lemma reset_line:
  assumes run: "reset_component api sapi elapsed c = Some (Found c')" and a: "addressed c" and l: "life c"
  shows "same_line c c'"
proof -
  let ?c0 = "(clearActiveCache c)\<lparr>savedCaches := [], nextCache := 1\<rparr>"
  from run obtain c1 c3 where c1: "clearStatements ?c0 = Found c1"
      and c3: "clearConnections api sapi elapsed ((clearModels (c1\<lparr>nextStatement := 1\<rparr>))\<lparr>nextModel := 1\<rparr>) = Some (Found c3)"
      and c': "c' = (clearOptions c3)\<lparr>nextHandle := 1, nextOptions := 1\<rparr>"
    by (rule reset_split)
  let ?c2 = "(clearModels (c1\<lparr>nextStatement := 1\<rparr>))\<lparr>nextModel := 1\<rparr>"
  have s0: "same_line c ?c0" using a by (simp add: same_line_frame clearActiveCache_def)
  then have "addressed ?c0" by (simp add: same_line_def)
  from same_line_trans [OF s0 clearStatements_line [OF c1 this]]
  have s: "same_line c ?c2" by (rule same_line_then) (simp_all add: clearModels_def)
  have "life c1" using clearStatements_life [OF clear_life [OF l]] c1 by auto
  then have d: "distinct (map fst (workers ?c2))" by (simp add: life_def clearModels_def)
  have "addressed ?c2" using s by (simp add: same_line_def)
  from clearConnections_line [OF c3 this d] have "same_line ?c2 c3" .
  from same_line_trans [OF s this] show ?thesis
    by (rule same_line_then) (simp_all add: clearOptions_def c')
qed

section \<open>Every history\<close>

lemma quiet_line:
  "addressed c \<Longrightarrow> workers d = workers c \<Longrightarrow> engine d = engine c \<Longrightarrow> same_line c d"
  by (simp add: same_line_frame)

lemma addConnection_line:
  assumes "connections_ok c" and "workers_match c" and "addressed c"
  shows "same_line c (snd (addConnection (Some a) multi (put_conn a (Some conn) c)))"
proof -
  have "map_of (connections c) (nextHandle c) = None" using assms(1) by (simp add: reg_ok_fresh)
  with assms(2) have "map_of (workers c) (nextHandle c) = None" unfolding workers_match_def by (metis option.map_disc_iff)
  with assms(3) show ?thesis
    by (auto simp: same_line_def addressed_def line_def queue_of_def addConnection_def put_conn_def Let_def)
qed

text \<open>A step leaves every line as it is, or it is a query accepted at the back of one.\<close>

lemma comp_step_line:
  assumes st: "comp_step api sapi c c'" and l: "life c" and a: "addressed c"
  shows "addressed c' \<and> ((\<forall>h. line h c' = line h c) \<or>
    (\<exists>job now pend. enqueueJob now pend job c = (NoReject, c') \<and>
       (\<forall>h. line h c' = line h c @ (if h = qj_connectionHandle job \<and> answered job then [request job] else []))))"
proof -
  have unchanged: ?thesis if "same_line c c'" using that by (simp add: same_line_def)
  from st show ?thesis
  proof cases
    case (connect k multi conn)
    then have "same_line c c'" using addConnection_line [OF _ _ a] l by (simp add: life_def)
    then show ?thesis by (rule unchanged)
  next
    case (disconnect elapsed h b)
    then show ?thesis using removeConnection_line a unchanged by blast
  next
    case (prepare k h ca sql)
    with a show ?thesis by (intro unchanged quiet_line) (simp_all add: addStatement_def put_stmt_def)
  next
    case (bind_param h k p q i v x t)
    with a show ?thesis by (intro unchanged quiet_line) (simp_all add: put_stmt_def)
  next
    case (stmt_close h b)
    then show ?thesis using removeStatement_line a unchanged by blast
  next
    case (enqueue job now pend r)
    with enqueueJob_line [OF enqueue(3) a] show ?thesis by (cases "r = NoReject") auto
  next
    case (sync job elapsed now pend x r)
    then show ?thesis using runJobSync_line a unchanged by blast
  next
    case (work h w elapsed n x)
    then show ?thesis using work_off_line [OF _ a _ refl addressed_queue [OF a]] unchanged by blast
  next
    case (use_conn h k conn)
    with a show ?thesis by (intro unchanged quiet_line) (simp_all add: put_conn_def)
  next
    case (restart elapsed)
    then show ?thesis using reset_line a l unchanged by blast
  next
    case (activate r)
    with a show ?thesis by (intro unchanged quiet_line) (simp_all add: setActiveCache_def)
  next
    case deactivate
    with a show ?thesis by (intro unchanged quiet_line) (simp_all add: clearActiveCache_def)
  next
    case (select i)
    with a show ?thesis by (intro unchanged quiet_line) (simp_all add: setActiveResultIndex_def split: option.splits)
  next
    case retain
    with a show ?thesis by (intro unchanged quiet_line) (simp_all add: saveActiveCache_def split: option.splits)
  next
    case (reactivate i)
    with a show ?thesis by (intro unchanged quiet_line) (simp_all add: activateSavedCache_def split: option.splits)
  next
    case (release i)
    with a show ?thesis by (intro unchanged quiet_line) (simp_all add: deleteSavedCache_def)
  next
    case internal
    with a show ?thesis by (intro unchanged same_line_frame) (simp_all add: same_life_def same_results_def)
  qed
qed

lemma comp_reach_addressed: "comp_reach api sapi c \<Longrightarrow> small_counts sapi \<Longrightarrow> addressed c"
proof (induction rule: comp_reach.induct)
  case init
  show ?case by (simp add: addressed_def new_component_def)
next
  case (step c c')
  then show ?case using comp_step_line comp_reach_life by blast
next
  case (drain c js e)
  then show ?case by (simp add: addressed_def)
next
  case (hashing c e)
  then show ?case by (simp add: addressed_def)
qed

text \<open>
  What a line promises over any number of steps: requests join at the back and none goes.  The component's steps keep it,
  and so do the natives and workers of the host.
\<close>

locale growing_line =
  fixes step :: "'s \<Rightarrow> 's \<Rightarrow> bool" and good :: "'s \<Rightarrow> bool" and queue :: "'s \<Rightarrow> 'r list"
  assumes step_good: "good s \<Longrightarrow> step s t \<Longrightarrow> good t"
    and step_grows: "good s \<Longrightarrow> step s t \<Longrightarrow> \<exists>new. queue t = queue s @ new"
begin

lemma run_good: "step\<^sup>*\<^sup>* s t \<Longrightarrow> good s \<Longrightarrow> good t"
  by (induction rule: rtranclp_induct) (auto intro: step_good)

lemma run_grows: "step\<^sup>*\<^sup>* s t \<Longrightarrow> good s \<Longrightarrow> \<exists>new. queue t = queue s @ new"
proof (induction rule: rtranclp_induct)
  case (step y z)
  from step_grows [OF run_good [OF step.hyps(1) step.prems] step.hyps(2)] step.IH [OF step.prems] show ?case by auto
qed simp

end

interpretation comp_line: growing_line "comp_step api sapi" "\<lambda>c. comp_reach api sapi c \<and> small_counts sapi" "line h"
  for api sapi h
proof
  fix c c' assume c: "comp_reach api sapi c \<and> small_counts sapi" and st: "comp_step api sapi c c'"
  then show "comp_reach api sapi c' \<and> small_counts sapi" by (auto intro: comp_reach.step)
  from comp_step_line [OF st] comp_reach_life comp_reach_addressed c show "\<exists>new. line h c' = line h c @ new"
    by (metis append_Nil2)
qed

interpretation native_line: growing_line "native_step api sapi exec"
    "\<lambda>w. comp_reach api sapi (wd_comp w) \<and> script_acts api sapi exec \<and> small_counts sapi" "\<lambda>w. line h (wd_comp w)"
  for api sapi exec h
proof
  fix w w' assume w: "comp_reach api sapi (wd_comp w) \<and> script_acts api sapi exec \<and> small_counts sapi"
    and st: "native_step api sapi exec w w'"
  then have "steps api sapi (wd_comp w) (wd_comp w')" using native_step_steps [OF st] comp_reach_results by blast
  then show "comp_reach api sapi (wd_comp w') \<and> script_acts api sapi exec \<and> small_counts sapi"
    "\<exists>new. line h (wd_comp w') = line h (wd_comp w) @ new"
    using w steps_reach comp_line.run_grows unfolding steps_def by blast+
qed

section \<open>Properties\<close>

text \<open>
  C4: first come, first served, nothing lost, nothing doubled: after any history, one more step of the component (a native,
  a worker executing any number of its jobs, a disconnect, a restart) leaves the line of every connection exactly as it
  was, unless it is a query that passes the guards, which then joins its connection's line at the back; a tick takes from
  a line just the answered requests at its front.
\<close>

theorem queries_keep_their_line:
  assumes "comp_reach api sapi c" and "small_counts sapi" and "comp_step api sapi c c'"
  shows "((\<forall>h. line h c' = line h c) \<or>
      (\<exists>job now pend. enqueueJob now pend job c = (NoReject, c') \<and>
         (\<forall>h. line h c' = line h c @ (if h = qj_connectionHandle job \<and> answered job then [request job] else [])))) \<and>
    (\<forall>h. line h c = replies h (completed (engine c)) @
       line h (c\<lparr>engine := snd (drainCompleted (engine c))\<rparr>))"
proof -
  have "line h c = replies h (completed (engine c)) @ line h (c\<lparr>engine := snd (drainCompleted (engine c))\<rparr>)" for h
    by (simp add: line_def queue_of_def drainCompleted_def)
  with comp_step_line [OF assms(3) comp_reach_life [OF assms(1,2)] comp_reach_addressed [OF assms(1,2)]]
  show ?thesis by blast
qed


section \<open>Witnesses\<close>

text \<open>A script asks on connection 1, with the public \<open>OnLoaded\<close>; the worker executes the query.\<close>

definition ask_env :: native_env where
  "ask_env = demo_native_env\<lparr>ne_script := (\<lambda>amx. \<lparr>sc_addr = (\<lambda>p. Some (unat p)),
     sc_text = (\<lambda>a mem. if a = 0 then ''SELECT 1'' else ''OnLoaded'')\<rparr>)\<rparr>"

definition ask_job :: QueryJob where
  "ask_job = default_job\<lparr>qj_connectionHandle := 1, qj_sql := ''SELECT 1'', qj_callback := ''OnLoaded''\<rparr>"

definition ask_comp :: "(nat, nat) component" where
  "ask_comp = push_worker 1 \<lparr>cw_conn = 4, cw_jobs = []\<rparr> ask_job (wd_comp connected_world)"

definition asked_world :: "(nat, nat) world" where
  "asked_world = connected_world\<lparr>wd_comp := ask_comp\<rparr>"

definition worked_world :: "(nat, nat) world" where
  "worked_world = asked_world\<lparr>wd_comp := (case work_off tls_client one_row_client (\<lambda>j. 15) 1
     \<lparr>cw_conn = 4, cw_jobs = [ask_job]\<rparr> 1 ask_comp of Some (Found (p, c)) \<Rightarrow> c | _ \<Rightarrow> ask_comp)\<rparr>"

lemma ask_execute: "n_mysql_execute ask_env demo_exec 0 0 0 [12, 1, 0, 3] connected_world = (1, asked_world, [])"
  by (simp add: n_mysql_execute_def param_count_def query_job_def ask_env_def AmxStringParam_def submit_job_def host_enqueue_def
      enqueueJob_def checkGuards_def connected_comp addConnection_def put_conn_def new_component_def emplace_def
      assign_def entry_or_def default_guards_def isMultiStatement_def c_isspace_def default_job_def
      asked_world_def ask_comp_def ask_job_def push_worker_def Let_def)

lemma ask_query: "queryBuffered tls_client ''SELECT 1'' \<lparr>qr_sets = [], qr_execTimeMicros = 0, qr_queryString = []\<rparr>
    \<lparr>cn_mysql = Some 0, cn_connected = True\<rparr> = Some (True,
      \<lparr>qr_sets = [qb_set tls_client 0 0], qr_execTimeMicros = 0, qr_queryString = ''SELECT 1''\<rparr>,
      \<lparr>cn_mysql = Some (qb_state tls_client 1 0), cn_connected = True\<rparr>)"
proof -
  have st: "qb_status tls_client 0 0 = - 1" by (simp add: qb_status_def qb_body_def tls_client_def countdown_client_def)
  have q: "cl_real_query tls_client 0 ''SELECT 1'' = (0, 0)" by (simp add: tls_client_def countdown_client_def)
  with st qb_loop_returns [of 0 tls_client 0 "[]"] show ?thesis by (simp add: queryBuffered_def isOpen_def)
qed

lemma ask_process:
  "process_job tls_client one_row_client 15 (Some 4) ask_job (heap ask_comp) = Some (Found
     (ToSink (finish_job True 0 [] 15 \<lparr>qr_sets = [qb_set tls_client 0 0], qr_execTimeMicros = 0,
        qr_queryString = ''SELECT 1''\<rparr> ask_job),
      (heap ask_comp)\<lparr>so_conns := (so_conns (heap ask_comp))(4 \<mapsto>
        \<lparr>cn_mysql = Some (qb_state tls_client 1 0), cn_connected = True\<rparr>)\<rparr>))"
proof -
  have c: "so_conns (heap ask_comp) 4 = Some \<lparr>cn_mysql = Some 0, cn_connected = True\<rparr>"
    by (simp add: ask_comp_def push_worker_def connected_comp put_conn_def)
  have "conn_lastErrno tls_client \<lparr>cn_mysql = Some (qb_state tls_client 1 0), cn_connected = True\<rparr> = 0"
    by (simp add: conn_lastErrno_def tls_client_def countdown_client_def)
  then show ?thesis
    using c ask_query by (simp add: process_job_def run_query_def ask_job_def default_job_def hand_over_def finish_job_def)
qed

lemma ask_worked:
  "map_of (workers ask_comp) 1 = Some \<lparr>cw_conn = 4, cw_jobs = [ask_job]\<rparr>"
  "\<exists>p. work_off tls_client one_row_client (\<lambda>j. 15) 1 \<lparr>cw_conn = 4, cw_jobs = [ask_job]\<rparr> 1 (wd_comp asked_world) =
     Some (Found (p, wd_comp worked_world))"
  "map_of (workers (wd_comp worked_world)) 1 = Some \<lparr>cw_conn = 4, cw_jobs = []\<rparr>"
  "completed (engine (wd_comp worked_world)) = [finish_job True 0 [] 15 \<lparr>qr_sets = [qb_set tls_client 0 0],
     qr_execTimeMicros = 0, qr_queryString = ''SELECT 1''\<rparr> ask_job]"
proof -
  show "map_of (workers ask_comp) 1 = Some \<lparr>cw_conn = 4, cw_jobs = [ask_job]\<rparr>"
    by (simp add: ask_comp_def push_worker_def)
  show "\<exists>p. work_off tls_client one_row_client (\<lambda>j. 15) 1 \<lparr>cw_conn = 4, cw_jobs = [ask_job]\<rparr> 1 (wd_comp asked_world) =
     Some (Found (p, wd_comp worked_world))"
    by (simp add: asked_world_def worked_world_def work_off_def ask_process)
  show "map_of (workers (wd_comp worked_world)) 1 = Some \<lparr>cw_conn = 4, cw_jobs = []\<rparr>"
    by (simp add: worked_world_def work_off_def ask_process)
  have "completed (engine ask_comp) = []"
    by (simp add: ask_comp_def push_worker_def connected_comp put_conn_def addConnection_def new_component_def
        new_engine_def Let_def)
  then show "completed (engine (wd_comp worked_world)) = [finish_job True 0 [] 15 \<lparr>qr_sets = [qb_set tls_client 0 0],
     qr_execTimeMicros = 0, qr_queryString = ''SELECT 1''\<rparr> ask_job]"
    by (simp add: worked_world_def work_off_def ask_process push_completed_def)
qed

lemma connected_reach: "host_reach tls_client one_row_client demo_exec connected_world"
proof -
  have "host_reach tls_client one_row_client demo_exec demo_world"
    by (rule host_reach.start) (simp add: demo_world_def)
  then show ?thesis using connected_step by (rule host_reach.step)
qed

lemma worked_step: "native_step tls_client one_row_client demo_exec asked_world worked_world"
proof -
  obtain p where p: "work_off tls_client one_row_client (\<lambda>j. 15) 1 \<lparr>cw_conn = 4, cw_jobs = [ask_job]\<rparr> 1
      (wd_comp asked_world) = Some (Found (p, wd_comp worked_world))"
    using ask_worked(2) by blast
  have "asked_world\<lparr>wd_comp := wd_comp worked_world\<rparr> = worked_world" by (simp add: worked_world_def)
  moreover have "map_of (workers (wd_comp asked_world)) 1 = Some \<lparr>cw_conn = 4, cw_jobs = [ask_job]\<rparr>"
    using ask_worked(1) by (simp add: asked_world_def)
  ultimately show ?thesis using native_step.work [OF _ p, of demo_exec] by simp
qed

lemma worked_reach: "host_reach tls_client one_row_client demo_exec worked_world"
  using host_reach.step [OF host_reach.step [OF connected_reach host_step.native [OF native_step.execute [OF ask_execute]]]
      host_step.native [OF worked_step]] .

theorem queries_keep_their_line_witness:
  "line 1 (wd_comp worked_world) = request ask_job # line 1 (taken (wd_comp worked_world))"
proof -
  from queries_keep_their_line [OF host_reach_comp [OF worked_reach demo_acts one_row_small] one_row_small comp_step.deactivate]
  have "line 1 (wd_comp worked_world) = replies 1 (completed (engine (wd_comp worked_world))) @
      line 1 (taken (wd_comp worked_world))" unfolding taken_def by blast
  then show ?thesis
    by (simp add: ask_worked(4) finish_job_def ask_job_def default_job_def request_def)
qed


end
