(* ===== verification/Ownership.thy ===== *)
theory Ownership
  imports Delivery
begin

text \<open>
  The converse of \<open>Lifetime\<close>: there, whatever is registered is alive; here, whatever is alive is owned.  Every connection
  object belongs to a handle, and every prepared statement to a handle or to a teardown job on its way to a worker; so
  nothing is left behind when the component is restarted or freed.
\<close>

declare map_of_eq_Some_iff [simp del] Some_eq_map_of_iff [simp del]

section \<open>Owners\<close>

text \<open>The statements whose teardown waits in some queue.\<close>

definition closing :: "('m, 'st) component \<Rightarrow> nat set" where
  "closing c = (\<Union>h. closes (queue_of h c))"

definition owned :: "('m, 'st) component \<Rightarrow> bool" where
  "owned c \<longleftrightarrow> dom (so_conns (heap c)) \<subseteq> ran (map_of (connections c)) \<and>
     dom (so_stmts (heap c)) \<subseteq> ran (map_of (statements c)) \<union> closing c"

lemma closing_same: "workers d = workers c \<Longrightarrow> closing d = closing c"
  by (simp add: closing_def queue_of_def)

lemma owned_frame:
  "owned c \<Longrightarrow> connections d = connections c \<Longrightarrow> workers d = workers c \<Longrightarrow> statements d = statements c \<Longrightarrow>
    dom (so_conns (heap d)) \<subseteq> dom (so_conns (heap c)) \<Longrightarrow> dom (so_stmts (heap d)) \<subseteq> dom (so_stmts (heap c)) \<Longrightarrow> owned d"
  using closing_same [of d c] unfolding owned_def by (metis subset_trans)

lemma owned_same: "same_life c d \<Longrightarrow> owned c \<Longrightarrow> owned d"
  by (erule owned_frame) (simp_all add: same_life_def)

section \<open>Workers\<close>

text \<open>What a worker's job does to the heap: a teardown removes its statement, nothing else adds or removes an object.\<close>

lemma run_jobs_heap:
  "run_jobs api sapi elapsed ca js (p, e, s) = Some (Found (p', e', s')) \<Longrightarrow>
     dom (so_conns s') = dom (so_conns s) \<and> dom (so_stmts s') = dom (so_stmts s) - closes js"
proof (induction js arbitrary: p e s)
  case (Cons j js)
  then obtain d s1 where d: "process_job api sapi (elapsed j) (Some ca) j s = Some (Found (d, s1))"
    by (auto split: option.splits access.splits)
  from d have "dom (so_conns s1) = dom (so_conns s) \<and> dom (so_stmts s1) = dom (so_stmts s) - closes [j]"
  proof (cases rule: process_job_cases)
    case (stmt a ca' job')
    from stmt(4) show ?thesis by (rule run_statement_cases) (use stmt(1) in auto)
  next
    case (plain ca' job')
    from plain(4) show ?thesis by (rule run_query_cases) (use plain(1) in auto)
  qed auto
  moreover have "dom (so_conns s') = dom (so_conns s1) \<and> dom (so_stmts s') = dom (so_stmts s1) - closes js"
    using Cons.prems d Cons.IH [of _ _ s1] by (cases d) auto
  ultimately show ?case by (auto split: option.splits)
qed simp

lemma work_off_owned:
  assumes run: "work_off api sapi elapsed h w n c = Some (Found (p, c'))" and o: "owned c"
    and q: "closes (queue_of h c) \<subseteq> closes (cw_jobs w)"
  shows "owned c'"
proof -
  from run obtain e s where x: "run_jobs api sapi elapsed (cw_conn w) (take n (cw_jobs w)) (None, engine c, heap c) =
        Some (Found (p, e, s))"
      and s: "c' = c\<lparr>engine := e, heap := s, workers := assign h (w\<lparr>cw_jobs := drop n (cw_jobs w)\<rparr>) (workers c)\<rparr>"
    by (rule work_off_split)
  have heap: "dom (so_conns s) = dom (so_conns (heap c))"
      "dom (so_stmts s) = dom (so_stmts (heap c)) - closes (take n (cw_jobs w))"
    using run_jobs_heap [OF x] by blast+
  have split: "closes (cw_jobs w) = closes (take n (cw_jobs w)) \<union> closes (drop n (cw_jobs w))"
    using closes_simps(3) [of "take n (cw_jobs w)" "drop n (cw_jobs w)"] by simp
  have "closing c \<subseteq> closing c' \<union> closes (take n (cw_jobs w))"
  proof
    fix a assume "a \<in> closing c"
    then obtain k where k: "a \<in> closes (queue_of k c)" by (auto simp: closing_def)
    have "queue_of k c' = (if k = h then drop n (cw_jobs w) else queue_of k c)" by (simp add: s queue_of_def)
    moreover have "closes (queue_of k c') \<subseteq> closing c'" by (auto simp: closing_def)
    ultimately show "a \<in> closing c' \<union> closes (take n (cw_jobs w))"
      using k q split by (cases "k = h") auto
  qed
  with o heap show ?thesis unfolding owned_def s by auto
qed

lemma queue_of_Some: "map_of (workers c) h = Some w \<Longrightarrow> queue_of h c = cw_jobs w"
  by (simp add: queue_of_def)

lemma push_worker_owned:
  assumes w: "map_of (workers c) h = Some w"
    and conns: "dom (so_conns (heap c)) \<subseteq> ran (map_of (connections c))"
    and stmts: "dom (so_stmts (heap c)) \<subseteq> ran (map_of (statements c)) \<union> closing c \<union> closes [job]"
  shows "owned (push_worker h w job c)"
proof -
  let ?d = "push_worker h w job c"
  have q: "queue_of k ?d = queue_of k c @ (if k = h then [job] else [])" for k
    using w by (simp add: queue_of_def push_worker_def)
  have "closing ?d = closing c \<union> closes [job]"
    unfolding closing_def q by (auto split: if_splits)
  with conns stmts show ?thesis unfolding owned_def by (auto simp: push_worker_def)
qed

lemma owned_defs: "owned c \<Longrightarrow> dom (so_conns (heap c)) \<subseteq> ran (map_of (connections c))"
  "owned c \<Longrightarrow> dom (so_stmts (heap c)) \<subseteq> ran (map_of (statements c)) \<union> closing c"
  by (simp_all add: owned_def)

lemma enqueueJob_owned:
  assumes e: "enqueueJob now pend job c = (r, c')" and o: "owned c"
  shows "owned c'"
  using e
proof (cases rule: enqueueJob_cases)
  case unknown
  with o show ?thesis by simp
next
  case (rejected w)
  with o owned_same [OF checkGuards_life] show ?thesis by blast
next
  case (accepted w c1)
  have o1: "owned c1" using owned_same [OF checkGuards_life [OF accepted(3)] o] .
  have "map_of (workers c1) (qj_connectionHandle job) = Some w"
    using accepted(1) checkGuards_frame [OF accepted(3)] by simp
  from push_worker_owned [OF this owned_defs(1) [OF o1]] owned_defs(2) [OF o1] accepted(4) show ?thesis by blast
qed

lemma runJobSync_owned:
  assumes run: "runJobSync api sapi elapsed now pend job c = Some (Found (p, r, c'))" and o: "owned c"
  shows "owned c'"
  using run
proof (cases rule: runJobSync_cases)
  case unknown
  with o show ?thesis by simp
next
  case (rejected w)
  then show ?thesis using owned_same [OF checkGuards_life o] by blast
next
  case (ran w c1 v)
  have o1: "owned c1" using owned_same [OF checkGuards_life [OF ran(2)] o] .
  have "queue_of (qj_connectionHandle job) c1 = cw_jobs w"
    using ran(1) checkGuards_frame [OF ran(2)] by (simp add: queue_of_def)
  then show ?thesis by (intro work_off_owned [OF ran(4) o1]) (simp add: ran(3))
qed

lemma stop_worker_owned:
  assumes run: "stop_worker api sapi elapsed h w c = Some (Found c')" and o: "owned c"
    and w: "map_of (workers c) h = Some w"
  shows "owned c'"
  using run by (rule stop_worker_split) (use work_off_owned [OF _ o] queue_of_Some [OF w] in auto)

section \<open>Statements and connections\<close>

lemma ran_erase: "map_of m h = Some a \<Longrightarrow> ran (map_of m) \<subseteq> insert a (ran ((map_of m)(h := None)))"
proof
  fix x assume m: "map_of m h = Some a" and "x \<in> ran (map_of m)"
  then obtain k where "map_of m k = Some x" by (auto simp: ran_def)
  with m show "x \<in> insert a (ran ((map_of m)(h := None)))" by (cases "k = h") (auto intro!: ranI)
qed

lemma removeStatement_owned:
  assumes "removeStatement h c = Found (b, c')" and o: "owned c"
  shows "owned c'"
  using assms(1)
proof (cases rule: removeStatement_cases)
  case absent
  with o show ?thesis by simp
next
  case (freed a)
  have "closing c' = closing c" by (rule closing_same) (simp add: freed(2) put_stmt_def)
  moreover note ran_erase [OF freed(1)]
  ultimately show ?thesis using o unfolding owned_def freed(2) by (auto simp: put_stmt_def)
next
  case (queued a k w)
  let ?c = "c\<lparr>statements := erase h (statements c)\<rparr>"
    and ?job = "default_job\<lparr>qj_connectionHandle := k, qj_statementToClose := Some a\<rparr>"
  have "closing ?c = closing c" by (rule closing_same) simp
  moreover note ran_erase [OF queued(1)]
  ultimately have "dom (so_stmts (heap ?c)) \<subseteq> ran (map_of (statements ?c)) \<union> closing ?c \<union> closes [?job]"
    using owned_defs(2) [OF o] by auto
  then show ?thesis
    unfolding queued(3) using queued(2) owned_defs(1) [OF o] by (intro push_worker_owned) simp_all
qed

lemma remove_statements_owned: "remove_statements hs c = Found c' \<Longrightarrow> owned c \<Longrightarrow> owned c'"
proof (induction hs arbitrary: c)
  case (Cons h hs)
  then obtain b c1 where "removeStatement h c = Found (b, c1)" "remove_statements hs c1 = Found c'"
    by (cases "removeStatement h c") auto
  with Cons removeStatement_owned show ?case by blast
qed simp

lemma clearStatements_owned:
  assumes run: "clearStatements c = Found c'" and o: "owned c" and l: "life c"
  shows "owned c'"
proof -
  from remove_statements_life [OF l, of "map fst (statements c)"] obtain c1 where
    c1: "remove_statements (map fst (statements c)) c = Found c1"
      "\<forall>k. map_of (statements c1) k = (if k \<in> set (map fst (statements c)) then None else map_of (statements c) k)" by blast
  have "map_of (statements c) k = None" if "k \<notin> set (map fst (statements c))" for k
    using that by (simp add: map_of_eq_None_iff)
  with c1(2) have "map_of (statements c1) = Map.empty" by fastforce
  moreover have "c' = c1\<lparr>statements := []\<rparr>" using run c1(1) by (simp add: clearStatements_def)
  moreover have "owned c1" using remove_statements_owned [OF c1(1) o] .
  ultimately show ?thesis using closing_same [of c' c1] unfolding owned_def by simp
qed

lemma drop_connection_owned:
  assumes d: "drop_connection h (c\<lparr>workers := erase h (workers c)\<rparr>) = (b, c')" and o: "owned c"
    and idle: "queue_of h c = []"
  shows "owned c'"
proof -
  have "workers c' = erase h (workers c)"
    using d by (auto simp: drop_connection_def put_conn_def Let_def split: option.splits)
  then have "queue_of k c' = queue_of k c" for k
    using idle by (cases "k = h") (simp_all add: queue_of_def)
  then have cl: "closing c' = closing c" by (simp add: closing_def)
  show ?thesis
  proof (cases "map_of (connections c) h")
    case None
    with d have "heap c' = heap c" "connections c' = connections c" "statements c' = statements c"
      by (auto simp: drop_connection_def Let_def)
    with o cl show ?thesis unfolding owned_def by simp
  next
    case (Some a)
    with d have "heap c' = (heap c)\<lparr>so_conns := (so_conns (heap c))(a := None)\<rparr>" "statements c' = statements c"
        "map_of (connections c') = (map_of (connections c))(h := None)"
      by (auto simp: drop_connection_def put_conn_def Let_def)
    with ran_erase [OF Some] o cl show ?thesis unfolding owned_def by auto
  qed
qed

lemma removeConnection_owned:
  assumes run: "removeConnection api sapi elapsed h c = Some (Found (b, c'))" and o: "owned c" and a: "addressed c"
    and l: "life c"
  shows "owned c'"
  using run
proof (cases rule: removeConnection_cases)
  case unknown
  with l have "map_of (connections c) h = None" unfolding life_def workers_match_def by (metis option.simps(8))
  with unknown have "same_life c c'" by (auto simp: drop_connection_def same_life_def Let_def)
  then show ?thesis using o by (rule owned_same)
next
  case (stopped w c1)
  have "queue_of h c1 = []" using stop_worker_line [OF stopped(2) a stopped(1)] by (simp add: queue_of_def)
  with stopped(3) stop_worker_owned [OF stopped(2) o stopped(1)] show ?thesis by (rule drop_connection_owned [rotated 2, rotated])
qed

lemma stop_all_owned:
  "stop_all api sapi elapsed ws c = Some (Found c') \<Longrightarrow> owned c \<Longrightarrow> addressed c \<Longrightarrow> distinct (map fst ws) \<Longrightarrow>
    (\<forall>(h, w) \<in> set ws. map_of (workers c) h = Some w) \<Longrightarrow> owned c'"
proof (induction ws arbitrary: c)
  case (Cons hw ws)
  obtain h w where hw: "hw = (h, w)" by (cases hw)
  from Cons.prems(1) [unfolded hw] obtain c1 where c1: "stop_worker api sapi elapsed h w c = Some (Found c1)"
      "stop_all api sapi elapsed ws c1 = Some (Found c')"
    by (rule stop_all_split)
  have w: "map_of (workers c) h = Some w" using Cons.prems(5) hw by simp
  note s = stop_worker_line [OF c1(1) Cons.prems(3) w]
  have "\<forall>(k, v) \<in> set ws. map_of (workers c1) k = Some v"
    using Cons.prems(4,5) hw s by (force simp: image_iff)
  with Cons.IH [OF c1(2) stop_worker_owned [OF c1(1) Cons.prems(2) w]] s Cons.prems(4) show ?case
    by (simp add: same_line_def)
qed simp

lemma free_conns_heap:
  "dom (so_conns (heap (free_conns m c))) = dom (so_conns (heap c)) - snd ` set m"
  by (induction m c rule: free_conns.induct) (auto simp: put_conn_def split: if_splits)

text \<open>Once every worker is stopped and every connection freed, no connection is alive and no teardown is left.\<close>

lemma clearConnections_owned:
  assumes run: "clearConnections api sapi elapsed c = Some (Found c')" and o: "owned c" and a: "addressed c"
    and l: "distinct (map fst (workers c))"
  shows "owned c' \<and> so_conns (heap c') = Map.empty \<and> workers c' = [] \<and> dom (so_stmts (heap c')) \<subseteq> ran (map_of (statements c'))"
proof -
  from run obtain c1 where c1: "stop_all api sapi elapsed (workers c) c = Some (Found c1)"
      and d: "c' = (free_conns (connections c1) (c1\<lparr>workers := []\<rparr>))
        \<lparr>connections := [], multiStatementAllowed := [], guards := [], rateLog := []\<rparr>"
    by (rule clearConnections_split)
  have ws: "\<forall>(h, w) \<in> set (workers c). map_of (workers c) h = Some w" using l by (auto simp: map_of_eq_Some_iff)
  have o1: "owned c1" using stop_all_owned [OF c1 o a l ws] .
  have "queue_of h c = []" if "h \<notin> fst ` set (workers c)" for h
    using that by (simp add: queue_of_def map_of_eq_None_iff [THEN iffD2])
  with stop_all_line [OF c1 a l ws] have "closing c1 = {}" by (simp add: closing_def)
  moreover have "ran (map_of (connections c1)) \<subseteq> snd ` set (connections c1)"
    by (auto simp: ran_def dest: map_of_SomeD intro: rev_image_eqI)
  moreover note fr = free_conns_frame [of "connections c1" "c1\<lparr>workers := []\<rparr>"]
    and fh = free_conns_heap [of "connections c1" "c1\<lparr>workers := []\<rparr>"]
  moreover have c': "heap c' = heap (free_conns (connections c1) (c1\<lparr>workers := []\<rparr>))" "workers c' = []"
      "statements c' = statements c1" "connections c' = []"
    using fr by (auto simp: d)
  ultimately have s: "dom (so_stmts (heap c')) \<subseteq> ran (map_of (statements c'))" "dom (so_conns (heap c')) = {}"
    using o1 unfolding owned_def by auto
  with c'(2-4) show ?thesis unfolding owned_def by auto
qed

section \<open>Restarting and freeing\<close>

lemma clear_connections_all:
  assumes n: "small_counts sapi" and l: "life c" and o: "owned c" and a: "addressed c" and s: "statements c = []"
    and run: "clearConnections api sapi elapsed c = Some r"
  shows "\<exists>c'. r = Found c' \<and> life c' \<and> owned c' \<and> so_conns (heap c') = Map.empty \<and> so_stmts (heap c') = Map.empty \<and>
    workers c' = [] \<and> connections c' = [] \<and> statements c' = []"
proof -
  from clearConnections_life [OF n l run] obtain c' where c': "r = Found c'" "life c'" "statements c' = []"
      "connections c' = []" "workers c' = []" using s by auto
  have "distinct (map fst (workers c))" using l by (simp add: life_def)
  from clearConnections_owned [OF run [unfolded c'(1)] o a this] c' show ?thesis by (simp add: dom_eq_empty_conv)
qed

lemma clearing_start:
  assumes l: "life c" and o: "owned c" and a: "addressed c"
    and s: "same_life c c0" "completed (engine c0) = completed (engine c)"
  shows "\<exists>c1. clearStatements c0 = Found c1 \<and> life c1 \<and> owned c1 \<and> addressed c1 \<and> statements c1 = []"
proof -
  have l0: "life c0" using l life_same [OF s(1)] by simp
  from clearStatements_life [OF l0] obtain c1 where c1: "clearStatements c0 = Found c1" "life c1" "statements c1 = []"
    by blast
  have "addressed c0" using a s by (simp add: addressed_def same_life_def)
  from clearStatements_line [OF c1(1) this] clearStatements_owned [OF c1(1) owned_same [OF s(1) o] l0] c1
  show ?thesis by (simp add: same_line_def)
qed

lemma reset_all:
  assumes n: "small_counts sapi" and l: "life c" and o: "owned c" and a: "addressed c"
    and run: "reset_component api sapi elapsed c = Some r"
  shows "\<exists>c'. r = Found c' \<and> owned c' \<and> so_conns (heap c') = Map.empty \<and> so_stmts (heap c') = Map.empty \<and> workers c' = []"
proof -
  let ?c0 = "(clearActiveCache c)\<lparr>savedCaches := [], nextCache := 1\<rparr>"
  from clearing_start [OF l o a, of ?c0] obtain c1 where c1: "clearStatements ?c0 = Found c1" "life c1" "owned c1"
      "addressed c1" "statements c1 = []"
    by (auto simp: same_life_def clearActiveCache_def)
  let ?c2 = "(clearModels (c1\<lparr>nextStatement := 1\<rparr>))\<lparr>nextModel := 1\<rparr>"
  from run c1(1) obtain x where x: "clearConnections api sapi elapsed ?c2 = Some x"
      "r = access_bind x (\<lambda>c. Found ((clearOptions c)\<lparr>nextHandle := 1, nextOptions := 1\<rparr>))"
    by (auto simp: reset_component_def Let_def)
  have "life ?c2" using c1(2,5) by (auto simp: life_defs reg_ok_def clearModels_def)
  moreover have "owned ?c2" by (rule owned_frame [OF c1(3)]) (simp_all add: clearModels_def)
  moreover have "addressed ?c2" using c1(4) by (simp add: addressed_def clearModels_def)
  ultimately obtain c3 where c3: "x = Found c3" "owned c3" "so_conns (heap c3) = Map.empty" "so_stmts (heap c3) = Map.empty"
      "workers c3 = []"
    using clear_connections_all [OF n _ _ _ _ x(1)] c1(5) by (auto simp: clearModels_def)
  have "owned ((clearOptions c3)\<lparr>nextHandle := 1, nextOptions := 1\<rparr>)"
    by (rule owned_frame [OF c3(2)]) (simp_all add: clearOptions_def)
  with x(2) c3 show ?thesis by (simp add: clearOptions_def)
qed

lemma free_all:
  assumes n: "small_counts sapi" and l: "life c" and o: "owned c" and a: "addressed c"
    and run: "free_component api sapi elapsed c = Some r"
  shows "\<exists>c'. r = Found c' \<and> life c' \<and> owned c' \<and> so_conns (heap c') = Map.empty \<and> so_stmts (heap c') = Map.empty \<and>
    workers c' = [] \<and> connections c' = [] \<and> models c' = [] \<and> options c' = [] \<and> savedCaches c' = [] \<and> activeCache c' = None"
proof -
  let ?c0 = "(clearActiveCache c)\<lparr>savedCaches := []\<rparr>"
  from clearing_start [OF l o a, of ?c0] obtain c1 where c1: "clearStatements ?c0 = Found c1" "life c1" "owned c1"
      "addressed c1" "statements c1 = []"
    by (auto simp: same_life_def clearActiveCache_def)
  from run c1(1) obtain x where x: "clearConnections api sapi elapsed (clearModels c1) = Some x"
      "r = access_bind x (\<lambda>c. Found (clearOptions c))"
    by (auto simp: free_component_def)
  have "life (clearModels c1)" using c1(2,5) by (auto simp: life_defs reg_ok_def clearModels_def)
  moreover have "owned (clearModels c1)" by (rule owned_frame [OF c1(3)]) (simp_all add: clearModels_def)
  moreover have "addressed (clearModels c1)" using c1(4) by (simp add: addressed_def clearModels_def)
  ultimately obtain c3 where c3: "x = Found c3" "life c3" "owned c3" "so_conns (heap c3) = Map.empty"
      "so_stmts (heap c3) = Map.empty" "workers c3 = []" "connections c3 = []"
    using clear_connections_all [OF n _ _ _ _ x(1)] c1(5) by (auto simp: clearModels_def)
  have k: "keeps_script ?c0 c1" "keeps_script (clearModels c1) c3"
    using script.R_clearStatements [OF c1(1)] script.R_clearConnections x(1) c3(1) by blast+
  have "life (clearOptions c3)" using c3(2) life_same [of c3 "clearOptions c3"] by (simp add: same_life_def clearOptions_def)
  moreover have "owned (clearOptions c3)" by (rule owned_frame [OF c3(3)]) (simp_all add: clearOptions_def)
  ultimately show ?thesis using x(2) c3 k by (simp add: clearOptions_def clearModels_def clearActiveCache_def keeps_script_def)
qed

section \<open>Every history\<close>

lemma addConnection_owned:
  assumes o: "owned c" and m: "connections_ok c" "workers_match c"
  shows "owned (snd (addConnection (Some a) multi (put_conn a (Some conn) c)))" (is "owned ?d")
proof -
  have none: "map_of (connections c) (nextHandle c) = None" using m(1) by (simp add: reg_ok_fresh)
  with m(2) have "map_of (workers c) (nextHandle c) = None" unfolding workers_match_def by (metis option.map_disc_iff)
  then have "queue_of k ?d = queue_of k c" for k
    by (simp add: queue_of_def addConnection_def put_conn_def Let_def)
  then have "closing ?d = closing c" by (simp add: closing_def)
  moreover have "map_of (connections ?d) = (map_of (connections c))(nextHandle c \<mapsto> a)"
    using none by (auto simp: addConnection_def put_conn_def Let_def)
  moreover have "ran ((map_of (connections c))(nextHandle c \<mapsto> a)) = insert a (ran (map_of (connections c)))"
    using none by (rule ran_map_upd)
  ultimately show ?thesis
    using o unfolding owned_def by (auto simp: addConnection_def put_conn_def Let_def)
qed

lemma addStatement_owned:
  assumes o: "owned c" and m: "statements_ok c"
  shows "owned (snd (addStatement (Some a) (put_stmt a (Some p) c)))" (is "owned ?d")
proof -
  have none: "map_of (statements c) (nextStatement c) = None" using m by (simp add: reg_ok_fresh)
  then have "map_of (statements ?d) = (map_of (statements c))(nextStatement c \<mapsto> a)"
    by (auto simp: addStatement_def put_stmt_def)
  moreover have "ran ((map_of (statements c))(nextStatement c \<mapsto> a)) = insert a (ran (map_of (statements c)))"
    using none by (rule ran_map_upd)
  moreover have "closing ?d = closing c" by (rule closing_same) (simp add: addStatement_def put_stmt_def)
  ultimately show ?thesis using o unfolding owned_def by (auto simp: addStatement_def put_stmt_def)
qed

lemma comp_step_owned:
  assumes st: "comp_step api sapi c c'" and n: "small_counts sapi" and l: "life c" and a: "addressed c" and o: "owned c"
  shows "owned c'"
  using st
proof cases
  case (connect k multi conn)
  then show ?thesis using addConnection_owned [OF o] l by (simp add: life_def)
next
  case (disconnect elapsed h b)
  then show ?thesis using removeConnection_owned o a l by blast
next
  case (prepare k h ca sql)
  then show ?thesis using addStatement_owned [OF o] l by (simp add: life_def)
next
  case (bind_param h k p q i v x t)
  then show ?thesis by (intro owned_frame [OF o]) (auto simp: put_stmt_def)
next
  case (stmt_close h b)
  then show ?thesis using removeStatement_owned o by blast
next
  case (enqueue job now pend r)
  then show ?thesis using enqueueJob_owned o by blast
next
  case (sync job elapsed now pend x r)
  then show ?thesis using runJobSync_owned o by blast
next
  case (work h w elapsed k x)
  then show ?thesis using work_off_owned [OF work(2) o] queue_of_Some [OF work(1)] by simp
next
  case (use_conn h k conn)
  then show ?thesis using life_conn [OF l, of h k] by (intro owned_frame [OF o]) (auto simp: put_conn_def)
next
  case (restart elapsed)
  then show ?thesis using reset_all [OF n l o a] by blast
next
  case (activate r)
  then show ?thesis by (intro owned_frame [OF o]) (simp_all add: setActiveCache_def)
next
  case deactivate
  then show ?thesis by (intro owned_frame [OF o]) (simp_all add: clearActiveCache_def)
next
  case (select i)
  then show ?thesis by (intro owned_frame [OF o]) (simp_all add: setActiveResultIndex_def split: option.splits)
next
  case retain
  then show ?thesis by (intro owned_frame [OF o]) (simp_all add: saveActiveCache_def split: option.splits)
next
  case (reactivate i)
  then show ?thesis by (intro owned_frame [OF o]) (simp_all add: activateSavedCache_def split: option.splits)
next
  case (release i)
  then show ?thesis by (intro owned_frame [OF o]) (simp_all add: deleteSavedCache_def)
next
  case internal
  then show ?thesis using owned_same o by blast
qed

lemma comp_reach_owned: "comp_reach api sapi c \<Longrightarrow> small_counts sapi \<Longrightarrow> owned c"
proof (induction rule: comp_reach.induct)
  case init
  show ?case by (simp add: owned_def new_component_def)
next
  case (step c c')
  then show ?case using comp_step_owned comp_reach_life comp_reach_addressed by blast
next
  case (drain c js e)
  then have "owned c" by simp
  then show ?case by (rule owned_frame) simp_all
next
  case (hashing c e)
  then have "owned c" by simp
  then show ?case by (rule owned_frame) simp_all
qed

section \<open>Properties\<close>

text \<open>
  C23: nothing leaks: after any history of native calls, ticks, restarts and worker progress every live connection object
  belongs to a handle a script can close, and every live prepared statement to a handle or to a teardown job queued on a
  worker; and a restart, which never reaches a freed object, leaves no connection and no statement alive.
\<close>

theorem nothing_leaks:
  assumes "host_reach api sapi exec w" and "script_acts api sapi exec" and "small_counts sapi"
  defines "c \<equiv> wd_comp w"
  shows "(so_conns (heap c) a \<noteq> None \<longrightarrow> (\<exists>h. getConnection h c = Some a)) \<and>
    (so_stmts (heap c) b \<noteq> None \<longrightarrow> (\<exists>h. getStatement h c = Some b) \<or>
       (\<exists>h q. map_of (workers c) h = Some q \<and> (\<exists>j \<in> set (cw_jobs q). qj_statementToClose j = Some b))) \<and>
    (\<forall>r. reset_component api sapi elapsed c = Some r \<longrightarrow>
       (\<exists>c'. r = Found c' \<and> so_conns (heap c') = Map.empty \<and> so_stmts (heap c') = Map.empty \<and> workers c' = []))"
proof -
  have r: "comp_reach api sapi c" using host_reach_comp [OF assms(1-3)] by (simp add: c_def)
  have o: "owned c" using comp_reach_owned [OF r assms(3)] .
  have "\<exists>h. getConnection h c = Some a" if "so_conns (heap c) a \<noteq> None"
    using o that by (auto simp: owned_def getConnection_def ran_def)
  moreover have "(\<exists>h. getStatement h c = Some b) \<or>
       (\<exists>h q. map_of (workers c) h = Some q \<and> (\<exists>j \<in> set (cw_jobs q). qj_statementToClose j = Some b))"
    if "so_stmts (heap c) b \<noteq> None"
  proof -
    have "b \<in> ran (map_of (statements c)) \<union> closing c" using owned_defs(2) [OF o] that by auto
    then show ?thesis
    proof
      assume "b \<in> closing c"
      then obtain h where h: "b \<in> closes (queue_of h c)" by (auto simp: closing_def)
      then obtain q where "map_of (workers c) h = Some q" by (cases "map_of (workers c) h") (auto simp: queue_of_def)
      with h show ?thesis by (auto simp: queue_of_def closes_def)
    qed (auto simp: getStatement_def ran_def)
  qed
  moreover note reset_all [OF assms(3) comp_reach_life [OF r assms(3)] o comp_reach_addressed [OF r assms(3)]]
  ultimately show ?thesis by blast
qed

theorem nothing_leaks_witness:
  "so_stmts (heap (wd_comp prepared_world)) 5 \<noteq> None \<and> (\<exists>h. getConnection h (wd_comp prepared_world) = Some 4)"
proof -
  have "so_stmts (heap (wd_comp prepared_world)) 5 \<noteq> None" "so_conns (heap (wd_comp prepared_world)) 4 \<noteq> None"
    by (simp_all add: prepared_world_def mysql_prepare_def connected_comp getConnection_def put_conn_def addConnection_def
        new_component_def emplace_def valid_def new_statement_def addStatement_def put_stmt_def Let_def)
  with nothing_leaks [OF prepared_reach demo_acts one_row_small, of 4] show ?thesis by blast
qed

end
