(* ===== verification/Lifecycle.thy ===== *)
theory Lifecycle
  imports Ownership
begin

text \<open>
  The component's life in the server: the entry point, the singleton, the callbacks open.mp makes (\<^verbatim>\<open>onLoad\<close>,
  \<^verbatim>\<open>onInit\<close>, \<^verbatim>\<open>onFree\<close>, the loading and unloading of scripts, \<^verbatim>\<open>free\<close>) and the destructor, with the
  table of natives each script gets.  What the component asks of the server is recorded as a list of calls; the server
  itself is the environment.
\<close>

declare map_of_eq_Some_iff [simp del] Some_eq_map_of_iff [simp del]

section \<open>The table of natives\<close>

text \<open>
  \<^verbatim>\<open>kClassicNatives\<close>, up to its terminating entry: each name with what a call of its function does, the answer
  cell, the world after it and the publics it has called.  \<open>Undefined_Behaviour\<close> is following a dangling pointer.
\<close>

definition quiet :: "(cell \<times> ('m, 'st) world) \<Rightarrow> cell \<times> ('m, 'st) world \<times> amx_call list" where
  "quiet r = (fst r, snd r, [])"

definition quiet_access ::
    "(cell \<times> ('m, 'st) world) access \<Rightarrow> (cell \<times> ('m, 'st) world \<times> amx_call list) access" where
  "quiet_access r = access_bind r (\<lambda>x. Found (quiet x))"

definition kClassicNatives ::
    "native_env \<Rightarrow> ('m, 'st) script_exec \<Rightarrow> 'm client \<Rightarrow> (string \<Rightarrow> cell) \<Rightarrow> nat \<Rightarrow> int \<Rightarrow> int \<Rightarrow> params
      \<Rightarrow> ('m, 'st) world \<Rightarrow> (string \<times> (cell \<times> ('m, 'st) world \<times> amx_call list) access) list" where
  "kClassicNatives env exec api atof amx now pend params w =
    [(''mysql_config_set'', case n_mysql_config_set (ne_script env amx) (wd_mem w) params (wd_comp w) of
        (r, c) \<Rightarrow> Found (if r then 1 else 0, w\<lparr>wd_comp := c\<rparr>, [])),
     (''mysql_execute'', Found (n_mysql_execute env exec amx now pend params w)),
     (''mysql_execute_for'', Found (n_mysql_execute_for env exec amx now pend params w)),
     (''mysql_execute_file'', Found (n_mysql_execute_file env exec amx now pend params w)),
     (''mysql_format'', quiet_access (n_mysql_format env api amx params w)),
     (''mysql_stmt_execute'', n_mysql_stmt_execute env exec amx now pend params w),
     (''mysql_vector_to_string'', Found (quiet (n_mysql_vector_to_string env amx params w))),
     (''mysql_string_to_vector'', Found (quiet (n_mysql_string_to_vector env atof amx params w))),
     (''mysql_vector_dim'', Found (n_mysql_vector_dim env atof amx params w, w, [])),
     (''mysql_hash'', Found (quiet (n_mysql_hash_password (ne_script env amx) params w))),
     (''mysql_verify'', Found (quiet (n_mysql_verify_password (ne_script env amx) params w))),
     (''mysql_model_find'', quiet_access (n_mysql_model_find env api amx now pend params w)),
     (''mysql_model_insert'', quiet_access (n_mysql_model_insert env api amx now pend params w)),
     (''mysql_model_update'', quiet_access (n_mysql_model_update env api amx now pend params w)),
     (''mysql_model_delete'', quiet_access (n_mysql_model_delete env api amx now pend params w)),
     (''mysql_model_save'', quiet_access (n_mysql_model_save env api amx now pend params w))]"

definition classic_names :: "string list" where
  "classic_names = [''mysql_config_set'', ''mysql_execute'', ''mysql_execute_for'', ''mysql_execute_file'',
     ''mysql_format'', ''mysql_stmt_execute'', ''mysql_vector_to_string'', ''mysql_string_to_vector'',
     ''mysql_vector_dim'', ''mysql_hash'', ''mysql_verify'', ''mysql_model_find'', ''mysql_model_insert'',
     ''mysql_model_update'', ''mysql_model_delete'', ''mysql_model_save'']"

lemma classic_names_eq: "map fst (kClassicNatives env exec api atof amx now pend params w) = classic_names"
  by (simp add: kClassicNatives_def classic_names_def)

lemma ModelExecute_found:
  "life (wd_comp w) \<Longrightarrow> \<exists>x v. ModelExecute env api amx now pend params op w = Found (x, v)"
  by (auto simp: ModelExecute_def getConnection_def Let_def split_beta dest: life_conn split: option.split)

lemma model_save_found:
  "life (wd_comp w) \<Longrightarrow> \<exists>x v. n_mysql_model_save env api amx now pend params w = Found (x, v)"
  using ModelExecute_found [of w env api amx now pend params] by (simp add: n_mysql_model_save_def split: option.split)

lemma format_found: "life (wd_comp w) \<Longrightarrow> \<exists>x v. n_mysql_format env api amx params w = Found (x, v)"
  by (auto simp: n_mysql_format_def getConnection_def Let_def dest: life_conn split: option.split)

lemma stmt_execute_found:
  "life (wd_comp w) \<Longrightarrow> \<exists>x. n_mysql_stmt_execute env exec amx now pend params w = Found x"
  using life_registered [of "wd_comp w" "sint (params ! 1)"]
  by (auto simp: n_mysql_stmt_execute_def getStatement_def conn_of_def Let_def split_beta split: option.split)

text \<open>The vector natives change nothing but the script's memory.\<close>

lemma memory_only: "native_step api sapi exec w (w\<lparr>wd_mem := mem\<rparr>)"
  using native_step.memory [where mem = mem and player = "wd_player w" and lg = "wd_log w" and w = w] by simp

lemma no_change: "native_step api sapi exec w w"
  using memory_only [of api sapi exec w "wd_mem w"] by simp

text \<open>Every entry of the table gives a result, which is a step of the host.\<close>

definition entry_ok ::
    "'m client \<Rightarrow> ('m, 'st) stmt_client \<Rightarrow> ('m, 'st) script_exec \<Rightarrow> ('m, 'st) world
      \<Rightarrow> (cell \<times> ('m, 'st) world \<times> amx_call list) access \<Rightarrow> bool" where
  "entry_ok api sapi exec w out \<longleftrightarrow> (\<exists>r w' calls. out = Found (r, w', calls) \<and> native_step api sapi exec w w')"

lemma entry_Found: "native_step api sapi exec w (fst (snd x)) \<Longrightarrow> entry_ok api sapi exec w (Found x)"
  unfolding entry_ok_def by (cases x) auto

lemma entry_quiet:
  "\<exists>x v. r = Found (x, v) \<Longrightarrow> (\<And>x w'. r = Found (x, w') \<Longrightarrow> native_step api sapi exec w w') \<Longrightarrow>
     entry_ok api sapi exec w (quiet_access r)"
  by (auto simp: entry_ok_def quiet_access_def quiet_def)

lemma classic_entries_ok:
  assumes l: "life (wd_comp w)"
  shows "\<forall>(name, out) \<in> set (kClassicNatives env exec api atof amx now pend params w). entry_ok api sapi exec w out"
proof -
  note ms = native_step.model_execute [where api = api and sapi = sapi and exec = exec and w = w]
  have conf: "entry_ok api sapi exec w (case n_mysql_config_set (ne_script env amx) (wd_mem w) params (wd_comp w) of
        (r, c) \<Rightarrow> Found (if r then 1 else 0, w\<lparr>wd_comp := c\<rparr>, []))"
    by (auto simp: split_beta intro!: entry_Found native_step.options)
  have ex: "entry_ok api sapi exec w (Found (n_mysql_execute env exec amx now pend params w))"
    "entry_ok api sapi exec w (Found (n_mysql_execute_for env exec amx now pend params w))"
    "entry_ok api sapi exec w (Found (n_mysql_execute_file env exec amx now pend params w))"
    by (metis entry_Found native_step.execute native_step.execute_for native_step.execute_file prod.collapse)+
  have fm: "entry_ok api sapi exec w (quiet_access (n_mysql_format env api amx params w))"
    using format_found [OF l] by (rule entry_quiet) (rule native_step.format)
  have st: "entry_ok api sapi exec w (n_mysql_stmt_execute env exec amx now pend params w)"
    using stmt_execute_found [OF l, of env exec amx now pend params] native_step.stmt_execute
    by (fastforce simp: entry_ok_def)
  have vec: "entry_ok api sapi exec w (Found (quiet (n_mysql_vector_to_string env amx params w)))"
    "entry_ok api sapi exec w (Found (quiet (n_mysql_string_to_vector env atof amx params w)))"
    "entry_ok api sapi exec w (Found (n_mysql_vector_dim env atof amx params w, w, []))"
    by (auto intro!: entry_Found simp: quiet_def n_mysql_vector_to_string_def n_mysql_string_to_vector_def
        Let_def memory_only no_change split: option.split)
  have hash: "entry_ok api sapi exec w (Found (quiet (n_mysql_hash_password (ne_script env amx) params w)))"
    "entry_ok api sapi exec w (Found (quiet (n_mysql_verify_password (ne_script env amx) params w)))"
    by (auto simp: quiet_def intro!: entry_Found native_step.hashing)
  have model: "entry_ok api sapi exec w (quiet_access (f env api amx now pend params w))"
    if f: "f \<in> {n_mysql_model_find, n_mysql_model_insert, n_mysql_model_update, n_mysql_model_delete, n_mysql_model_save}" for f
    using f by (intro entry_quiet ms [OF f])
      (auto simp: model_op_defs ModelExecute_found [OF l] model_save_found [OF l])
  show ?thesis
    unfolding kClassicNatives_def using conf ex fm st vec hash model by simp
qed

section \<open>The component object\<close>

text \<open>
  What the component asks of the server.  Pawn components are told apart by their addresses; a script by its machine.
\<close>

datatype sdk_call =
    Core_AddHandler | Core_RemoveHandler | Core_PrintLn string | Core_LogLn LogLevel string
  | Pawn_SetFunctions nat | Pawn_SetLookups | Pawn_AddHandler nat | Pawn_RemoveHandler nat
  | Amx_Load nat | Amx_Register nat "string list"

text \<open>
  \<open>sv_instance\<close> tells whether \<^verbatim>\<open>instance_\<close> points to an object, whose state is \<open>sv_world\<close> (with the
  memory of the scripts), \<open>sv_core\<close> and \<open>sv_pawn\<close> are \<^verbatim>\<open>core_\<close> and \<^verbatim>\<open>pawn_\<close>.  The server's
  side is \<open>sv_alive\<close>, the Pawn components there are, and \<open>sv_calls\<close>, all calls so far.
\<close>

record ('m, 'st) server =
  sv_instance :: bool
  sv_world :: "('m, 'st) world"
  sv_core :: bool
  sv_pawn :: "nat option"
  sv_alive :: "nat \<Rightarrow> bool"
  sv_calls :: "sdk_call list"

definition sdk :: "sdk_call list \<Rightarrow> ('m, 'st) server \<Rightarrow> ('m, 'st) server" where
  "sdk calls s = s\<lparr>sv_calls := sv_calls s @ calls\<rparr>"

definition getInstance :: "('m, 'st) server \<Rightarrow> ('m, 'st) server" where
  "getInstance s = (if sv_instance s then s
     else s\<lparr>sv_instance := True, sv_world := (sv_world s)\<lparr>wd_comp := new_component\<rparr>, sv_core := False, sv_pawn := None\<rparr>)"

definition componentName :: string where
  "componentName = ''MySQL''"

definition componentVersion :: "int \<times> int \<times> int \<times> int" where
  "componentVersion = (1, 1, 0, 0)"

text \<open>\<^verbatim>\<open>COMPONENT_ENTRY_POINT\<close>.\<close>

definition entry_point :: "('m, 'st) server \<Rightarrow> ('m, 'st) server" where
  "entry_point s = getInstance s"

definition banner :: string where
  "banner = ''  omp-mySQL v'' @ kVersion @ '' loaded (clean-room; MariaDB Connector/C 3.4.8, modern MySQL 8.x/9.x).''"

definition update_notice :: string where
  "update_notice = ''  [omp-MySQL]: New version available '' @ kLatestVersion @ '' (current: '' @ kVersion @
     ''). Update to keep your server secure.''"

definition onLoad :: "('m, 'st) server \<Rightarrow> ('m, 'st) server" where
  "onLoad s =
     (let w = sv_world s; c = wd_comp w
      in sdk ([Core_AddHandler, Core_PrintLn banner] @
          (if updateAvailable then [Core_LogLn LogWarning update_notice] else []))
        (s\<lparr>sv_core := True, sv_world := w\<lparr>wd_comp := c\<lparr>engine := startHashing 2 (engine c)\<rparr>\<rparr>\<rparr>))"

text \<open>\<open>found\<close> is the answer of \<^verbatim>\<open>queryComponent<IPawnComponent>\<close>.\<close>

definition onInit :: "nat option \<Rightarrow> ('m, 'st) server \<Rightarrow> ('m, 'st) server" where
  "onInit found s = (case found of
       Some a \<Rightarrow> sdk [Pawn_SetFunctions a, Pawn_SetLookups, Pawn_AddHandler a] (s\<lparr>sv_pawn := Some a\<rparr>)
     | None \<Rightarrow> sdk (if sv_core s
           then [Core_LogLn LogError ''[MySQL] Pawn component not found; mysql_* natives unavailable.''] else [])
         (s\<lparr>sv_pawn := None\<rparr>))"

definition onReady :: "('m, 'st) server \<Rightarrow> ('m, 'st) server" where
  "onReady s = s"

definition onFree :: "nat \<Rightarrow> ('m, 'st) server \<Rightarrow> ('m, 'st) server" where
  "onFree freed s = s"

definition MySQL_RegisterClassicNatives :: "nat \<Rightarrow> ('m, 'st) server \<Rightarrow> ('m, 'st) server" where
  "MySQL_RegisterClassicNatives amx s = sdk [Amx_Register amx classic_names] s"

definition onAmxLoad :: "nat \<Rightarrow> ('m, 'st) server \<Rightarrow> ('m, 'st) server" where
  "onAmxLoad amx s = MySQL_RegisterClassicNatives amx (sdk [Amx_Load amx] s)"

definition onAmxUnload :: "nat \<Rightarrow> ('m, 'st) server \<Rightarrow> ('m, 'st) server" where
  "onAmxUnload amx s = s"

text \<open>
  The destructor, on an object whose component is \<open>c\<close>.  Reaching the dispatcher of a Pawn component that is gone is
  following a dangling pointer.
\<close>

definition destroy ::
    "'m client \<Rightarrow> ('m, 'st) stmt_client \<Rightarrow> (QueryJob \<Rightarrow> int) \<Rightarrow> ('m, 'st) component \<Rightarrow> ('m, 'st) server
      \<Rightarrow> ('m, 'st) server access option" where
  "destroy api sapi elapsed c s =
     map_option (\<lambda>r. access_bind r (\<lambda>c'.
         let done1 = s\<lparr>sv_world := (sv_world s)\<lparr>wd_comp := c'\<rparr>\<rparr>;
             finish = (\<lambda>s. (sdk (if sv_core s then [Core_RemoveHandler] else []) s)\<lparr>sv_instance := False\<rparr>)
         in case sv_pawn s of
              None \<Rightarrow> Found (finish done1)
            | Some a \<Rightarrow> if sv_alive s a then Found (finish (sdk [Pawn_RemoveHandler a] done1)) else Undefined_Behaviour))
       (clearConnections api sapi elapsed c)"

definition free_server ::
    "'m client \<Rightarrow> ('m, 'st) stmt_client \<Rightarrow> (QueryJob \<Rightarrow> int) \<Rightarrow> ('m, 'st) server \<Rightarrow> ('m, 'st) server access option" where
  "free_server api sapi elapsed s = (case free_component api sapi elapsed (wd_comp (sv_world s)) of
       None \<Rightarrow> None
     | Some (Found c) \<Rightarrow> destroy api sapi elapsed c s
     | Some _ \<Rightarrow> Some Undefined_Behaviour)"

section \<open>The server's events\<close>

text \<open>
  The server calls the entry point at any time, the callbacks on the object there is, \<^verbatim>\<open>onLoad\<close> and
  \<^verbatim>\<open>onInit\<close> once each in that order; Pawn components come and go (a component about to be freed is announced by
  \<^verbatim>\<open>onFree\<close>), and in between the host runs natives, ticks, workers and hashing threads.
\<close>

inductive server_step ::
    "'m client \<Rightarrow> ('m, 'st) stmt_client \<Rightarrow> ('m, 'st) script_exec \<Rightarrow> ('m, 'st) server \<Rightarrow> ('m, 'st) server \<Rightarrow> bool"
  for api :: "'m client" and sapi :: "('m, 'st) stmt_client" and exec :: "('m, 'st) script_exec" where
  entry: "server_step api sapi exec s (entry_point s)"
| load: "sv_instance s \<Longrightarrow> \<not> sv_core s \<Longrightarrow> server_step api sapi exec s (onLoad s)"
| init: "sv_instance s \<Longrightarrow> sv_core s \<Longrightarrow> sv_pawn s = None \<Longrightarrow> (\<And>a. found = Some a \<Longrightarrow> sv_alive s a) \<Longrightarrow>
    server_step api sapi exec s (onInit found s)"
| ready: "sv_instance s \<Longrightarrow> server_step api sapi exec s (onReady s)"
| amx_load: "sv_instance s \<Longrightarrow> sv_pawn s \<noteq> None \<Longrightarrow> server_step api sapi exec s (onAmxLoad amx s)"
| amx_unload: "sv_instance s \<Longrightarrow> sv_pawn s \<noteq> None \<Longrightarrow> server_step api sapi exec s (onAmxUnload amx s)"
| run: "sv_instance s \<Longrightarrow> host_step api sapi exec (sv_world s) w \<Longrightarrow> server_step api sapi exec s (s\<lparr>sv_world := w\<rparr>)"
| pool: "server_step api sapi exec s (s\<lparr>sv_world := (sv_world s)\<lparr>wd_comp := (wd_comp (sv_world s))\<lparr>engine :=
      (engine (wd_comp (sv_world s)))\<lparr>hashInput := xs, hashOutput := ys\<rparr>\<rparr>\<rparr>\<rparr>)"
| pawn_created: "server_step api sapi exec s (s\<lparr>sv_alive := (sv_alive s)(a := True)\<rparr>)"
| pawn_freed: "s' = (if sv_instance s then onFree a s else s) \<Longrightarrow>
    server_step api sapi exec s (s'\<lparr>sv_alive := (sv_alive s')(a := False)\<rparr>)"
| free: "sv_instance s \<Longrightarrow> free_server api sapi elapsed s = Some (Found s') \<Longrightarrow> server_step api sapi exec s s'"

text \<open>Before the component is loaded there is nothing of it.\<close>

inductive server_reach ::
    "'m client \<Rightarrow> ('m, 'st) stmt_client \<Rightarrow> ('m, 'st) script_exec \<Rightarrow> ('m, 'st) server \<Rightarrow> bool"
  for api :: "'m client" and sapi :: "('m, 'st) stmt_client" and exec :: "('m, 'st) script_exec" where
  start: "\<not> sv_instance s \<Longrightarrow> wd_comp (sv_world s) = new_component \<Longrightarrow> sv_calls s = [] \<Longrightarrow> server_reach api sapi exec s"
| step: "server_reach api sapi exec s \<Longrightarrow> server_step api sapi exec s t \<Longrightarrow> server_reach api sapi exec t"

section \<open>The invariant\<close>

text \<open>
  Every registration with a dispatcher is paired with the pointer to it: while there is an object, it is registered once
  with the core it was given and once with the Pawn component it found, and nowhere otherwise; without an object,
  nothing is registered and no connection or statement is alive.
\<close>

definition registered :: "sdk_call \<Rightarrow> sdk_call \<Rightarrow> sdk_call list \<Rightarrow> int" where
  "registered add remove calls = int (count_list calls add) - int (count_list calls remove)"

definition server_ok :: "'m client \<Rightarrow> ('m, 'st) stmt_client \<Rightarrow> ('m, 'st) server \<Rightarrow> bool" where
  "server_ok api sapi s \<longleftrightarrow>
     registered Core_AddHandler Core_RemoveHandler (sv_calls s) = (if sv_instance s \<and> sv_core s then 1 else 0) \<and>
     (\<forall>a. registered (Pawn_AddHandler a) (Pawn_RemoveHandler a) (sv_calls s) =
        (if sv_instance s \<and> sv_pawn s = Some a then 1 else 0)) \<and>
     (if sv_instance s then comp_reach api sapi (wd_comp (sv_world s))
      else so_conns (heap (wd_comp (sv_world s))) = Map.empty \<and> so_stmts (heap (wd_comp (sv_world s))) = Map.empty)"

lemma registered_append [simp]:
  "registered add remove (xs @ ys) = registered add remove xs + registered add remove ys"
  by (simp add: registered_def)

lemma registered_Nil [simp]: "registered add remove [] = 0"
  by (simp add: registered_def)

lemma registered_Cons [simp]:
  "registered add remove (x # xs) = (if x = add then 1 else 0) - (if x = remove then 1 else 0) + registered add remove xs"
  by (simp add: registered_def)

lemma clearConnections_idle:
  "connections c = [] \<Longrightarrow> workers c = [] \<Longrightarrow> \<exists>c'. clearConnections api sapi elapsed c = Some (Found c') \<and> heap c' = heap c"
  by (simp add: clearConnections_def)

text \<open>Freeing from any history.\<close>

lemma free_server_cases:
  assumes n: "small_counts sapi" and r: "comp_reach api sapi (wd_comp (sv_world s))"
    and run: "free_server api sapi elapsed s = Some r"
  shows "case sv_pawn s of
      Some a \<Rightarrow> if sv_alive s a then \<exists>w. r = Found (s\<lparr>sv_world := w, sv_instance := False,
           sv_calls := sv_calls s @ Pawn_RemoveHandler a # (if sv_core s then [Core_RemoveHandler] else [])\<rparr>) \<and>
           so_conns (heap (wd_comp w)) = Map.empty \<and> so_stmts (heap (wd_comp w)) = Map.empty
         else r = Undefined_Behaviour
    | None \<Rightarrow> \<exists>w. r = Found (s\<lparr>sv_world := w, sv_instance := False,
           sv_calls := sv_calls s @ (if sv_core s then [Core_RemoveHandler] else [])\<rparr>) \<and>
           so_conns (heap (wd_comp w)) = Map.empty \<and> so_stmts (heap (wd_comp w)) = Map.empty"
proof -
  let ?c = "wd_comp (sv_world s)"
  from run obtain x where x: "free_component api sapi elapsed ?c = Some x"
    by (auto simp: free_server_def split: option.splits)
  from free_all [OF n comp_reach_life [OF r n] comp_reach_owned [OF r n] comp_reach_addressed [OF r n] x]
  obtain c1 where c1: "x = Found c1" "so_conns (heap c1) = Map.empty" "so_stmts (heap c1) = Map.empty" "workers c1 = []"
      "connections c1 = []" by blast
  from clearConnections_idle [OF c1(5,4)] obtain c2 where
    "clearConnections api sapi elapsed c1 = Some (Found c2)" "heap c2 = heap c1" by blast
  with run x c1 show ?thesis
    by (auto simp: free_server_def destroy_def sdk_def Let_def split: option.splits if_splits
        intro!: exI [of _ "(sv_world s)\<lparr>wd_comp := c2\<rparr>"])
qed

lemma server_step_ok:
  assumes st: "server_step api sapi exec s s'" and ex: "script_acts api sapi exec" and n: "small_counts sapi"
    and ok: "server_ok api sapi s"
  shows "server_ok api sapi s'"
  using st
proof cases
  case entry
  with ok show ?thesis
    by (auto simp: server_ok_def entry_point_def getInstance_def intro: comp_reach.init)
next
  case load
  have "comp_reach api sapi (wd_comp (sv_world s))" using ok load(2) by (simp add: server_ok_def)
  from comp_reach.hashing [OF this, of "startHashing 2 (engine (wd_comp (sv_world s)))"] have "comp_reach api sapi (wd_comp (sv_world s'))"
    by (simp add: load(1) onLoad_def sdk_def Let_def startHashing_def)
  with ok load show ?thesis by (auto simp: server_ok_def onLoad_def sdk_def Let_def)
next
  case (init found)
  with ok show ?thesis by (auto simp: server_ok_def onInit_def sdk_def split: option.splits)
next
  case ready
  with ok show ?thesis by (simp add: onReady_def)
next
  case (amx_load amx)
  with ok show ?thesis by (auto simp: server_ok_def onAmxLoad_def MySQL_RegisterClassicNatives_def sdk_def)
next
  case (amx_unload amx)
  with ok show ?thesis by (simp add: onAmxUnload_def)
next
  case (run w)
  with ok host_step_reach [OF run(3) ex n] show ?thesis by (auto simp: server_ok_def)
next
  case pool
  with ok show ?thesis by (auto simp: server_ok_def intro: comp_reach.hashing)
next
  case (pawn_created a)
  with ok show ?thesis by (simp add: server_ok_def)
next
  case (pawn_freed t a)
  with ok show ?thesis by (simp add: server_ok_def onFree_def)
next
  case (free elapsed)
  have "comp_reach api sapi (wd_comp (sv_world s))" using ok free(1) by (simp add: server_ok_def)
  from free_server_cases [OF n this free(2)] ok free(1) show ?thesis
    by (auto simp: server_ok_def split: option.splits if_splits)
qed

lemma server_reach_ok:
  "server_reach api sapi exec s \<Longrightarrow> script_acts api sapi exec \<Longrightarrow> small_counts sapi \<Longrightarrow> server_ok api sapi s"
proof (induction rule: server_reach.induct)
  case (start s)
  then show ?case by (simp add: server_ok_def new_component_def)
next
  case (step s t)
  then show ?case using server_step_ok by blast
qed

section \<open>Properties\<close>

text \<open>
  C39: the component is registered exactly where it holds a pointer: whatever the server does in whatever order, the
  component stands once in the tick dispatcher while \<^verbatim>\<open>core_\<close> is set, once in the dispatcher of the Pawn
  component \<^verbatim>\<open>pawn_\<close> points to, and in no other; once \<^verbatim>\<open>instance_\<close> is null again it stands in none, so the
  server cannot call a deleted object, and no connection or statement is left alive.
\<close>

theorem registrations_paired:
  assumes "server_reach api sapi exec s" and "script_acts api sapi exec" and "small_counts sapi"
  shows "count_list (sv_calls s) Core_AddHandler =
      count_list (sv_calls s) Core_RemoveHandler + (if sv_instance s \<and> sv_core s then 1 else 0) \<and>
    count_list (sv_calls s) (Pawn_AddHandler a) =
      count_list (sv_calls s) (Pawn_RemoveHandler a) + (if sv_instance s \<and> sv_pawn s = Some a then 1 else 0) \<and>
    (sv_instance s \<or> (so_conns (heap (wd_comp (sv_world s))) = Map.empty \<and>
       so_stmts (heap (wd_comp (sv_world s))) = Map.empty))"
proof -
  have ok: "server_ok api sapi s" using server_reach_ok [OF assms] .
  then have "registered Core_AddHandler Core_RemoveHandler (sv_calls s) = (if sv_instance s \<and> sv_core s then 1 else 0)"
    "registered (Pawn_AddHandler a) (Pawn_RemoveHandler a) (sv_calls s) =
       (if sv_instance s \<and> sv_pawn s = Some a then 1 else 0)" unfolding server_ok_def by blast+
  moreover have "sv_instance s \<or> (so_conns (heap (wd_comp (sv_world s))) = Map.empty \<and>
       so_stmts (heap (wd_comp (sv_world s))) = Map.empty)" using ok by (simp add: server_ok_def split: if_splits)
  ultimately show ?thesis unfolding registered_def by (simp split: if_splits)
qed

text \<open>
  C40: what \<^verbatim>\<open>free\<close> does depends on one thing only: from any reachable state, with workers busy and statements open,
  if it returns it leaves no object, no registration, no connection and no statement, provided that the Pawn component found
  at start-up is still there; if that was freed first, \<^verbatim>\<open>onFree\<close> having kept the pointer, the destructor follows a
  dangling pointer, every time.
\<close>

theorem free_outcome:
  assumes "server_reach api sapi exec s" and "script_acts api sapi exec" and "small_counts sapi"
    and "sv_instance s" and "free_server api sapi elapsed s = Some r"
  shows "if \<exists>a. sv_pawn s = Some a \<and> \<not> sv_alive s a then r = Undefined_Behaviour
    else \<exists>s'. r = Found s' \<and> \<not> sv_instance s' \<and> so_conns (heap (wd_comp (sv_world s'))) = Map.empty \<and>
      so_stmts (heap (wd_comp (sv_world s'))) = Map.empty \<and>
      count_list (sv_calls s') Core_AddHandler = count_list (sv_calls s') Core_RemoveHandler \<and>
      (\<forall>a. count_list (sv_calls s') (Pawn_AddHandler a) = count_list (sv_calls s') (Pawn_RemoveHandler a))"
proof -
  have ok: "server_ok api sapi s" using server_reach_ok [OF assms(1-3)] .
  then have r: "comp_reach api sapi (wd_comp (sv_world s))" using assms(4) by (simp add: server_ok_def)
  note cases = free_server_cases [OF assms(3) r assms(5)]
  show ?thesis
  proof (cases "\<exists>a. sv_pawn s = Some a \<and> \<not> sv_alive s a")
    case True
    with cases show ?thesis by (auto split: option.splits)
  next
    case False
    with cases obtain s' where s': "r = Found s'" by (auto split: option.splits)
    have "server_ok api sapi s'"
      using server_step_ok [OF server_step.free [OF assms(4)] assms(2,3) ok] assms(5) s' by blast
    moreover have "\<not> sv_instance s'" using cases s' False by (auto split: option.splits if_splits)
    ultimately have "so_conns (heap (wd_comp (sv_world s'))) = Map.empty \<and>
        so_stmts (heap (wd_comp (sv_world s'))) = Map.empty"
      "registered Core_AddHandler Core_RemoveHandler (sv_calls s') = 0"
      "registered (Pawn_AddHandler a) (Pawn_RemoveHandler a) (sv_calls s') = 0" for a
      unfolding server_ok_def by auto
    with False s' \<open>\<not> sv_instance s'\<close> show ?thesis by (auto simp: registered_def)
  qed
qed


section \<open>Witnesses\<close>

text \<open>The component is loaded, finds the Pawn component at 7, registers the natives with script 0.\<close>

definition boot :: "(nat, nat) server" where
  "boot = \<lparr>sv_instance = False, sv_world = demo_world, sv_core = False, sv_pawn = None, sv_alive = (\<lambda>a. a = 7), sv_calls = []\<rparr>"

definition up :: "(nat, nat) server" where
  "up = onAmxLoad 0 (onInit (Some 7) (onLoad (entry_point boot)))"

lemma up_reach: "server_reach tls_client one_row_client demo_exec up"
proof -
  have b: "server_reach tls_client one_row_client demo_exec boot"
    by (rule server_reach.start) (simp_all add: boot_def demo_world_def)
  have e: "server_reach tls_client one_row_client demo_exec (entry_point boot)"
    using b server_step.entry by (rule server_reach.step)
  have l: "server_reach tls_client one_row_client demo_exec (onLoad (entry_point boot))"
    by (rule server_reach.step [OF e server_step.load]) (simp_all add: entry_point_def getInstance_def boot_def)
  have i: "server_reach tls_client one_row_client demo_exec (onInit (Some 7) (onLoad (entry_point boot)))"
    by (rule server_reach.step [OF l server_step.init])
      (simp_all add: entry_point_def getInstance_def boot_def onLoad_def sdk_def Let_def)
  show ?thesis
    unfolding up_def by (rule server_reach.step [OF i server_step.amx_load])
      (simp_all add: entry_point_def getInstance_def boot_def onLoad_def onInit_def sdk_def Let_def)
qed

lemma up_state: "sv_instance up" "sv_core up" "sv_pawn up = Some 7" "sv_alive up = (\<lambda>a. a = 7)"
  "sv_calls up = [Core_AddHandler, Core_PrintLn banner, Pawn_SetFunctions 7, Pawn_SetLookups, Pawn_AddHandler 7,
     Amx_Load 0, Amx_Register 0 classic_names]"
  by (simp_all add: up_def entry_point_def getInstance_def boot_def onLoad_def onInit_def onAmxLoad_def MySQL_RegisterClassicNatives_def sdk_def
      updateAvailable_def kVersion_def kLatestVersion_def Let_def)

theorem registrations_paired_witness:
  "count_list (sv_calls up) (Pawn_AddHandler 7) = Suc (count_list (sv_calls up) (Pawn_RemoveHandler 7))"
  using registrations_paired [OF up_reach demo_acts one_row_small, of 7] by (simp add: up_state)

text \<open>The server frees the Pawn component, then the component.\<close>

definition orphaned :: "(nat, nat) server" where
  "orphaned = up\<lparr>sv_alive := (\<lambda>a. False)\<rparr>"

theorem free_outcome_witness:
  "\<exists>r. free_server tls_client one_row_client (\<lambda>j. 0) orphaned = Some r \<and> r = Undefined_Behaviour"
proof -
  have "orphaned = (onFree 7 up)\<lparr>sv_alive := (sv_alive (onFree 7 up))(7 := False)\<rparr>"
    by (simp add: orphaned_def onFree_def up_state fun_eq_iff)
  then have "server_reach tls_client one_row_client demo_exec orphaned"
    using server_reach.step [OF up_reach server_step.pawn_freed [OF refl]] up_state(1) by metis
  moreover have "sv_instance orphaned" by (simp add: orphaned_def up_state)
  moreover have f: "\<exists>r. free_server tls_client one_row_client (\<lambda>j. 0) orphaned = Some r"
    by (simp add: free_server_def destroy_def free_component_def clearStatements_def clearConnections_def clearActiveCache_def
        clearModels_def clearOptions_def orphaned_def up_def entry_point_def getInstance_def boot_def onLoad_def
        onInit_def onAmxLoad_def MySQL_RegisterClassicNatives_def sdk_def new_component_def demo_world_def Let_def)
  moreover have "\<exists>a. sv_pawn orphaned = Some a \<and> \<not> sv_alive orphaned a" by (simp add: orphaned_def up_state)
  ultimately show ?thesis using free_outcome [OF _ demo_acts one_row_small] by fastforce
qed


end
