(* ===== verification/Probe.thy ===== *)
theory Probe
  imports Connection Statement
begin

text \<open>
  \<^verbatim>\<open>testscripts/feature_probe.cpp\<close>: the stand-alone driver that runs a connection and a statement against one
  server and prints a line per feature.  The connection and the statement are those of \<open>Connection\<close> and
  \<open>Statement\<close>; the output is the list of lines.  \<^verbatim>\<open>testscripts/connection_probe.cpp\<close>, which only connects,
  is at the end.
\<close>

section \<open>The program\<close>

text \<open>The strings printed are constants or C strings of the client library; \<^verbatim>\<open>%s\<close> stops at a NUL.\<close>

definition report :: "string \<Rightarrow> bool \<Rightarrow> string \<Rightarrow> string" where
  "report feat ok why = (if ok then feat @ ''=PASS'' else feat @ ''=FAIL:'' @ c_str why)"

text \<open>\<^verbatim>\<open>atoi\<close> is \<^verbatim>\<open>strtol\<close> cut to an \<^verbatim>\<open>int\<close>; \<open>lb\<close> is the width of \<^verbatim>\<open>long\<close>.\<close>

definition probe_options :: "nat \<Rightarrow> string option \<Rightarrow> ConnectionOptions" where
  "probe_options lb arg = default_options\<lparr>co_host := ''127.0.0.1'',
     co_port := (case arg of None \<Rightarrow> 3306 | Some s \<Rightarrow> word_of_int (strtol lb s)),
     co_user := ''omptest'', co_password := ''omptestpw'', co_database := ''ompdb'', co_sslMode := Required\<rparr>"

definition no_result :: QueryResult where
  "no_result = \<lparr>qr_sets = [], qr_execTimeMicros = 0, qr_queryString = []\<rparr>"

text \<open>The version and the line of QUERY.\<close>

definition probe_version :: "'m client \<Rightarrow> 'm Connection \<Rightarrow> (string \<times> string \<times> 'm Connection) option" where
  "probe_version api c = map_option (\<lambda>(ok, r, c').
       (if ok then (case qr_sets r of
            s # _ \<Rightarrow> (case rs_rows s of (v # _) # _ \<Rightarrow> rv_value v | _ \<Rightarrow> ''?'')
          | [] \<Rightarrow> ''?'') else ''?'',
        report ''QUERY'' (ok \<and> qr_sets r \<noteq> []) (if ok then [] else conn_lastError api c'), c'))
     (queryBuffered api ''SELECT VERSION() AS v'' no_result c)"

text \<open>The line of PREP; the first cell of the first row is read without looking whether the row has one.\<close>

definition probe_statement :: "('m, 'st) stmt_client \<Rightarrow> 'm Connection \<Rightarrow> string access option" where
  "probe_statement sapi c =
     (let st = new_statement (Some 0) ''SELECT ? + ? AS total'';
          done1 = (\<lambda>ok st. report ''PREP'' ok (if ok then [] else if stmt_lastError sapi st = [] then ''wrong result''
             else stmt_lastError sapi st))
      in if \<not> valid st then Some (Found (report ''PREP'' False (stmt_lastError sapi st)))
         else map_option (\<lambda>(a, r, st'). access_bind a (\<lambda>ok.
             case (if ok then qr_sets r else []) of
               [] \<Rightarrow> Found (done1 False st')
             | s # _ \<Rightarrow> (case rs_rows s of
                 [] \<Rightarrow> Found (done1 False st')
               | [] # _ \<Rightarrow> Undefined_Behaviour
               | (v # _) # _ \<Rightarrow> Found (done1 (rv_value v = ''42'') st'))))
           (execute sapi (cn_mysql c) no_result (bindInt 1 2 (bindInt 0 40 st))))"

definition probe_vector :: "'m client \<Rightarrow> 'm Connection \<Rightarrow> (string \<times> 'm Connection) option" where
  "probe_vector api c =
     Option.bind (queryBuffered api ''DROP TABLE IF EXISTS omp_feat_vec'' no_result c) (\<lambda>(dropped, r0, c0).
     Option.bind (queryBuffered api ''CREATE TABLE omp_feat_vec (id INT PRIMARY KEY, v VECTOR(3))'' no_result c0)
       (\<lambda>(created, r1, c1).
     Option.bind (if created
         then queryBuffered api (''INSERT INTO omp_feat_vec VALUES (1, STRING_TO_VECTOR('' @ [SQ] @ ''[1,2,3]'' @ [SQ] @ ''))'')
           no_result c1
         else Some (False, no_result, c1)) (\<lambda>(inserted, r2, c2).
     map_option (\<lambda>(cleaned, r3, c3). (report ''VECTOR'' (created \<and> inserted) (conn_lastError api c2), c3))
       (queryBuffered api ''DROP TABLE IF EXISTS omp_feat_vec'' no_result c2))))"

text \<open>\<^verbatim>\<open>main\<close>: the exit code and the lines printed; \<open>None\<close> where a query's results never end.\<close>

definition probe_main ::
    "'m client \<Rightarrow> ('m, 'st) stmt_client \<Rightarrow> build \<Rightarrow> nat \<Rightarrow> string option \<Rightarrow> (int \<times> string list) access option" where
  "probe_main api sapi b lb arg =
     (let (opened, c0) = open_conn api b (probe_options lb arg) new_Connection;
          (encrypted, c1) = (if opened then sslEnabled api c0 else (False, c0));
          tls = report ''TLS'' (opened \<and> encrypted) (if opened then ''not encrypted'' else conn_lastError api c1)
      in if \<not> opened
         then Some (Found (1, [tls, report ''QUERY'' False ''no connection'', report ''PREP'' False ''no connection'',
                report ''CACHsha2'' False ''no connection'', report ''VECTOR'' False ''no connection'', ''VERSION=?'']))
         else Option.bind (probe_version api c1) (\<lambda>(version, query, c2).
              Option.bind (probe_statement sapi c2) (\<lambda>prep.
              map_option (\<lambda>(vector, c3). access_bind prep (\<lambda>prep.
                  Found (0, [tls, query, report ''CACHsha2'' True [], prep, vector, ''VERSION='' @ c_str version])))
                (probe_vector api c2))))"

section \<open>Properties\<close>

lemma access_bind_Found: "access_bind a f = Found y \<Longrightarrow> (\<And>x. a = Found x \<Longrightarrow> f x = Found y \<Longrightarrow> P) \<Longrightarrow> P"
  by (cases a) auto

text \<open>The name before the equals sign.\<close>

definition feature :: "string \<Rightarrow> string" where
  "feature s = takeWhile (\<lambda>ch. ch \<noteq> CHR ''='') s"

lemma feature_report [simp]:
  "CHR ''='' \<notin> set feat \<Longrightarrow> feature (report feat ok why) = feat"
  by (auto simp: feature_def report_def takeWhile_append)

lemma feature_version: "feature (''VERSION='' @ v) = ''VERSION''" "feature ''VERSION=?'' = ''VERSION''"
  by (simp_all add: feature_def)

lemmas feature_version_simps [simp] = feature_version [simplified]

definition is_report :: "string \<Rightarrow> string \<Rightarrow> bool" where
  "is_report feat s \<longleftrightarrow> (\<exists>ok why. s = report feat ok why)"

lemma is_report_report [simp]: "is_report feat (report feat ok why)"
  unfolding is_report_def by blast

lemma report_pass: "CHR ''='' \<notin> set feat \<Longrightarrow> CHR ''='' \<notin> set f \<Longrightarrow>
    report f ok why = feat @ ''=PASS'' \<longleftrightarrow> f = feat \<and> ok"
proof
  assume n: "CHR ''='' \<notin> set feat" "CHR ''='' \<notin> set f" and e: "report f ok why = feat @ ''=PASS''"
  have "feature (report f ok why) = feature (report feat True [])" using e by (simp add: report_def)
  with n have "f = feat" by simp
  with e show "f = feat \<and> ok" by (auto simp: report_def split: if_splits)
qed (simp add: report_def)

lemma probe_version_line:
  "probe_version api c = Some (v, line, c') \<Longrightarrow> is_report ''QUERY'' line"
  by (auto simp: probe_version_def)

lemma probe_statement_line: "probe_statement sapi c = Some (Found line) \<Longrightarrow> is_report ''PREP'' line"
  by (auto simp: probe_statement_def Let_def split: if_splits list.splits access.splits elim!: access_bind_Found)

lemma probe_vector_line: "probe_vector api c = Some (line, c') \<Longrightarrow> is_report ''VECTOR'' line"
  by (auto simp: probe_vector_def Option.bind_eq_Some_conv)

text \<open>
  The probe's output is what its readers parse: it always names the five features and the version, one line each, exits
  with 0 exactly when the connection opened, and reports TLS as passed exactly when the opened connection names a cipher;
  the authentication feature is reported as passed whenever the connection opened, encrypted or not.
\<close>

theorem probe_reports:
  assumes "probe_main api sapi b lb arg = Some (Found (code, lines))"
  defines "conn \<equiv> open_conn api b (probe_options lb arg) new_Connection"
  shows "code = (if fst conn then 0 else 1) \<and>
    map feature lines = (if fst conn then [''TLS'', ''QUERY'', ''CACHsha2'', ''PREP'', ''VECTOR'', ''VERSION'']
      else [''TLS'', ''QUERY'', ''PREP'', ''CACHsha2'', ''VECTOR'', ''VERSION'']) \<and>
    (''TLS=PASS'' \<in> set lines \<longleftrightarrow> fst conn \<and> fst (sslEnabled api (snd conn))) \<and>
    (''CACHsha2=PASS'' \<in> set lines \<longleftrightarrow> fst conn)"
proof -
  have pass: "report f ok why = ''TLS=PASS'' \<longleftrightarrow> f = ''TLS'' \<and> ok" "report f ok why = ''CACHsha2=PASS'' \<longleftrightarrow> f = ''CACHsha2'' \<and> ok"
    if "CHR ''='' \<notin> set f" for f ok why
    using report_pass [of "''TLS''" f ok why] report_pass [of "''CACHsha2''" f ok why] that by simp_all
  note pass' = pass [THEN trans [OF eq_commute]]
  obtain opened c0 where o: "conn = (opened, c0)" by (cases conn)
  show ?thesis
  proof (cases opened)
    case False
    with assms(1) o show ?thesis by (auto simp: probe_main_def conn_def [symmetric] pass pass' Let_def)
  next
    case True
    obtain enc c1 where e: "sslEnabled api c0 = (enc, c1)" by (cases "sslEnabled api c0")
    from assms(1) o True e obtain v q c2 prep line vec c3 where
      r: "probe_version api c1 = Some (v, q, c2)" "probe_statement sapi c2 = Some (Found line)"
        "probe_vector api c2 = Some (vec, c3)" "code = 0"
        "lines = [report ''TLS'' (opened \<and> enc) ''not encrypted'', q, report ''CACHsha2'' True [], line, vec, ''VERSION='' @ c_str v]"
      by (auto simp: probe_main_def conn_def [symmetric] Option.bind_eq_Some_conv Let_def elim!: access_bind_Found)
    from probe_version_line [OF r(1)] probe_statement_line [OF r(2)] probe_vector_line [OF r(3)] obtain k1 w1 k2 w2 k3 w3
      where "q = report ''QUERY'' k1 w1" "line = report ''PREP'' k2 w2" "vec = report ''VECTOR'' k3 w3" unfolding is_report_def by blast
    with r o True e show ?thesis by (simp add: pass pass')
  qed
qed

text \<open>A server that is not there.\<close>

definition no_server :: "nat client" where
  "no_server = countdown_client\<lparr>cl_connect := (\<lambda>m args. (False, m))\<rparr>"

lemma no_server_open: "fst (open_conn no_server b opt new_Connection) = False"
  by (simp add: open_conn_def no_server_def countdown_client_def)

theorem probe_reports_witness:
  "\<exists>lines. probe_main no_server one_row_client \<lparr>has_SSL_CRL = False, has_SSL_MODE = False, has_COMPRESSION = False\<rparr>
      64 (Some ''3307'') = Some (Found (1, lines)) \<and> ''TLS=PASS'' \<notin> set lines \<and> length lines = 6"
proof -
  let ?b = "\<lparr>has_SSL_CRL = False, has_SSL_MODE = False, has_COMPRESSION = False\<rparr>"
  let ?c = "open_conn no_server ?b (probe_options 64 (Some ''3307'')) new_Connection"
  have o: "?c = (False, snd ?c)" using no_server_open by (metis prod.collapse)
  have "\<exists>lines. probe_main no_server one_row_client ?b 64 (Some ''3307'') = Some (Found (1, lines))"
    by (subst probe_main_def, subst o) simp
  then obtain lines where l: "probe_main no_server one_row_client ?b 64 (Some ''3307'') = Some (Found (1, lines))" by blast
  have f: "fst ?c = False" by (simp add: no_server_open)
  note p = probe_reports [OF l, unfolded f not_False_eq_True if_False if_True simp_thms]
  from arg_cong [OF conjunct1 [OF p], of length] have "length lines = 6" by simp
  with l p show ?thesis by blast
qed

section \<open>The connection probe\<close>

text \<open>
  The four calls among the arguments of its one \<^verbatim>\<open>printf\<close> are made in an order C++ leaves open; \<open>order\<close> is the
  one the compiler chose.  \<^verbatim>\<open>sslCipher\<close> and \<^verbatim>\<open>sslEnabled\<close> may send a query.
\<close>

datatype probe_call = AskErrno | AskCipher | AskEnabled | AskError

record probe_args =
  pa_errno :: "32 word"
  pa_cipher :: string
  pa_enabled :: bool
  pa_error :: string

fun ask :: "'m client \<Rightarrow> probe_args \<times> 'm Connection \<Rightarrow> probe_call \<Rightarrow> probe_args \<times> 'm Connection" where
  "ask api (a, c) AskErrno = (a\<lparr>pa_errno := conn_lastErrno api c\<rparr>, c)"
| "ask api (a, c) AskCipher = (case sslCipher api c of (s, c') \<Rightarrow> (a\<lparr>pa_cipher := s\<rparr>, c'))"
| "ask api (a, c) AskEnabled = (case sslEnabled api c of (on, c') \<Rightarrow> (a\<lparr>pa_enabled := on\<rparr>, c'))"
| "ask api (a, c) AskError = (a\<lparr>pa_error := conn_lastError api c\<rparr>, c)"

definition connection_line :: "int \<Rightarrow> bool \<Rightarrow> probe_args \<Rightarrow> string" where
  "connection_line port ok a = ''PORT='' @ show_int port @ '' OPEN='' @ (if ok then ''1'' else ''0'') @
     '' ERRNO='' @ show_nat (unat (pa_errno a)) @ '' CIPHER='' @ c_str (pa_cipher a) @
     '' SSL='' @ (if pa_enabled a then ''1'' else ''0'') @ '' ERR='' @ c_str (pa_error a)"

definition connection_probe ::
    "'m client \<Rightarrow> build \<Rightarrow> nat \<Rightarrow> probe_call list \<Rightarrow> string option \<Rightarrow> int \<times> string" where
  "connection_probe api b lb order arg =
     (let opt = probe_options lb arg; (ok, c) = open_conn api b opt new_Connection;
          (a, c') = foldl (ask api) (\<lparr>pa_errno = 0, pa_cipher = [], pa_enabled = False, pa_error = []\<rparr>, c) order
      in (if ok then 0 else 1, connection_line (sint (co_port opt)) ok a))"

text \<open>Where asking for the cipher sends no query, the order does not matter.\<close>

lemma ask_in_place:
  assumes "sslCipher api c = (s, c)"
  shows "foldl (ask api) (a, c) order =
    (\<lparr>pa_errno = (if AskErrno \<in> set order then conn_lastErrno api c else pa_errno a),
      pa_cipher = (if AskCipher \<in> set order then s else pa_cipher a),
      pa_enabled = (if AskEnabled \<in> set order then isOpen c \<and> s \<noteq> [] else pa_enabled a),
      pa_error = (if AskError \<in> set order then conn_lastError api c else pa_error a)\<rparr>, c)"
proof (induction order arbitrary: a)
  case (Cons k order)
  have "sslEnabled api c = (isOpen c \<and> s \<noteq> [], c)" using assms by (simp add: sslEnabled_def)
  with Cons assms show ?case by (cases k) simp_all
qed simp

lemma connection_probe_order:
  assumes "sslCipher api (snd (open_conn api b (probe_options lb arg) new_Connection)) =
      (s, snd (open_conn api b (probe_options lb arg) new_Connection))"
    and "set order = {AskErrno, AskCipher, AskEnabled, AskError}" and "set order' = set order"
  shows "connection_probe api b lb order arg = connection_probe api b lb order' arg"
  using assms ask_in_place [OF assms(1)]
  by (cases "open_conn api b (probe_options lb arg) new_Connection") (simp add: connection_probe_def)

end
