(* ===== verification/HashDelivery.thy ===== *)
theory HashDelivery
  imports Delivery
begin

text \<open>
  The host together with its hashing threads: the world that natives, ticks and workers change, and beside it what each
  hashing thread is doing.  It refines the pool of \<open>Engine\<close>, and what a script that hashes relies on is proved of it:
  between the native that accepts a password and the tick that calls back, whatever else happens, no hash is lost.
\<close>

declare map_of_eq_Some_iff [simp del] Some_eq_map_of_iff [simp del]

section \<open>Nothing but the natives puts jobs into the pool\<close>

lemma hashes_grow_refl [simp]: "hashes_grow c c"
  by (simp add: hashes_grow_same)

lemma hashes_grow_trans [trans]: "hashes_grow a b \<Longrightarrow> hashes_grow b c \<Longrightarrow> hashes_grow a c"
  by (auto simp: hashes_grow_def same_hashing_def)

lemma keeps_script_hashes: "keeps_script c d \<Longrightarrow> hashes_grow c d"
  by (auto simp: keeps_script_def hashes_grow_def)

lemma comp_step_hashes:
  assumes "comp_step api sapi c c'"
  shows "hashes_grow c c'"
  using assms
proof cases
  case connect
  then show ?thesis by (intro hashes_grow_same) (simp add: addConnection_def put_conn_def Let_def)
next
  case disconnect
  then show ?thesis by (blast intro: script.R_removeConnection keeps_script_hashes)
next
  case prepare
  then show ?thesis by (intro hashes_grow_same) (simp add: addStatement_def put_stmt_def)
next
  case bind_param
  then show ?thesis by (intro hashes_grow_same) (simp add: put_stmt_def)
next
  case stmt_close
  then show ?thesis by (blast intro: script.R_removeStatement keeps_script_hashes)
next
  case enqueue
  then show ?thesis by (blast intro: script.R_enqueueJob keeps_script_hashes)
next
  case sync
  then show ?thesis by (blast intro: script.R_runJobSync keeps_script_hashes)
next
  case work
  then show ?thesis by (blast intro: script.R_work keeps_script_hashes)
next
  case use_conn
  then show ?thesis by (intro hashes_grow_same) (simp add: put_conn_def)
next
  case restart
  then show ?thesis using reset_frame by (fastforce simp: hashes_grow_def same_hashing_def)
next
  case select
  then show ?thesis by (intro hashes_grow_same) (simp add: setActiveResultIndex_def split: option.splits)
next
  case retain
  then show ?thesis by (intro hashes_grow_same) (simp add: saveActiveCache_def split: option.splits)
next
  case reactivate
  then show ?thesis by (intro hashes_grow_same) (simp add: activateSavedCache_def split: option.splits)
next
  case release
  then show ?thesis by (intro hashes_grow_same) (simp add: deleteSavedCache_def)
qed (simp_all add: hashes_grow_def same_hashing_def setActiveCache_def clearActiveCache_def)

lemma steps_hashes: "steps api sapi c c' \<Longrightarrow> hashes_grow c c'"
  unfolding steps_def by (induction rule: rtranclp_induct) (auto intro: comp_step_hashes hashes_grow_trans)

section \<open>The host and its hashing threads\<close>

text \<open>
  \<open>po_threads\<close> is what each thread is doing, at the grain of \<open>Engine.hstep\<close>; the last two fields are history: the
  password jobs ever enqueued, and those a tick has taken.
\<close>

record ('m, 'st) pooled =
  po_world :: "('m, 'st) world"
  po_threads :: "hthread list"
  po_asked :: "HashJob list"
  po_taken :: "HashJob list"

definition world_engine :: "('m, 'st) world \<Rightarrow> QueryEngine" where
  "world_engine w = engine (wd_comp w)"

definition with_engine :: "QueryEngine \<Rightarrow> ('m, 'st) world \<Rightarrow> ('m, 'st) world" where
  "with_engine e w = w\<lparr>wd_comp := (wd_comp w)\<lparr>engine := e\<rparr>\<rparr>"

lemma world_engine_simps [simp]:
  "world_engine (with_engine e w) = e" "wd_comp (with_engine e w) = (wd_comp w)\<lparr>engine := e\<rparr>"
  by (simp_all add: world_engine_def with_engine_def)

text \<open>The jobs a step of the main thread has put into the pool.\<close>

definition newly :: "('m, 'st) world \<Rightarrow> ('m, 'st) world \<Rightarrow> HashJob list" where
  "newly w w' = drop (length (hashInput (world_engine w))) (hashInput (world_engine w'))"

text \<open>Everything but a tick: natives and workers, the start of the pool, a thread taking a job, a thread done with it.\<close>

inductive busy_step ::
    "argon2 \<Rightarrow> 'm client \<Rightarrow> ('m, 'st) stmt_client \<Rightarrow> ('m, 'st) script_exec \<Rightarrow> ('m, 'st) pooled \<Rightarrow> ('m, 'st) pooled \<Rightarrow> bool"
  for a2 :: argon2 and api :: "'m client" and sapi :: "('m, 'st) stmt_client" and exec :: "('m, 'st) script_exec" where
  native: "native_step api sapi exec (po_world p) w \<Longrightarrow>
    busy_step a2 api sapi exec p (p\<lparr>po_world := w, po_asked := po_asked p @ newly (po_world p) w\<rparr>)"
| load: "world_engine (po_world p) = e \<Longrightarrow>
    busy_step a2 api sapi exec p (p\<lparr>po_world := with_engine (startHashing n e) (po_world p),
      po_threads := po_threads p @ replicate (hashWorkers (startHashing n e) - hashWorkers e) H_Wait\<rparr>)"
| take_job: "i < length (po_threads p) \<Longrightarrow> po_threads p ! i = H_Wait \<Longrightarrow> hashInput (world_engine (po_world p)) = j # js \<Longrightarrow>
    busy_step a2 api sapi exec p
      (p\<lparr>po_world := with_engine ((world_engine (po_world p))\<lparr>hashInput := js\<rparr>) (po_world p),
         po_threads := (po_threads p)[i := H_Run j]\<rparr>)"
| finish_job: "i < length (po_threads p) \<Longrightarrow> po_threads p ! i = H_Run j \<Longrightarrow>
    busy_step a2 api sapi exec p
      (p\<lparr>po_world := with_engine (push_hash_output (run_hash_job a2 rd j) (world_engine (po_world p))) (po_world p),
         po_threads := (po_threads p)[i := H_Wait]\<rparr>)"

inductive pooled_step ::
    "argon2 \<Rightarrow> 'm client \<Rightarrow> ('m, 'st) stmt_client \<Rightarrow> ('m, 'st) script_exec \<Rightarrow> ('m, 'st) pooled \<Rightarrow> ('m, 'st) pooled \<Rightarrow> bool"
  for a2 :: argon2 and api :: "'m client" and sapi :: "('m, 'st) stmt_client" and exec :: "('m, 'st) script_exec" where
  busy: "busy_step a2 api sapi exec p p' \<Longrightarrow> pooled_step a2 api sapi exec p p'"
| tick: "onTick env exec (po_world p) = (w, calls) \<Longrightarrow>
    pooled_step a2 api sapi exec p (p\<lparr>po_world := w, po_asked := po_asked p @ newly (po_world p) w,
      po_taken := po_taken p @ hashOutput (world_engine (po_world p))\<rparr>)"

inductive pooled_reach ::
    "argon2 \<Rightarrow> 'm client \<Rightarrow> ('m, 'st) stmt_client \<Rightarrow> ('m, 'st) script_exec \<Rightarrow> ('m, 'st) pooled \<Rightarrow> bool"
  for a2 :: argon2 and api :: "'m client" and sapi :: "('m, 'st) stmt_client" and exec :: "('m, 'st) script_exec" where
  start: "wd_comp w = new_component \<Longrightarrow>
    pooled_reach a2 api sapi exec \<lparr>po_world = w, po_threads = [], po_asked = [], po_taken = []\<rparr>"
| step: "pooled_reach a2 api sapi exec p \<Longrightarrow> pooled_step a2 api sapi exec p p' \<Longrightarrow> pooled_reach a2 api sapi exec p'"

lemma with_engine_pool:
  "host_reach api sapi exec w \<Longrightarrow> completed e = completed (world_engine w) \<Longrightarrow> host_reach api sapi exec (with_engine e w)"
  using host_reach.pool by (simp add: with_engine_def world_engine_def)

lemma busy_step_host: "busy_step a2 api sapi exec p p' \<Longrightarrow> host_reach api sapi exec (po_world p) \<Longrightarrow> host_reach api sapi exec (po_world p')"
  by (erule busy_step.cases)
    (auto intro!: with_engine_pool simp: startHashing_def push_hash_output_def intro: host_reach.step host_step.native)

lemma pooled_host: "pooled_reach a2 api sapi exec p \<Longrightarrow> host_reach api sapi exec (po_world p)"
proof (induction rule: pooled_reach.induct)
  case (start w)
  then show ?case by (simp add: host_reach.start)
next
  case (step p p')
  from step.hyps(2) step.IH show ?case
    by (cases rule: pooled_step.cases) (auto intro: busy_step_host host_reach.step host_step.tick)
qed

text \<open>What the steps of the main thread do to the pool.\<close>

lemma native_step_hashes:
  assumes "native_step api sapi exec w w'" and "script_acts api sapi exec" and "results_ok (wd_comp w)"
  shows "same_hashing (world_engine w) (world_engine w') \<and>
    hashInput (world_engine w') = hashInput (world_engine w) @ newly w w'"
  using steps_hashes [OF native_step_steps [OF assms]] by (auto simp: hashes_grow_def world_engine_def newly_def)

lemma taken_hashes: "hashes_grow c (taken c)"
  by (simp add: hashes_grow_def same_hashing_def taken_def drainCompleted_def)

text \<open>
  The tick hands out just the hashes that were ready when it began, what the callbacks of its queries ask for goes to the
  back of the input.
\<close>

lemma tick_hashes:
  assumes ex: "script_acts api sapi exec" and ok: "results_ok (wd_comp w)" and t: "onTick env exec w = (w', calls)"
  shows "world_engine w' = (world_engine w')\<lparr>hashOutput := []\<rparr> \<and>
    hashWorkers (world_engine w') = hashWorkers (world_engine w) \<and>
    hashRunning (world_engine w') = hashRunning (world_engine w) \<and>
    hashInput (world_engine w') = hashInput (world_engine w) @ newly w w' \<and>
    set (concat (map (hash_calls env) (hashOutput (world_engine w)))) \<subseteq> set calls"
proof -
  from onTick_steps [OF ex ok t] obtain w1 calls1 calls2 where w1:
      "dispatch_jobs env exec (completed (engine (wd_comp w))) (w\<lparr>wd_comp := taken (wd_comp w)\<rparr>) = (w1, calls1)"
      "dispatch_hashes env exec (hashOutput (engine (wd_comp w1))) (w1\<lparr>wd_comp := hashes_taken (wd_comp w1)\<rparr>) = (w', calls2)"
      "steps api sapi (taken (wd_comp w)) (wd_comp w1)" "steps api sapi (hashes_taken (wd_comp w1)) (wd_comp w')"
    by blast
  have a: "hashes_grow (wd_comp w) (wd_comp w1)" using hashes_grow_trans [OF taken_hashes steps_hashes [OF w1(3)]] .
  have b: "hashes_grow (hashes_taken (wd_comp w1)) (wd_comp w')" using steps_hashes [OF w1(4)] .
  have "calls = calls1 @ calls2" using t w1(1,2) by (simp add: onTick_split)
  moreover have "calls2 = concat (map (hash_calls env) (hashOutput (engine (wd_comp w1))))"
    using w1(2) dispatch_hashes_calls by (metis snd_conv)
  ultimately show ?thesis
    using a b by (auto simp: hashes_grow_def same_hashing_def hashes_taken_def drainHashes_def world_engine_def newly_def)
qed

section \<open>Refinement of the pool\<close>

text \<open>The pool as \<open>Engine\<close> knows it, which has no completed queries.\<close>

definition abs_pooled :: "('m, 'st) pooled \<Rightarrow> hpool" where
  "abs_pooled p = \<lparr>hp_engine = (world_engine (po_world p))\<lparr>completed := []\<rparr>, hp_threads = po_threads p,
     hp_enqueued = po_asked p, hp_drained = po_taken p\<rparr>"

lemma completed_last:
  "e\<lparr>completed := cs, hashInput := js\<rparr> = e\<lparr>hashInput := js, completed := cs\<rparr>"
  "e\<lparr>completed := cs, hashOutput := ks\<rparr> = e\<lparr>hashOutput := ks, completed := cs\<rparr>"
  by (cases e; simp)+

lemma enqueue_many:
  "(hstep a2)\<^sup>*\<^sup>* s (s\<lparr>hp_engine := (hp_engine s)\<lparr>hashInput := hashInput (hp_engine s) @ js\<rparr>,
     hp_enqueued := hp_enqueued s @ js\<rparr>)"
proof (induction js arbitrary: s)
  case (Cons j js)
  let ?t = "s\<lparr>hp_engine := enqueueHash j (hp_engine s), hp_enqueued := hp_enqueued s @ [j]\<rparr>"
  have "hstep a2 s ?t" by (rule hstep.enqueue_hash)
  also have "(hstep a2)\<^sup>*\<^sup>* ?t (?t\<lparr>hp_engine := (hp_engine ?t)\<lparr>hashInput := hashInput (hp_engine ?t) @ js\<rparr>,
     hp_enqueued := hp_enqueued ?t @ js\<rparr>)" by (rule Cons.IH)
  finally show ?case by (simp add: enqueueHash_def)
qed simp

lemma abs_grow:
  assumes "same_hashing (world_engine (po_world p)) (world_engine w)"
    and "hashInput (world_engine w) = hashInput (world_engine (po_world p)) @ js"
  shows "(hstep a2)\<^sup>*\<^sup>* (abs_pooled p) (abs_pooled (p\<lparr>po_world := w, po_asked := po_asked p @ js\<rparr>))"
proof -
  have "(world_engine w)\<lparr>completed := []\<rparr> = (world_engine (po_world p))\<lparr>completed := [], hashInput := hashInput (world_engine w)\<rparr>"
    using assms by (simp add: same_hashing_def)
  with enqueue_many [of a2 "abs_pooled p" js] assms(2) show ?thesis by (simp add: abs_pooled_def)
qed

lemma busy_step_refines:
  assumes st: "busy_step a2 api sapi exec p p'" and ex: "script_acts api sapi exec" and ok: "results_ok (wd_comp (po_world p))"
  shows "(hstep a2)\<^sup>*\<^sup>* (abs_pooled p) (abs_pooled p')"
  using st
proof cases
  case (native w)
  with native_step_hashes [OF native(2) ex ok] abs_grow show ?thesis by blast
next
  case (load e n)
  have "startHashing n (e\<lparr>completed := []\<rparr>) = (startHashing n e)\<lparr>completed := []\<rparr>" by (simp add: startHashing_def)
  with hstep.start [of "abs_pooled p" "e\<lparr>completed := []\<rparr>" a2 n] load show ?thesis
    by (simp add: abs_pooled_def r_into_rtranclp)
next
  case (take_job i j js)
  with hstep.take_hash [of i "abs_pooled p" j js a2] show ?thesis
    by (simp add: abs_pooled_def completed_last r_into_rtranclp)
next
  case (finish_job i j rd)
  with hstep.finish_hash [of i "abs_pooled p" j a2 rd] show ?thesis
    by (simp add: abs_pooled_def push_hash_output_def completed_last r_into_rtranclp)
qed

lemma tick_refines:
  assumes ex: "script_acts api sapi exec" and ok: "results_ok (wd_comp (po_world p))"
    and t: "onTick env exec (po_world p) = (w, calls)"
  shows "(hstep a2)\<^sup>*\<^sup>* (abs_pooled p) (abs_pooled (p\<lparr>po_world := w, po_asked := po_asked p @ newly (po_world p) w,
      po_taken := po_taken p @ hashOutput (world_engine (po_world p))\<rparr>))"
proof -
  let ?e = "world_engine (po_world p)"
  let ?q = "p\<lparr>po_world := with_engine (?e\<lparr>hashOutput := []\<rparr>) (po_world p), po_taken := po_taken p @ hashOutput ?e\<rparr>"
  have "hstep a2 (abs_pooled p) (abs_pooled ?q)"
    using hstep.drain_hashes [of "abs_pooled p" "hashOutput ?e" "?e\<lparr>completed := [], hashOutput := []\<rparr>" a2]
    by (simp add: abs_pooled_def drainHashes_def completed_last)
  moreover have h: "hashOutput (world_engine w) = []" using tick_hashes [OF ex ok t] by (metis QueryEngine.select_convs(5) QueryEngine.surjective QueryEngine.update_convs(5))
  have "(hstep a2)\<^sup>*\<^sup>* (abs_pooled ?q) (abs_pooled (?q\<lparr>po_world := w, po_asked := po_asked ?q @ newly (po_world p) w\<rparr>))"
    using tick_hashes [OF ex ok t] h by (intro abs_grow) (simp_all add: same_hashing_def)
  then have "(hstep a2)\<^sup>*\<^sup>* (abs_pooled ?q) (abs_pooled (p\<lparr>po_world := w, po_asked := po_asked p @ newly (po_world p) w,
      po_taken := po_taken p @ hashOutput ?e\<rparr>))" by (simp add: abs_pooled_def)
  ultimately show ?thesis by simp
qed

lemma pooled_reach_ok:
  "pooled_reach a2 api sapi exec p \<Longrightarrow> script_acts api sapi exec \<Longrightarrow> small_counts sapi \<Longrightarrow> results_ok (wd_comp (po_world p))"
  using pooled_host host_life by blast

lemma pooled_step_refines:
  assumes "pooled_step a2 api sapi exec p p'" and ex: "script_acts api sapi exec" and ok: "results_ok (wd_comp (po_world p))"
  shows "(hstep a2)\<^sup>*\<^sup>* (abs_pooled p) (abs_pooled p')"
  using assms(1)
proof cases
  case busy
  then show ?thesis by (rule busy_step_refines [OF _ ex ok])
next
  case (tick env w calls)
  then show ?thesis using tick_refines [OF ex ok] by blast
qed

lemma hreach_run: "(hstep a2)\<^sup>*\<^sup>* s t \<Longrightarrow> hreach a2 s \<Longrightarrow> hreach a2 t"
  by (induction rule: rtranclp_induct) (auto intro: hreach.step)

lemma pooled_hreach:
  "pooled_reach a2 api sapi exec p \<Longrightarrow> script_acts api sapi exec \<Longrightarrow> small_counts sapi \<Longrightarrow> hreach a2 (abs_pooled p)"
proof (induction rule: pooled_reach.induct)
  case (start w)
  have "abs_pooled \<lparr>po_world = w, po_threads = [], po_asked = [], po_taken = []\<rparr> = init_pool"
    using start by (simp add: abs_pooled_def init_pool_def world_engine_def new_component_def new_engine_def)
  then show ?case by (simp add: hreach.init)
next
  case (step p p')
  then show ?case using pooled_step_refines [OF step.hyps(2)] pooled_reach_ok [OF step.hyps(1)] hreach_run by blast
qed

section \<open>A job on its way through the pool\<close>

definition in_pool :: "argon2 \<Rightarrow> HashJob \<Rightarrow> ('m, 'st) pooled \<Rightarrow> bool" where
  "in_pool a2 j p \<longleftrightarrow> j \<in> set (hashInput (world_engine (po_world p))) \<or> H_Run j \<in> set (po_threads p) \<or>
     (\<exists>k \<in> set (hashOutput (world_engine (po_world p))). hash_answer a2 j k)"

lemma set_update_keeps: "x \<in> set xs \<Longrightarrow> xs ! i \<noteq> x \<Longrightarrow> x \<in> set (xs[i := y])"
  by (metis in_set_conv_nth length_list_update nth_list_update_neq)

lemma busy_step_in_pool:
  assumes st: "busy_step a2 api sapi exec p p'" and ex: "script_acts api sapi exec" and ok: "results_ok (wd_comp (po_world p))"
    and j: "in_pool a2 j p"
  shows "in_pool a2 j p'"
  using st
proof cases
  case (native w)
  with native_step_hashes [OF native(2) ex ok] j show ?thesis by (auto simp: in_pool_def same_hashing_def)
next
  case (load e n)
  with j show ?thesis by (auto simp: in_pool_def)
next
  case (take_job i k ks)
  with j set_update_keeps [of "H_Run j" "po_threads p" i "H_Run k"] set_update_memI [OF take_job(2), of "H_Run k"]
  show ?thesis by (auto simp: in_pool_def)
next
  case (finish_job i k rd)
  with j set_update_keeps [of "H_Run j" "po_threads p" i H_Wait] show ?thesis
    by (auto simp: in_pool_def push_hash_output_def hash_answer_def)
qed

lemma busy_reach:
  "(busy_step a2 api sapi exec)\<^sup>*\<^sup>* p q \<Longrightarrow> pooled_reach a2 api sapi exec p \<Longrightarrow> pooled_reach a2 api sapi exec q"
  by (induction rule: rtranclp_induct) (auto intro: pooled_step.busy pooled_reach.step)

lemma busy_run:
  "(busy_step a2 api sapi exec)\<^sup>*\<^sup>* p q \<Longrightarrow> pooled_reach a2 api sapi exec p \<Longrightarrow> script_acts api sapi exec \<Longrightarrow>
     small_counts sapi \<Longrightarrow> in_pool a2 j p \<Longrightarrow> pooled_reach a2 api sapi exec q \<and> in_pool a2 j q"
proof (induction rule: rtranclp_induct)
  case (step q r)
  then have q: "pooled_reach a2 api sapi exec q" "in_pool a2 j q" by blast+
  have "pooled_reach a2 api sapi exec r" using pooled_reach.step [OF q(1) pooled_step.busy [OF step.hyps(2)]] .
  moreover have "in_pool a2 j r"
    using busy_step_in_pool [OF step.hyps(2) step.prems(2) pooled_reach_ok [OF q(1) step.prems(2,3)] q(2)] .
  ultimately show ?case ..
qed simp

text \<open>At rest, and the way there: as long as there is a thread, the pool can work off whatever it holds.\<close>

definition at_rest :: "('m, 'st) pooled \<Rightarrow> bool" where
  "at_rest p \<longleftrightarrow> hashInput (world_engine (po_world p)) = [] \<and> (\<forall>j. H_Run j \<notin> set (po_threads p))"

lemma rest_in_output: "in_pool a2 j p \<Longrightarrow> at_rest p \<Longrightarrow> \<exists>k \<in> set (hashOutput (world_engine (po_world p))). hash_answer a2 j k"
  by (simp add: in_pool_def at_rest_def)

lemma busy_threads: "busy_step a2 api sapi exec p p' \<Longrightarrow> H_Exit \<notin> set (po_threads p) \<Longrightarrow> H_Exit \<notin> set (po_threads p')"
  by (erule busy_step.cases) (auto dest!: subsetD [OF set_update_subset_insert])

lemma pooled_threads: "pooled_reach a2 api sapi exec p \<Longrightarrow> H_Exit \<notin> set (po_threads p)"
proof (induction rule: pooled_reach.induct)
  case (step p p')
  from step.hyps(2) step.IH show ?case by (cases rule: pooled_step.cases) (simp_all add: busy_threads)
qed simp

lemma finish_running:
  assumes "H_Exit \<notin> set (po_threads p)"
  shows "n \<le> length (po_threads p) \<Longrightarrow> \<exists>q. (busy_step a2 api sapi exec)\<^sup>*\<^sup>* p q \<and>
    po_threads q = replicate n H_Wait @ drop n (po_threads p)"
proof (induction n)
  case (Suc n)
  then obtain q where q: "(busy_step a2 api sapi exec)\<^sup>*\<^sup>* p q" "po_threads q = replicate n H_Wait @ drop n (po_threads p)"
    by auto
  let ?t = "po_threads p ! n"
  have len: "n < length (po_threads p)" using Suc.prems by simp
  then have t: "po_threads q = replicate n H_Wait @ ?t # drop (Suc n) (po_threads p)" using q(2) by (simp add: Cons_nth_drop_Suc)
  have done_form: "replicate n H_Wait @ H_Wait # xs = replicate (Suc n) H_Wait @ xs" for xs :: "hthread list"
    by (metis append.assoc append_Cons append_Nil replicate_Suc replicate_append_same)
  show ?case
  proof (cases ?t)
    case H_Wait
    with q(1) t done_form show ?thesis by metis
  next
    case (H_Run j)
    let ?r = "q\<lparr>po_world := with_engine (push_hash_output (run_hash_job a2 (\<lambda>_. 0) j) (world_engine (po_world q))) (po_world q),
        po_threads := (po_threads q)[n := H_Wait]\<rparr>"
    have "busy_step a2 api sapi exec q ?r"
      by (rule busy_step.finish_job) (use t H_Run in \<open>simp_all add: nth_append\<close>)
    with q(1) have "(busy_step a2 api sapi exec)\<^sup>*\<^sup>* p ?r" by (rule rtranclp.rtrancl_into_rtrancl)
    moreover have "po_threads ?r = replicate (Suc n) H_Wait @ drop (Suc n) (po_threads p)"
      using t done_form by (simp add: list_update_append)
    ultimately show ?thesis by blast
  next
    case H_Exit
    with len assms show ?thesis by (metis nth_mem)
  qed
qed auto

lemma work_off_input:
  "hashInput (world_engine (po_world p)) = js \<Longrightarrow> po_threads p = replicate (Suc n) H_Wait \<Longrightarrow>
     \<exists>q. (busy_step a2 api sapi exec)\<^sup>*\<^sup>* p q \<and> at_rest q"
proof (induction js arbitrary: p)
  case Nil
  then have "at_rest p" by (simp add: at_rest_def)
  then show ?case by blast
next
  case (Cons j js)
  let ?q = "p\<lparr>po_world := with_engine ((world_engine (po_world p))\<lparr>hashInput := js\<rparr>) (po_world p),
      po_threads := (po_threads p)[0 := H_Run j]\<rparr>"
  let ?r = "?q\<lparr>po_world := with_engine (push_hash_output (run_hash_job a2 (\<lambda>_. 0) j) (world_engine (po_world ?q))) (po_world ?q),
      po_threads := (po_threads ?q)[0 := H_Wait]\<rparr>"
  have "busy_step a2 api sapi exec p ?q" by (rule busy_step.take_job) (use Cons.prems in simp_all)
  moreover have "busy_step a2 api sapi exec ?q ?r" by (rule busy_step.finish_job) (use Cons.prems in simp_all)
  moreover have "hashInput (world_engine (po_world ?r)) = js" "po_threads ?r = replicate (Suc n) H_Wait"
    using Cons.prems by (simp_all add: push_hash_output_def)
  with Cons.IH obtain s where "(busy_step a2 api sapi exec)\<^sup>*\<^sup>* ?r s" "at_rest s" by blast
  ultimately show ?case by (meson converse_rtranclp_into_rtranclp)
qed

lemma comes_to_rest:
  assumes "pooled_reach a2 api sapi exec p" and "po_threads p \<noteq> []"
  shows "\<exists>q. (busy_step a2 api sapi exec)\<^sup>*\<^sup>* p q \<and> at_rest q"
proof -
  have "\<exists>q. (busy_step a2 api sapi exec)\<^sup>*\<^sup>* p q \<and> po_threads q = replicate (length (po_threads p)) H_Wait"
    using finish_running [OF pooled_threads [OF assms(1)], of "length (po_threads p)" a2 api sapi exec] by simp
  then obtain q where q: "(busy_step a2 api sapi exec)\<^sup>*\<^sup>* p q" "po_threads q = replicate (length (po_threads p)) H_Wait"
    by blast
  from assms(2) obtain n where "length (po_threads p) = Suc n" by (cases "po_threads p") auto
  with q work_off_input [OF refl, of q n] show ?thesis by (metis rtranclp_trans)
qed

lemma put_hash_newly: "newly w (put_hash job w) = [job]"
  by (simp add: newly_def put_hash_def world_engine_def enqueueHash_def)

text \<open>What a tick calls for a hash that is ready.\<close>

lemma tick_calls_hash:
  assumes "script_acts api sapi exec" and "results_ok (wd_comp w)" and "k \<in> set (hashOutput (world_engine w))"
  shows "set (hash_calls env k) \<subseteq> set (snd (onTick env exec w))"
proof -
  obtain w' calls where t: "onTick env exec w = (w', calls)" by (cases "onTick env exec w")
  from tick_hashes [OF assms(1,2) t] assms(3) have "set (hash_calls env k) \<subseteq> set calls" by auto
  with t show ?thesis by simp
qed

lemma put_hash_answered:
  assumes reach: "pooled_reach a2 api sapi exec p0" and ex: "script_acts api sapi exec" and n: "small_counts sapi"
    and st: "native_step api sapi exec (po_world p0) (put_hash j (po_world p0))"
    and run: "(busy_step a2 api sapi exec)\<^sup>*\<^sup>* (p0\<lparr>po_world := put_hash j (po_world p0), po_asked := po_asked p0 @ [j]\<rparr>) p"
    and rest: "at_rest p"
  shows "\<exists>rd. set (hash_calls env (run_hash_job a2 rd j)) \<subseteq> set (snd (onTick env exec (po_world p)))"
proof -
  let ?p1 = "p0\<lparr>po_world := put_hash j (po_world p0), po_asked := po_asked p0 @ [j]\<rparr>"
  have "busy_step a2 api sapi exec p0 ?p1" using busy_step.native [OF st] by (simp add: put_hash_newly)
  then have p1: "pooled_reach a2 api sapi exec ?p1" by (rule pooled_reach.step [OF reach pooled_step.busy])
  have "in_pool a2 j ?p1" by (simp add: in_pool_def put_hash_def world_engine_def enqueueHash_def)
  from busy_run [OF run p1 ex n this] have p: "pooled_reach a2 api sapi exec p" "in_pool a2 j p" by simp_all
  from rest_in_output [OF p(2) rest] obtain k where k: "k \<in> set (hashOutput (world_engine (po_world p)))" "hash_answer a2 j k"
    by blast
  with tick_calls_hash [OF ex pooled_reach_ok [OF p(1) ex n] k(1)] show ?thesis by (auto simp: hash_answer_def)
qed

text \<open>
  The example above \<^verbatim>\<open>mysql_hash\<close> in \<^verbatim>\<open>include/omp-mysql.inc\<close>, which passes a player where the algorithm is expected,
  loses it: with four parameters no argument is decoded, whatever the format.
\<close>

lemma decode_nothing: "param_count params < p \<Longrightarrow> DecodeFormat sc mem params p fmt = []"
  by (cases fmt) (simp_all add: DecodeFormat_def)

theorem hash_example_drops_player:
  assumes "param_count params = 4"
  shows "\<exists>job. n_mysql_hash_password sc params w = (1, put_hash job w) \<and> hj_args job = [] \<and>
    hj_callback job = AmxStringParam sc (wd_mem w) (params ! 2)"
  by (rule exI [of _ "default_hash_job\<lparr>hj_op := Hash, hj_password := AmxStringParam sc (wd_mem w) (params ! 1),
      hj_callback := AmxStringParam sc (wd_mem w) (params ! 2), hj_args := []\<rparr>"])
     (use assms in \<open>simp add: n_mysql_hash_password_def decode_nothing\<close>)

section \<open>Properties\<close>

text \<open>
  C33: the whole host with its hashing threads refines the pool of \<open>Engine\<close>: each step, a native, a tick with whatever the
  called scripts do, a worker, a thread, is a sequence of the pool's own steps, so from any history the pool has exactly
  one answer for each password job ever enqueued by a script, taken by a tick or waiting for one.
\<close>

theorem host_refines_pool:
  assumes "pooled_reach a2 api sapi exec p" and "script_acts api sapi exec" and "small_counts sapi"
    and "pooled_step a2 api sapi exec p p'"
  shows "(hstep a2)\<^sup>*\<^sup>* (abs_pooled p) (abs_pooled p') \<and>
    (\<exists>dn. mset (po_asked p') = mset (hashInput (world_engine (po_world p'))) + in_hand (abs_pooled p') + mset dn \<and>
      list_all2 (hash_answer a2) dn (po_taken p' @ hashOutput (world_engine (po_world p'))))"
proof -
  have st: "(hstep a2)\<^sup>*\<^sup>* (abs_pooled p) (abs_pooled p')"
    using pooled_step_refines [OF assms(4,2) pooled_reach_ok [OF assms(1-3)]] .
  from hreach_inv [OF hreach_run [OF st pooled_hreach [OF assms(1-3)]]] st show ?thesis
    by (simp add: pool_inv_def abs_pooled_def)
qed


section \<open>Witnesses\<close>

text \<open>One hashing thread; a script hashes the password \<^verbatim>\<open>SELECT 1\<close> for its public \<open>OnLoaded\<close>; the thread answers.\<close>

definition password_job :: HashJob where
  "password_job = default_hash_job\<lparr>hj_op := Hash, hj_password := ''SELECT 1'', hj_callback := ''OnLoaded''\<rparr>"

definition pool_loaded :: "(nat, nat) pooled" where
  "pool_loaded = \<lparr>po_world = with_engine (startHashing 1 new_engine) demo_world, po_threads = [H_Wait], po_asked = [],
     po_taken = []\<rparr>"

definition pool_asked :: "(nat, nat) pooled" where
  "pool_asked = pool_loaded\<lparr>po_world := put_hash password_job (po_world pool_loaded), po_asked := [password_job]\<rparr>"

definition pool_hashed :: "(nat, nat) pooled" where
  "pool_hashed = pool_asked\<lparr>po_world := with_engine (push_hash_output (run_hash_job plain_argon2 (\<lambda>_. 0) password_job)
     (startHashing 1 new_engine)) demo_world\<rparr>"

lemma pool_loaded_reach: "pooled_reach a2 tls_client one_row_client demo_exec pool_loaded"
proof -
  have "pooled_reach a2 tls_client one_row_client demo_exec \<lparr>po_world = demo_world, po_threads = [], po_asked = [], po_taken = []\<rparr>"
    by (rule pooled_reach.start) (simp add: demo_world_def)
  from pooled_reach.step [OF this pooled_step.busy [OF busy_step.load [of _ new_engine _ _ _ _ 1]]] show ?thesis
    by (simp add: world_engine_def demo_world_def new_component_def pool_loaded_def with_engine_def startHashing_def new_engine_def)
qed

lemma ask_hash: "n_mysql_hash_password (ne_script ask_env 0) [8, 0, 3] (po_world pool_loaded) = (1, po_world pool_asked)"
  by (simp add: n_mysql_hash_password_def param_count_def ask_env_def AmxStringParam_def pool_asked_def password_job_def
      default_hash_job_def)

lemma pool_asked_eq: "pool_loaded\<lparr>po_world := po_world pool_asked,
    po_asked := po_asked pool_loaded @ newly (po_world pool_loaded) (po_world pool_asked)\<rparr> = pool_asked"
  by (simp add: pool_asked_def put_hash_newly) (simp add: pool_loaded_def)

lemma pool_hashed_run: "(busy_step plain_argon2 tls_client one_row_client demo_exec)\<^sup>*\<^sup>* pool_asked pool_hashed"
proof -
  have e: "world_engine (po_world pool_asked) = (startHashing 1 new_engine)\<lparr>hashInput := [password_job]\<rparr>"
    by (simp add: pool_asked_def pool_loaded_def put_hash_def world_engine_def with_engine_def enqueueHash_def startHashing_def
        new_engine_def)
  let ?q = "pool_asked\<lparr>po_world := with_engine ((world_engine (po_world pool_asked))\<lparr>hashInput := []\<rparr>) (po_world pool_asked),
      po_threads := (po_threads pool_asked)[0 := H_Run password_job]\<rparr>"
  have "busy_step plain_argon2 tls_client one_row_client demo_exec pool_asked ?q"
    by (rule busy_step.take_job) (simp_all add: e, simp_all add: pool_asked_def pool_loaded_def)
  moreover have "busy_step plain_argon2 tls_client one_row_client demo_exec ?q pool_hashed"
  proof -
    have "pool_hashed = ?q\<lparr>po_world := with_engine (push_hash_output (run_hash_job plain_argon2 (\<lambda>_. 0) password_job)
        (world_engine (po_world ?q))) (po_world ?q), po_threads := (po_threads ?q)[0 := H_Wait]\<rparr>"
      by (simp add: pool_hashed_def e) (simp add: pool_asked_def pool_loaded_def with_engine_def put_hash_def startHashing_def new_engine_def)
    moreover have "0 < length (po_threads ?q)" "po_threads ?q ! 0 = H_Run password_job"
      by (simp_all add: pool_asked_def pool_loaded_def)
    ultimately show ?thesis by (metis busy_step.finish_job)
  qed
  ultimately show ?thesis by (meson r_into_rtranclp rtranclp.rtrancl_into_rtrancl)
qed

lemma pool_hashed_rest: "at_rest pool_hashed"
  by (simp add: at_rest_def pool_hashed_def pool_asked_def pool_loaded_def push_hash_output_def startHashing_def new_engine_def)

theorem host_refines_pool_witness:
  "\<exists>dn. {#password_job#} = {#password_job#} + mset dn \<and> list_all2 (hash_answer plain_argon2) dn []"
proof -
  have "native_step tls_client one_row_client demo_exec (po_world pool_loaded) (po_world pool_asked)"
    by (rule native_step.hashing [of _ "ne_script ask_env 0" "[8, 0, 3]"]) (simp add: ask_hash)
  from busy_step.native [OF this] have "pooled_step plain_argon2 tls_client one_row_client demo_exec pool_loaded pool_asked"
    unfolding pool_asked_eq by (rule pooled_step.busy)
  from host_refines_pool [OF pool_loaded_reach demo_acts one_row_small this] show ?thesis
    by (simp add: pool_asked_def pool_loaded_def put_hash_def world_engine_def with_engine_def enqueueHash_def startHashing_def
        new_engine_def in_hand_def abs_pooled_def)
qed


end
