(* ===== verification/Binding.thy ===== *)
theory Binding
  imports Delivery
begin

text \<open>
  The parameters of a prepared statement, from the setter a script calls to the values the server gets.  A frame
  (\<open>Frames.component_frame\<close>) shows that nothing but the setters, and the first execution with the count the server
  announces, touches what is staged; the history \<open>binding_run\<close> keeps the settings in the order in which they were made.
\<close>

section \<open>What a setter stages\<close>

definition stage :: "(StmtParam \<Rightarrow> StmtParam) \<Rightarrow> int \<Rightarrow> StmtParam list \<Rightarrow> StmtParam list" where
  "stage g i ps = (if i < 0 then ps
     else let qs = resize (max (nat i + 1) (length ps)) ps in qs[nat i := g (qs ! nat i)])"

datatype setting = SetInt int int | SetFloat int cell | SetString int string | SetNull int

text \<open>The index is the script's, which counts from 1.\<close>

fun staged :: "setting \<Rightarrow> StmtParam list \<Rightarrow> StmtParam list" where
  "staged (SetInt k v) = stage (\<lambda>q. q\<lparr>sp_kind := KInt, sp_intValue := v\<rparr>) (k - 1)"
| "staged (SetFloat k v) = stage (\<lambda>q. q\<lparr>sp_kind := KFloat, sp_floatValue := v\<rparr>) (k - 1)"
| "staged (SetString k v) = stage (\<lambda>q. q\<lparr>sp_kind := KString, sp_stringValue := v\<rparr>) (k - 1)"
| "staged (SetNull k) = stage (\<lambda>q. q\<lparr>sp_kind := KNull\<rparr>) (k - 1)"

text \<open>A setter called on the handle of the statement at an address.\<close>

definition sets_param :: "nat \<Rightarrow> setting \<Rightarrow> ('m, 'st) component \<Rightarrow> ('m, 'st) component \<Rightarrow> bool" where
  "sets_param a x c c' \<longleftrightarrow> (\<exists>h. getStatement h c = Some a \<and> (case x of
       SetInt k v \<Rightarrow> mysql_stmt_set_int h k v c = Found (True, c')
     | SetFloat k v \<Rightarrow> mysql_stmt_set_float h k v c = Found (True, c')
     | SetString k v \<Rightarrow> \<exists>lenv lg. fst (mysql_stmt_set_string lenv h k v c lg) = Found (True, c')
     | SetNull k \<Rightarrow> mysql_stmt_set_null h k c = Found (True, c')))"

lemma resize_length [simp]: "resize (length ps) ps = ps"
  by (simp add: resize_def)

lemma set_param_stage: "ps_params (set_param g i p) = stage g i (ps_params p)"
  by (auto simp: set_param_def ensureParam_def stage_def Let_def max_def)

lemma set_param_rest:
  "ps_prepared (set_param g i p) = ps_prepared p" "ps_stmt (set_param g i p) = ps_stmt p"
  "ps_query (set_param g i p) = ps_query p"
  by (simp_all add: set_param_def ensureParam_def)

lemma set_param_negative: "i < 0 \<Longrightarrow> set_param g i p = p"
  by (simp add: set_param_def ensureParam_def)

lemma on_stmt_split:
  assumes "on_stmt h k bind c = Found (True, c')" and "getStatement h c = Some a"
  obtains p where "so_stmts (heap c) a = Some p" "c' = put_stmt a (Some (bind (k - 1) p)) c"
proof (cases "so_stmts (heap c) a")
  case None
  with assms show ?thesis by (simp add: on_stmt_def)
next
  case (Some p)
  show ?thesis by (rule that [OF Some]) (use assms Some in \<open>auto simp: on_stmt_def split: if_splits\<close>)
qed

lemma sets_param_split:
  assumes "sets_param a x c c'"
  obtains g i p where "so_stmts (heap c) a = Some p" "c' = put_stmt a (Some (set_param g i p)) c" "staged x = stage g i"
proof -
  from assms obtain h where h: "getStatement h c = Some a" and
    call: "case x of SetInt k v \<Rightarrow> on_stmt h k (\<lambda>i. bindInt i v) c = Found (True, c')
     | SetFloat k v \<Rightarrow> on_stmt h k (\<lambda>i. bindFloat i v) c = Found (True, c')
     | SetString k v \<Rightarrow> on_stmt h k (\<lambda>i. bindString i v) c = Found (True, c')
     | SetNull k \<Rightarrow> on_stmt h k bindNull c = Found (True, c')"
    by (cases x) (auto simp: sets_param_def mysql_stmt_set_int_def mysql_stmt_set_float_def mysql_stmt_set_string_def
        mysql_stmt_set_null_def)
  show ?thesis
    using call by (cases x) (auto simp: bind_defs elim!: on_stmt_split [OF _ h] intro: that)
qed

lemma sets_param_workers: "sets_param a x c c' \<Longrightarrow> workers c' = workers c"
  by (erule sets_param_split) (simp add: put_stmt_def)

text \<open>Conversely, each setter call that is no overflow is a setting.\<close>

lemma binder_sets:
  assumes "getStatement h c = Some a" and "so_stmts (heap c) a = Some p" and "i \<noteq> - (2 ^ 31) - 1"
    and "q \<in> {bindInt i v p, bindFloat i z p, bindString i t p, bindNull i p}"
  shows "\<exists>x. sets_param a x c (put_stmt a (Some q) c)"
proof -
  from assms(4) consider "q = bindInt i v p" | "q = bindFloat i z p" | "q = bindString i t p" | "q = bindNull i p" by auto
  then show ?thesis
  proof cases
    case 1
    with assms show ?thesis
      by (intro exI [of _ "SetInt (i + 1) v"]) (auto simp: sets_param_def mysql_stmt_set_int_def on_stmt_def)
  next
    case 2
    with assms show ?thesis
      by (intro exI [of _ "SetFloat (i + 1) z"]) (auto simp: sets_param_def mysql_stmt_set_float_def on_stmt_def)
  next
    case 3
    with assms show ?thesis
      by (intro exI [of _ "SetString (i + 1) t"]) (auto simp: sets_param_def mysql_stmt_set_string_def on_stmt_def)
  next
    case 4
    with assms show ?thesis
      by (intro exI [of _ "SetNull (i + 1)"]) (auto simp: sets_param_def mysql_stmt_set_null_def on_stmt_def)
  qed
qed

section \<open>What an execution sends\<close>

text \<open>
  The library handles that stand for a text: prepared from it, and then used for any number of executions.  The server
  announces the count of parameters with the answer to the preparation.
\<close>

inductive handle_for :: "('m, 'st) stmt_client \<Rightarrow> string \<Rightarrow> 'st \<Rightarrow> bool" for sapi :: "('m, 'st) stmt_client" and sql where
  prepared: "st_init sapi m = Some st \<Longrightarrow> st_prepare sapi st sql = (0, st') \<Longrightarrow> handle_for sapi sql st'"
| bound: "handle_for sapi sql st \<Longrightarrow> st_bind_param sapi st binds = (rc, st') \<Longrightarrow> handle_for sapi sql st'"
| executed: "handle_for sapi sql st \<Longrightarrow> run_prepared sapi st = Some (res, st') \<Longrightarrow> handle_for sapi sql st'"

definition announces :: "('m, 'st) stmt_client \<Rightarrow> string \<Rightarrow> nat \<Rightarrow> bool" where
  "announces sapi sql n \<longleftrightarrow> (\<exists>m st st'. st_init sapi m = Some st \<and> st_prepare sapi st sql = (0, st') \<and>
     n = st_param_count sapi st')"

text \<open>The values are bound to a handle of the text, which is then executed and answers with the result.\<close>

definition sends :: "('m, 'st) stmt_client \<Rightarrow> string \<Rightarrow> StmtParam list \<Rightarrow> ResultSet \<Rightarrow> bool" where
  "sends sapi sql args rset \<longleftrightarrow> (\<exists>st st1 st2. handle_for sapi sql st \<and>
     (if args = [] then st1 = st else st_bind_param sapi st (map bind_of args) = (0, st1)) \<and>
     run_prepared sapi st1 = Some (Some rset, st2))"

definition ps_good :: "('m, 'st) stmt_client \<Rightarrow> 'st PreparedStatement \<Rightarrow> bool" where
  "ps_good sapi p \<longleftrightarrow> ps_wf p \<and> (ps_prepared p \<longrightarrow> handle_for sapi (ps_query p) (the (ps_stmt p)))"

text \<open>What executions may do to a statement: adjust the staged values once, to the announced count.\<close>

definition later :: "('m, 'st) stmt_client \<Rightarrow> 'st PreparedStatement \<Rightarrow> 'st PreparedStatement \<Rightarrow> bool" where
  "later sapi p p' \<longleftrightarrow> ps_query p' = ps_query p \<and>
     ((ps_prepared p' = ps_prepared p \<and> ps_params p' = ps_params p) \<or>
      (\<not> ps_prepared p \<and> ps_prepared p' \<and> (\<exists>n. announces sapi (ps_query p) n \<and> ps_params p' = resize n (ps_params p))))"

lemma later_refl [simp]: "later sapi p p"
  by (simp add: later_def)

lemma later_trans: "later sapi p q \<Longrightarrow> later sapi q r \<Longrightarrow> later sapi p r"
  by (auto simp: later_def)

lemma lazy_prepare_later:
  assumes n: "small_counts sapi" and good: "ps_good sapi p" and run: "lazy_prepare sapi raw p = (ok, p')"
  shows "later sapi p p' \<and> ps_good sapi p' \<and> (ok \<longrightarrow> ps_prepared p')"
proof (cases "ok \<and> \<not> ps_prepared p")
  case True
  with run obtain m st st' where st: "raw = Some m" "st_init sapi m = Some st" "st_prepare sapi st (ps_query p) = (0, st')"
    by (auto simp: lazy_prepare_def Let_def split: if_splits option.splits prod.splits)
  let ?n = "st_param_count sapi st'"
  have count: "wrap32 (int ?n) = int ?n"
    using n by (intro wrap32_id) (simp_all add: small_counts_def)
  have len: "ps_paramCount p = int (length (ps_params p))" using good by (simp add: ps_good_def ps_wf_def)
  with True run st count have p': "ps_params p' = resize ?n (ps_params p)" "ps_query p' = ps_query p" "ps_prepared p'"
      "ps_stmt p' = Some st'" "ps_paramCount p' = int ?n"
    by (auto simp: lazy_prepare_def Let_def)
  moreover have "announces sapi (ps_query p) ?n" using st by (auto simp: announces_def)
  moreover have "handle_for sapi (ps_query p) st'" using st(2,3) by (rule handle_for.prepared)
  ultimately show ?thesis using True by (auto simp: later_def ps_good_def ps_wf_def)
next
  case False
  with run good show ?thesis
    by (auto simp: lazy_prepare_def later_def ps_good_def ps_wf_def Let_def split: if_splits option.splits prod.splits)
qed

text \<open>An execution that gets past the preparation binds all staged values and nothing else.\<close>

lemma execute_cases:
  assumes n: "small_counts sapi" and good: "ps_good sapi p" and run: "execute sapi raw out p = Some (r, out', p')"
  obtains (stopped) "later sapi p p'" "ps_good sapi p'" "r = Found False"
    | (ran) p1 st1 res st2 where "later sapi p p1" "ps_good sapi p1" "ps_prepared p1"
        "(if ps_params p1 = [] then st1 = the (ps_stmt p1)
          else st_bind_param sapi (the (ps_stmt p1)) (map bind_of (ps_params p1)) = (0, st1))"
        "run_prepared sapi st1 = Some (res, st2)" "p' = p1\<lparr>ps_stmt := Some st2\<rparr>"
        "case res of None \<Rightarrow> r = Found False | Some rs \<Rightarrow> r = Found True \<and> qr_sets out' = [rs]"
proof (cases "valid p")
  case False
  with run stopped good show ?thesis by (simp add: execute_def)
next
  case v: True
  obtain ok p1 where l: "lazy_prepare sapi raw p = (ok, p1)" by (cases "lazy_prepare sapi raw p")
  note p1 = lazy_prepare_later [OF n good l]
  show ?thesis
  proof (cases ok)
    case False
    with run v l p1 stopped show ?thesis by (simp add: execute_def)
  next
    case True
    have wf: "ps_wf p1" and c: "(0 < ps_paramCount p1) = (ps_params p1 \<noteq> [])" and pr: "ps_prepared p1"
      using p1 True by (auto simp: ps_good_def ps_wf_def)
    obtain rc st1 where b: "(if 0 < ps_paramCount p1
        then st_bind_param sapi (the (ps_stmt p1)) (map bind_of (ps_params p1)) else (0, the (ps_stmt p1))) = (rc, st1)"
        (is "?b = _") by (cases ?b)
    show ?thesis
    proof (cases "rc = 0")
      case False
      from b False c have "st_bind_param sapi (the (ps_stmt p1)) (map bind_of (ps_params p1)) = (rc, st1)"
        by (auto split: if_splits)
      with p1 pr have "ps_good sapi (p1\<lparr>ps_stmt := Some st1\<rparr>)"
        by (auto simp: ps_good_def ps_wf_def intro: handle_for.bound)
      moreover have "later sapi p (p1\<lparr>ps_stmt := Some st1\<rparr>)" using p1 by (simp add: later_def)
      ultimately show ?thesis
        using run v l True wf b False stopped by (simp add: execute_def param_binds_wf)
    next
      case z: True
      have b': "if ps_params p1 = [] then st1 = the (ps_stmt p1)
          else st_bind_param sapi (the (ps_stmt p1)) (map bind_of (ps_params p1)) = (0, st1)"
        using b z c by (auto split: if_splits)
      note run' = run [unfolded execute_def] v l True wf b z
      from run' obtain res st2 where r: "run_prepared sapi st1 = Some (res, st2)"
        by (cases "run_prepared sapi st1") (auto simp: param_binds_wf)
      show ?thesis
        by (rule ran [OF _ _ pr b' r]) (use run' r p1 in \<open>auto simp: param_binds_wf Let_def split: option.splits\<close>)
    qed
  qed
qed

lemma execute_later:
  assumes "small_counts sapi" and "ps_good sapi p" and "execute sapi raw out p = Some (r, out', p')"
  shows "later sapi p p' \<and> ps_good sapi p'"
  using assms
proof (cases rule: execute_cases)
  case (ran p1 st1 res st2)
  then have "handle_for sapi (ps_query p1) (the (ps_stmt p1))" by (simp add: ps_good_def)
  with ran(4) have "handle_for sapi (ps_query p1) st1" by (auto split: if_splits intro: handle_for.bound)
  with ran(5) have "handle_for sapi (ps_query p1) st2" by (rule handle_for.executed [rotated])
  with ran show ?thesis by (simp add: later_def ps_good_def ps_wf_def)
qed simp

lemma execute_sends:
  assumes "small_counts sapi" and "ps_good sapi p" and "execute sapi raw out p = Some (Found True, out', p')"
  shows "\<exists>rs. qr_sets out' = [rs] \<and> sends sapi (ps_query p) (ps_params p') rs \<and> ps_prepared p'"
  using assms
proof (cases rule: execute_cases)
  case (ran p1 st1 res st2)
  then obtain rs where rs: "res = Some rs" "qr_sets out' = [rs]" by (cases res) auto
  have "handle_for sapi (ps_query p) (the (ps_stmt p1))" using ran(1-3) by (simp add: ps_good_def later_def)
  with ran(4,5) rs(1) have "sends sapi (ps_query p) (ps_params p1) rs" unfolding sends_def by blast
  with rs(2) ran(3,6) show ?thesis by simp
qed simp

section \<open>The frame of a statement\<close>

definition heap_frame :: "('m, 'st) stmt_client \<Rightarrow> nat \<Rightarrow> ('m, 'st) store \<Rightarrow> ('m, 'st) store \<Rightarrow> bool" where
  "heap_frame sapi a s s' \<longleftrightarrow> ((\<forall>b p. so_stmts s b = Some p \<longrightarrow> ps_good sapi p) \<longrightarrow>
     (\<forall>b p. so_stmts s' b = Some p \<longrightarrow> ps_good sapi p) \<and>
     (\<forall>p'. so_stmts s' a = Some p' \<longrightarrow> (\<exists>p. so_stmts s a = Some p \<and> later sapi p p')))"

definition stmt_frame :: "('m, 'st) stmt_client \<Rightarrow> nat \<Rightarrow> ('m, 'st) component \<Rightarrow> ('m, 'st) component \<Rightarrow> bool" where
  "stmt_frame sapi a c d \<longleftrightarrow> (small_counts sapi \<longrightarrow> heap_frame sapi a (heap c) (heap d))"

lemma heap_frame_same: "so_stmts s' = so_stmts s \<Longrightarrow> heap_frame sapi a s s'"
  by (auto simp: heap_frame_def)

lemma heap_frame_trans: "heap_frame sapi a s t \<Longrightarrow> heap_frame sapi a t u \<Longrightarrow> heap_frame sapi a s u"
  unfolding heap_frame_def by (blast intro: later_trans)

lemma heap_frame_free: "so_stmts s' = (so_stmts s)(b := None) \<Longrightarrow> heap_frame sapi a s s'"
  by (auto simp: heap_frame_def split: if_splits)

lemma run_statement_frame:
  assumes "small_counts sapi" and "run_statement sapi elapsed b job s = Some (Found (job', s'))"
  shows "heap_frame sapi a s s'"
  using assms(2)
proof (rule run_statement_cases)
  fix p raw ok res p'
  assume "so_stmts s b = Some p" "s' = s\<lparr>so_stmts := (so_stmts s)(b \<mapsto> p')\<rparr>"
    "execute sapi raw \<lparr>qr_sets = [], qr_execTimeMicros = 0, qr_queryString = qj_sql job\<rparr> p = Some (Found ok, res, p')"
  with execute_later [OF assms(1) _ this(3)] show ?thesis by (auto simp: heap_frame_def split: if_splits)
qed

lemma process_job_frame:
  assumes "small_counts sapi" and "process_job api sapi elapsed conn job s = Some (Found (d, s'))"
  shows "heap_frame sapi a s s'"
  using assms(2)
proof (cases rule: process_job_cases)
  case teardown
  then show ?thesis by (intro heap_frame_free) simp
next
  case (plain ca job')
  then show ?thesis by (auto elim!: run_query_cases intro: heap_frame_same)
qed (auto intro: heap_frame_same run_statement_frame [OF assms(1)])

lemma run_jobs_frame:
  assumes "small_counts sapi"
  shows "run_jobs api sapi elapsed ca js (p, e, s) = Some (Found (p', e', s')) \<Longrightarrow> heap_frame sapi a s s'"
proof (induction js arbitrary: p e s)
  case (Cons j js)
  then obtain d s1 where d: "process_job api sapi (elapsed j) (Some ca) j s = Some (Found (d, s1))"
    by (auto split: option.splits access.splits)
  with Cons.prems Cons.IH have "heap_frame sapi a s1 s'" by (cases d) auto
  with process_job_frame [OF assms d] show ?case by (rule heap_frame_trans)
qed (simp add: heap_frame_same)

interpretation staging: component_frame api sapi "stmt_frame sapi a"
  for api :: "'m client" and sapi :: "('m, 'st) stmt_client" and a
proof
  fix c d e :: "('m, 'st) component"
  show "stmt_frame sapi a c d \<Longrightarrow> stmt_frame sapi a d e \<Longrightarrow> stmt_frame sapi a c e"
    unfolding stmt_frame_def by (blast intro: heap_frame_trans)
  show "bookkeeping c d \<Longrightarrow> stmt_frame sapi a c d" by (simp add: bookkeeping_def stmt_frame_def heap_frame_same)
next
  fix elapsed h w n x and c c' :: "('m, 'st) component"
  assume "work_off api sapi elapsed h w n c = Some (Found (x, c'))"
  then show "stmt_frame sapi a c c'"
    by (rule work_off_split) (auto simp: stmt_frame_def dest: run_jobs_frame)
next
  fix b and c :: "('m, 'st) component"
  show "stmt_frame sapi a c (put_conn b None c)" by (simp add: stmt_frame_def put_conn_def heap_frame_same)
  show "stmt_frame sapi a c (put_stmt b None c)" by (simp add: stmt_frame_def put_stmt_def heap_frame_free)
qed

lemma reset_staging:
  assumes "reset_component api sapi elapsed c = Some (Found c')"
  shows "stmt_frame sapi a c c'"
  using staging.R_reset [OF assms, of a]
  by (auto simp: stmt_frame_def clearActiveCache_def clearModels_def clearOptions_def intro: heap_frame_trans)

section \<open>Histories\<close>

text \<open>
  From \<open>c0\<close>, while the statement at \<open>a\<close> lives, anything the component and its environment can do, with the settings made
  on that statement in their order.
\<close>

inductive binding_run ::
    "'m client \<Rightarrow> ('m, 'st) stmt_client \<Rightarrow> nat \<Rightarrow> ('m, 'st) component \<Rightarrow> setting list \<Rightarrow> ('m, 'st) component \<Rightarrow> bool"
  for api :: "'m client" and sapi :: "('m, 'st) stmt_client" and a c0 where
  here: "binding_run api sapi a c0 [] c0"
| set: "binding_run api sapi a c0 xs c \<Longrightarrow> sets_param a x c c' \<Longrightarrow> binding_run api sapi a c0 (xs @ [x]) c'"
| other: "binding_run api sapi a c0 xs c \<Longrightarrow> so_stmts (heap c) a \<noteq> None \<Longrightarrow> comp_step api sapi c c' \<Longrightarrow>
    \<nexists>x. sets_param a x c c' \<Longrightarrow> binding_run api sapi a c0 xs c'"
| engine: "binding_run api sapi a c0 xs c \<Longrightarrow> binding_run api sapi a c0 xs (c\<lparr>engine := e\<rparr>)"

lemma stmt_frame_same: "heap c' = heap c \<Longrightarrow> stmt_frame sapi a c c'"
  by (simp add: stmt_frame_def heap_frame_same)

lemma stmt_frame_other: "a \<noteq> b \<Longrightarrow> ps_good sapi q \<Longrightarrow> stmt_frame sapi a c (put_stmt b (Some q) c)"
  by (auto simp: stmt_frame_def heap_frame_def put_stmt_def)

lemma set_param_good: "ps_good sapi p \<Longrightarrow> ps_good sapi (set_param g i p)"
  by (simp add: ps_good_def set_param_wf set_param_rest)

definition stmts_good :: "('m, 'st) stmt_client \<Rightarrow> ('m, 'st) component \<Rightarrow> bool" where
  "stmts_good sapi c \<longleftrightarrow> (\<forall>b p. so_stmts (heap c) b = Some p \<longrightarrow> ps_good sapi p)"

text \<open>A step is a setting, a new statement, or within the frame.\<close>

lemma comp_step_cases:
  assumes "comp_step api sapi c c'"
  obtains (frame) "\<And>a. stmt_frame sapi a c c'"
    | (fresh) b ca sql where "so_stmts (heap c) b = None"
        "so_stmts (heap c') = (so_stmts (heap c))(b \<mapsto> new_statement (Some ca) sql)"
    | (bind) h b p q i v z t where "getStatement h c = Some b" "so_stmts (heap c) b = Some p"
        "q \<in> {bindInt i v p, bindFloat i z p, bindString i t p, bindNull i p}" "c' = put_stmt b (Some q) c"
  using assms
proof cases
  case (connect a multi conn)
  then show ?thesis
    by (intro frame) (simp add: stmt_frame_def put_conn_def addConnection_def heap_frame_same Let_def)
next
  case (disconnect elapsed h b)
  then show ?thesis by (intro frame) (rule staging.R_removeConnection)
next
  case (prepare a h ca sql)
  then show ?thesis by (intro fresh) (simp_all add: put_stmt_def addStatement_def)
next
  case (bind_param h a p q i v x t)
  then show ?thesis by (intro bind) (simp_all add: getStatement_def)
next
  case (stmt_close h b)
  then show ?thesis by (intro frame) (rule staging.R_removeStatement)
next
  case (enqueue job now pend r)
  then show ?thesis by (intro frame) (rule staging.R_enqueueJob)
next
  case (sync job elapsed now pend x r)
  then show ?thesis by (intro frame) (rule staging.R_runJobSync)
next
  case (work h w elapsed n x)
  then show ?thesis by (intro frame) (rule staging.R_work)
next
  case (use_conn h a conn)
  then show ?thesis by (intro frame) (simp add: stmt_frame_def put_conn_def heap_frame_same)
next
  case (restart elapsed)
  then show ?thesis by (intro frame) (rule reset_staging)
next
  case internal
  then show ?thesis by (intro frame stmt_frame_same) (simp add: same_life_def)
qed (rule frame, rule stmt_frame_same, simp add: setActiveCache_def clearActiveCache_def setActiveResultIndex_def saveActiveCache_def
    activateSavedCache_def deleteSavedCache_def Let_def split: option.split)+

lemma comp_step_good:
  assumes "small_counts sapi" and "comp_step api sapi c c'" and "stmts_good sapi c"
  shows "stmts_good sapi c'"
  using assms(2)
proof (cases rule: comp_step_cases)
  case frame
  with assms(1,3) show ?thesis by (simp add: stmt_frame_def heap_frame_def stmts_good_def)
next
  case (fresh b ca sql)
  with assms(3) new_statement_wf [of "Some ca" sql] show ?thesis
    by (auto simp: stmts_good_def ps_good_def new_statement_def Let_def split: if_splits)
next
  case (bind h b p q i v z t)
  with assms(3) have "ps_good sapi q" by (auto simp: stmts_good_def bind_defs intro: set_param_good)
  with bind assms(3) show ?thesis by (auto simp: stmts_good_def put_stmt_def)
qed

lemma comp_reach_good: "comp_reach api sapi c \<Longrightarrow> small_counts sapi \<Longrightarrow> stmts_good sapi c"
proof (induction rule: comp_reach.induct)
  case init
  then show ?case by (simp add: stmts_good_def new_component_def)
next
  case (step c c')
  then show ?case using comp_step_good by blast
qed (simp_all add: stmts_good_def)

text \<open>What is staged after a history: the settings in their order, and the adjustment of the first execution among them.\<close>

definition staged_after :: "('m, 'st) stmt_client \<Rightarrow> 'st PreparedStatement \<Rightarrow> setting list \<Rightarrow> 'st PreparedStatement \<Rightarrow> bool" where
  "staged_after sapi p xs p' \<longleftrightarrow> ps_query p' = ps_query p \<and>
     ((ps_prepared p' = ps_prepared p \<and> ps_params p' = fold staged xs (ps_params p)) \<or>
      (\<not> ps_prepared p \<and> ps_prepared p' \<and> (\<exists>ys zs n. xs = ys @ zs \<and> announces sapi (ps_query p) n \<and>
         ps_params p' = fold staged zs (resize n (fold staged ys (ps_params p))))))"

lemma staged_after_later: "staged_after sapi p xs q \<Longrightarrow> later sapi q r \<Longrightarrow> staged_after sapi p xs r"
  unfolding staged_after_def later_def by (metis append_Nil2 fold_simps(1))

lemma staged_after_set:
  assumes "staged_after sapi p xs q" and "staged x = stage g i"
  shows "staged_after sapi p (xs @ [x]) (set_param g i q)"
proof (cases "ps_prepared p \<or> \<not> ps_prepared q")
  case True
  with assms show ?thesis by (auto simp: staged_after_def set_param_rest set_param_stage)
next
  case False
  with assms(1) obtain ys zs n where "xs = ys @ zs" "announces sapi (ps_query p) n"
      "ps_params q = fold staged zs (resize n (fold staged ys (ps_params p)))"
    by (auto simp: staged_after_def)
  then have "xs @ [x] = ys @ (zs @ [x])" "announces sapi (ps_query p) n"
      "ps_params (set_param g i q) = fold staged (zs @ [x]) (resize n (fold staged ys (ps_params p)))"
    by (simp_all add: set_param_stage assms(2))
  with False assms(1) show ?thesis unfolding staged_after_def set_param_rest by blast
qed

lemma binding_run_staged:
  assumes run: "binding_run api sapi a c0 xs c" and n: "small_counts sapi" and good: "stmts_good sapi c0"
    and p0: "so_stmts (heap c0) a = Some p0"
  shows "stmts_good sapi c \<and> (\<forall>p. so_stmts (heap c) a = Some p \<longrightarrow> staged_after sapi p0 xs p)"
  using run
proof (induction rule: binding_run.induct)
  case here
  with good p0 show ?case by (simp add: staged_after_def)
next
  case (set xs c x c')
  from set.hyps(2) obtain g i p where p: "so_stmts (heap c) a = Some p" "c' = put_stmt a (Some (set_param g i p)) c"
      "staged x = stage g i" by (rule sets_param_split)
  with set.IH show ?case by (auto simp: stmts_good_def put_stmt_def set_param_good staged_after_set)
next
  case (other xs c c')
  then obtain q where q: "so_stmts (heap c) a = Some q" "staged_after sapi p0 xs q" by auto
  have "stmts_good sapi c'" using comp_step_good [OF n other.hyps(3)] other.IH by blast
  moreover have "staged_after sapi p0 xs p" if p: "so_stmts (heap c') a = Some p" for p
    using other.hyps(3)
  proof (cases rule: comp_step_cases)
    case frame
    from frame [of a] n other.IH p q(1) have "later sapi q p"
      by (auto simp: stmt_frame_def heap_frame_def stmts_good_def)
    with q(2) show ?thesis by (rule staged_after_later)
  next
    case (fresh b ca sql)
    with p q show ?thesis by (auto split: if_splits)
  next
    case (bind h b p1 q1 i v z t)
    show ?thesis
    proof (cases "b = a")
      case True
      with bind binder_sets [of h c a p1 i q1 v z t] other.hyps(4) have "i = - (2 ^ 31) - 1" by blast
      with bind True p q show ?thesis by (auto simp: put_stmt_def bind_defs set_param_negative)
    next
      case False
      with bind p q show ?thesis by (simp add: put_stmt_def)
    qed
  qed
  ultimately show ?case by blast
qed (simp add: stmts_good_def)

section \<open>Properties\<close>


section \<open>Witnesses\<close>

text \<open>
  The statement \<^verbatim>\<open>SELECT ?\<close> on handle 1: the script binds 7, executes it, and binds 9 before the worker gets there.  The
  server announces two parameters and gets 9 and NULL.
\<close>

definition demo_stmt :: "nat PreparedStatement" where
  "demo_stmt = new_statement (Some 4) ''SELECT ?''"

definition bound_comp :: "(nat, nat) component" where
  "bound_comp = put_stmt 5 (Some (bindInt 0 7 demo_stmt)) (wd_comp prepared_world)"

definition stmt_asked_job :: QueryJob where
  "stmt_asked_job = default_job\<lparr>qj_connectionHandle := 1, qj_statement := Some 5, qj_sql := ''SELECT ?''\<rparr>"

definition stmt_asked_comp :: "(nat, nat) component" where
  "stmt_asked_comp = push_worker 1 \<lparr>cw_conn = 4, cw_jobs = []\<rparr> stmt_asked_job bound_comp"

definition rebound_comp :: "(nat, nat) component" where
  "rebound_comp = put_stmt 5 (Some (bindInt 0 9 (bindInt 0 7 demo_stmt))) stmt_asked_comp"

lemma prepared_comp:
  "wd_comp prepared_world = snd (addStatement (Some 5) (put_stmt 5 (Some demo_stmt) (wd_comp connected_world)))"
  by (simp add: prepared_world_def mysql_prepare_def connected_comp getConnection_def put_conn_def addConnection_def
      new_component_def emplace_def valid_def new_statement_def addStatement_def demo_stmt_def Let_def)

lemmas prepared_eval = prepared_comp connected_comp getConnection_def put_conn_def addConnection_def new_component_def
  emplace_def assign_def addStatement_def put_stmt_def

lemma bound_stmt: "bindInt 0 v demo_stmt = demo_stmt\<lparr>ps_params := [\<lparr>sp_kind = KInt, sp_intValue = v, sp_floatValue = 0, sp_stringValue = []\<rparr>]\<rparr>"
  by (simp add: demo_stmt_def bindInt_def set_param_def ensureParam_def new_statement_def CountPlaceholders_def resize_def
      default_param_def numeral_eq_Suc Let_def)

lemma demo_stmt_fields:
  "ps_conn demo_stmt = Some 4" "ps_query demo_stmt = ''SELECT ?''" "\<not> ps_prepared demo_stmt" "ps_params demo_stmt = [default_param]"
  by (simp_all add: demo_stmt_def new_statement_def CountPlaceholders_def resize_def Let_def numeral_eq_Suc)

lemma stmt_asked: "\<exists>w. n_mysql_stmt_execute demo_native_env demo_exec 0 0 0 [4, 1] (prepared_world\<lparr>wd_comp := bound_comp\<rparr>) =
    Found (1, w, []) \<and> wd_comp w = stmt_asked_comp"
  by (simp add: n_mysql_stmt_execute_def host_enqueue_def bound_comp_def bound_stmt demo_stmt_fields prepared_eval getStatement_def
      param_count_def valid_def connectionHandleOf_def enqueueJob_def checkGuards_def entry_or_def default_guards_def
      stmt_job_def stmt_asked_comp_def push_worker_def stmt_asked_job_def default_job_def Let_def)

lemma stmt_asked_step: "comp_step tls_client one_row_client bound_comp stmt_asked_comp"
proof (rule comp_step.enqueue)
  show "job_safe bound_comp stmt_asked_job"
    by (simp add: job_safe_def stmt_asked_job_def default_job_def bound_comp_def bound_stmt demo_stmt_fields prepared_eval connectionHandleOf_def Let_def)
  show "job_fresh stmt_asked_job" by (simp add: job_fresh_def stmt_asked_job_def default_job_def)
  show "enqueueJob 0 0 stmt_asked_job bound_comp = (NoReject, stmt_asked_comp)"
    by (simp add: bound_comp_def bound_stmt demo_stmt_fields prepared_eval enqueueJob_def checkGuards_def entry_or_def
      default_guards_def stmt_asked_comp_def push_worker_def stmt_asked_job_def default_job_def Let_def)
qed

lemma late_binding_run:
  "binding_run tls_client one_row_client 5 (wd_comp prepared_world) [SetInt 1 7, SetInt 1 9] rebound_comp"
proof -
  let ?run = "binding_run tls_client one_row_client 5 (wd_comp prepared_world)"
  have "sets_param 5 (SetInt 1 7) (wd_comp prepared_world) bound_comp"
    by (simp add: sets_param_def mysql_stmt_set_int_def on_stmt_def getStatement_def bound_comp_def prepared_eval exI [of _ 1] Let_def)
  from binding_run.set [OF binding_run.here this] have "?run [SetInt 1 7] bound_comp" by simp
  moreover have "\<nexists>x. sets_param 5 x bound_comp stmt_asked_comp"
  proof
    assume "\<exists>x. sets_param 5 x bound_comp stmt_asked_comp"
    then have "workers stmt_asked_comp = workers bound_comp" using sets_param_workers by blast
    then show False by (simp add: stmt_asked_comp_def push_worker_def bound_comp_def prepared_eval Let_def)
  qed
  moreover have "so_stmts (heap bound_comp) 5 \<noteq> None" by (simp add: bound_comp_def put_stmt_def)
  ultimately have "?run [SetInt 1 7] stmt_asked_comp" using binding_run.other stmt_asked_step by blast
  moreover have "sets_param 5 (SetInt 1 9) stmt_asked_comp rebound_comp"
    by (simp add: sets_param_def mysql_stmt_set_int_def on_stmt_def getStatement_def rebound_comp_def stmt_asked_comp_def
        push_worker_def bound_comp_def prepared_eval exI [of _ 1] Let_def)
  ultimately show ?thesis using binding_run.set by fastforce
qed

lemma one_row_runs: "\<exists>rs. run_prepared one_row_client st = Some (Some rs, 0)"
  by (simp add: run_prepared_def one_row_client_def fetch_loop.simps Let_def)

lemma rebound_heap:
  "so_stmts (heap rebound_comp) 5 = Some (demo_stmt\<lparr>ps_params := [\<lparr>sp_kind = KInt, sp_intValue = 9, sp_floatValue = 0,
     sp_stringValue = []\<rparr>]\<rparr>)" "so_conns (heap rebound_comp) 4 = Some \<lparr>cn_mysql = Some 0, cn_connected = True\<rparr>"
  by (simp_all add: rebound_comp_def stmt_asked_comp_def push_worker_def bound_comp_def prepared_eval bound_stmt Let_def)
     (simp add: bindInt_def set_param_def ensureParam_def)

lemma rebound_executes:
  "\<exists>job' s'. process_job tls_client one_row_client 0 (Some 4) stmt_asked_job (heap rebound_comp) =
     Some (Found (ToSink job', s')) \<and> qj_succeeded job'"
proof -
  let ?p = "demo_stmt\<lparr>ps_params := [\<lparr>sp_kind = KInt, sp_intValue = 9, sp_floatValue = 0, sp_stringValue = []\<rparr>]\<rparr>"
  have count: "ps_paramCount demo_stmt = 1" by (simp add: demo_stmt_def new_statement_def CountPlaceholders_def Let_def)
  have client: "st_init one_row_client 0 = Some 0" "st_prepare one_row_client 0 q = (0, 1)" "st_param_count one_row_client st = 2"
      "length bs = 2 \<Longrightarrow> st_bind_param one_row_client st bs = (0, st)" for q st bs
    by (simp_all add: one_row_client_def)
  have "lazy_prepare one_row_client (Some 0) ?p = (True, ?p\<lparr>ps_stmt := Some 1, ps_paramCount := 2,
      ps_params := resize 2 (ps_params ?p), ps_prepared := True\<rparr>)" (is "_ = (True, ?q)")
    by (simp add: lazy_prepare_def demo_stmt_fields client count wrap32_def Let_def)
  moreover have "param_binds ?q = Found (map bind_of (resize 2 (ps_params ?p)))"
    by (subst param_binds_wf) (simp_all add: ps_wf_def)
  moreover obtain rs where "run_prepared one_row_client 1 = Some (Some rs, 0)" using one_row_runs by blast
  ultimately have "\<exists>out' p'. execute one_row_client (Some 0) out ?p = Some (Found True, out', p')" for out
    by (simp add: execute_def valid_def demo_stmt_fields client Let_def)
  then show ?thesis
    by (fastforce simp: process_job_def stmt_asked_job_def default_job_def hand_over_def run_statement_def rebound_heap
        raw_of_def valid_def demo_stmt_fields finish_job_def)
qed


end
